(* ===== verification/Prelude.thy ===== *)
theory Prelude
  imports Complex_Main "HOL-Library.Multiset" "HOL-Library.Sublist"
begin

section \<open>Prelude: what every component shares\<close>

text \<open>
  The generic part of the library: Go's \<open>(value, error)\<close> results as a sum with the
  error on the left, the combinators that read as the two shapes of Go's error
  handling (\<open>if err != nil { return err }\<close> and the wrapping of an error on its way
  up), the preservation calculus that carries every invariant proof, signed 64-bit
  wrap-around, and the byte-string functions of package \<open>strings\<close> that the service
  calls. Strings are lists of bytes, as in Go.
\<close>

named_theorems preserve_intros \<open>rules that reduce preservation of a composite to its parts\<close>
named_theorems stmt_simps \<open>unfolding of the SQL statements\<close>
named_theorems repo_simps \<open>unfolding of the repository operations\<close>

subsection \<open>Results and state\<close>

text \<open>An operation on a state: it returns an error or a value, and the new state.\<close>

type_synonym ('s, 'e, 'a) action = "'s \<Rightarrow> ('e + 'a) \<times> 's"

text \<open>\<open>v, err := m(); if err != nil { return err }; f(v)\<close>\<close>

definition seq :: "('s, 'e, 'a) action \<Rightarrow> ('a \<Rightarrow> ('s, 'e, 'b) action) \<Rightarrow> ('s, 'e, 'b) action" where
  "seq m f s = (case m s of (Inl e, s') \<Rightarrow> (Inl e, s') | (Inr v, s') \<Rightarrow> f v s')"

text \<open>\<open>if err != nil { return g(err) }\<close>: the error is replaced on its way up.\<close>

definition on_err :: "('e \<Rightarrow> 'e) \<Rightarrow> ('s, 'e, 'a) action \<Rightarrow> ('s, 'e, 'a) action" where
  "on_err g m s = (case m s of (Inl e, s') \<Rightarrow> (Inl (g e), s') | (Inr v, s') \<Rightarrow> (Inr v, s'))"

definition give :: "'a \<Rightarrow> ('s, 'e, 'a) action" where
  "give v s = (Inr v, s)"

definition raise :: "'e \<Rightarrow> ('s, 'e, 'a) action" where
  "raise e s = (Inl e, s)"

lemma give_simps [simp]: "give v s = (Inr v, s)"
  by (simp add: give_def)

lemma raise_simps [simp]: "raise e s = (Inl e, s)"
  by (simp add: raise_def)

lemma seq_Inr_iff:
  "seq m f s = (Inr w, t) \<longleftrightarrow> (\<exists>v s'. m s = (Inr v, s') \<and> f v s' = (Inr w, t))"
  by (auto simp: seq_def split: prod.splits sum.splits)

lemma seq_Inl_iff:
  "seq m f s = (Inl e, t) \<longleftrightarrow>
     m s = (Inl e, t) \<or> (\<exists>v s'. m s = (Inr v, s') \<and> f v s' = (Inl e, t))"
  by (auto simp: seq_def split: prod.splits sum.splits)

lemma on_err_Inr_iff [simp]: "on_err g m s = (Inr v, t) \<longleftrightarrow> m s = (Inr v, t)"
  by (auto simp: on_err_def split: prod.splits sum.splits)

lemma on_err_Inl_iff:
  "on_err g m s = (Inl e, t) \<longleftrightarrow> (\<exists>e'. m s = (Inl e', t) \<and> e = g e')"
  by (auto simp: on_err_def split: prod.splits sum.splits)

lemmas action_iffs = seq_Inr_iff seq_Inl_iff on_err_Inl_iff

lemma seq_run_Inr: "m s = (Inr v, s') \<Longrightarrow> seq m f s = f v s'"
  by (simp add: seq_def)

lemma seq_run_Inl: "m s = (Inl e, s') \<Longrightarrow> seq m f s = (Inl e, s')"
  by (simp add: seq_def)

lemma on_err_run_Inr: "m s = (Inr v, s') \<Longrightarrow> on_err g m s = (Inr v, s')"
  by (simp add: on_err_def)

lemma on_err_run_Inl: "m s = (Inl e, s') \<Longrightarrow> on_err g m s = (Inl (g e), s')"
  by (simp add: on_err_def)

lemmas action_runs = seq_run_Inr seq_run_Inl on_err_run_Inr on_err_run_Inl

lemma snd_on_err [simp]: "snd (on_err g m s) = snd (m s)"
  by (simp add: on_err_def split: prod.splits sum.splits)

subsection \<open>Preservation of an invariant\<close>

definition preserves :: "('s \<Rightarrow> bool) \<Rightarrow> ('s, 'e, 'a) action \<Rightarrow> bool" where
  "preserves I m \<longleftrightarrow> (\<forall>s. I s \<longrightarrow> I (snd (m s)))"

lemma preservesI: "(\<And>s r t. I s \<Longrightarrow> m s = (r, t) \<Longrightarrow> I t) \<Longrightarrow> preserves I m"
  by (metis preserves_def prod.collapse)

lemma preservesD: "preserves I m \<Longrightarrow> I s \<Longrightarrow> m s = (r, t) \<Longrightarrow> I t"
  by (metis preserves_def snd_conv)

lemma preserves_snd: "preserves I m \<Longrightarrow> I s \<Longrightarrow> I (snd (m s))"
  by (simp add: preserves_def)

lemma preserves_seq [preserve_intros]:
  assumes "preserves I m" and "\<And>v. preserves I (f v)"
  shows "preserves I (seq m f)"
proof (rule preservesI)
  fix s r t assume "I s" and "seq m f s = (r, t)"
  then show "I t"
    by (auto simp: seq_def split: prod.splits sum.splits dest: preservesD [OF assms(1)]
        preservesD [OF assms(2)])
qed

lemma preserves_on_err [preserve_intros]: "preserves I m \<Longrightarrow> preserves I (on_err g m)"
  by (simp add: preserves_def)

lemma preserves_give [preserve_intros]: "preserves I (give v)"
  by (simp add: preserves_def)

lemma preserves_raise [preserve_intros]: "preserves I (raise e)"
  by (simp add: preserves_def)

lemma preserves_if [preserve_intros]:
  "(b \<Longrightarrow> preserves I m) \<Longrightarrow> (\<not> b \<Longrightarrow> preserves I n) \<Longrightarrow> preserves I (if b then m else n)"
  by simp

lemma preserves_option [preserve_intros]:
  "preserves I m \<Longrightarrow> (\<And>x. preserves I (f x)) \<Longrightarrow>
     preserves I (case opt of None \<Rightarrow> m | Some x \<Rightarrow> f x)"
  by (cases opt) simp_all

lemma preserves_sum [preserve_intros]:
  "(\<And>x. preserves I (f x)) \<Longrightarrow> (\<And>y. preserves I (g y)) \<Longrightarrow>
     preserves I (case r of Inl x \<Rightarrow> f x | Inr y \<Rightarrow> g y)"
  by (cases r) simp_all

subsection \<open>Signed 64-bit arithmetic\<close>

text \<open>Go's \<open>int\<close> and \<open>int64\<close> on the platforms the service is built for.\<close>

definition max_int64 :: int where "max_int64 = 9223372036854775807"
definition min_int64 :: int where "min_int64 = -9223372036854775808"

definition wrap64 :: "int \<Rightarrow> int" where
  "wrap64 x = (x + 9223372036854775808) mod 18446744073709551616 - 9223372036854775808"

definition is_int64 :: "int \<Rightarrow> bool" where
  "is_int64 x \<longleftrightarrow> min_int64 \<le> x \<and> x \<le> max_int64"

lemma is_int64_wrap64 [simp]: "is_int64 (wrap64 x)"
proof -
  have "0 \<le> (x + 9223372036854775808) mod 18446744073709551616"
    and "(x + 9223372036854775808) mod 18446744073709551616 < 18446744073709551616"
    by simp_all
  then show ?thesis
    unfolding is_int64_def wrap64_def min_int64_def max_int64_def by linarith
qed

lemma wrap64_id [simp]: "is_int64 x \<Longrightarrow> wrap64 x = x"
  unfolding is_int64_def wrap64_def min_int64_def max_int64_def
  by (subst mod_pos_pos_trivial) simp_all

subsection \<open>Bytes and strings\<close>

definition ascii_upper :: "char \<Rightarrow> char" where
  "ascii_upper c = (let n = (of_char c :: nat) in if 97 \<le> n \<and> n \<le> 122 then char_of (n - 32) else c)"

definition ascii_lower :: "char \<Rightarrow> char" where
  "ascii_lower c = (let n = (of_char c :: nat) in if 65 \<le> n \<and> n \<le> 90 then char_of (n + 32) else c)"

text \<open>\<open>strings.ToUpper\<close> and \<open>strings.ToLower\<close> on ASCII text.\<close>

definition to_upper :: "string \<Rightarrow> string" where "to_upper s = map ascii_upper s"
definition to_lower :: "string \<Rightarrow> string" where "to_lower s = map ascii_lower s"

definition is_space :: "char \<Rightarrow> bool" where
  "is_space c \<longleftrightarrow> (of_char c :: nat) \<in> {9, 10, 11, 12, 13, 32}"

text \<open>\<open>strings.TrimSpace\<close> on ASCII text.\<close>

definition trim_space :: "string \<Rightarrow> string" where
  "trim_space s = rev (dropWhile is_space (rev (dropWhile is_space s)))"

text \<open>
  \<open>utf8.RuneCountInString\<close> on valid UTF-8: the bytes that do not continue a rune. It is
  also what Postgres counts for \<open>VARCHAR(n)\<close> in a UTF-8 database.
\<close>

definition rune_count :: "string \<Rightarrow> nat" where
  "rune_count s = length (filter (\<lambda>c. (of_char c :: nat) < 128 \<or> 192 \<le> (of_char c :: nat)) s)"

lemma rune_count_le_length: "rune_count s \<le> length s"
  by (simp add: rune_count_def)

lemma append_sep_inj:
  assumes "xs @ c # ys = us @ c # vs" and "c \<notin> set xs" and "c \<notin> set us"
  shows "xs = us \<and> ys = vs"
  using assms
proof (induction xs arbitrary: us)
  case Nil
  then show ?case by (cases us) auto
next
  case (Cons x xs)
  then show ?case by (cases us) auto
qed

subsection \<open>Pages of a list\<close>

text \<open>\<open>LIMIT l OFFSET o\<close> on a finished result.\<close>

definition page_of :: "nat \<Rightarrow> nat \<Rightarrow> 'a list \<Rightarrow> 'a list" where
  "page_of l k xs = take l (drop k xs)"

lemma set_page_of: "set (page_of l k xs) \<subseteq> set xs"
  by (metis page_of_def set_drop_subset set_take_subset subset_trans)

lemma length_page_of: "length (page_of l k xs) = min l (length xs - k)"
  by (simp add: page_of_def)

lemma page_of_map: "page_of l k (map f xs) = map f (page_of l k xs)"
  by (simp add: page_of_def take_map drop_map)

text \<open>Consecutive pages of size \<open>l\<close>, one after the other, give back the whole list.\<close>

lemma concat_pages:
  assumes "length xs \<le> n * l"
  shows "concat (map (\<lambda>i. page_of l (i * l) xs) [0..<n]) = xs"
proof -
  have "concat (map (\<lambda>i. page_of l (i * l) xs) [0..<n]) = take (n * l) xs" for n
  proof (induction n)
    case 0
    show ?case by simp
  next
    case (Suc n)
    have "Suc n * l = n * l + l" by simp
    with Suc show ?case by (simp add: page_of_def take_add del: mult_Suc)
  qed
  with assms show ?thesis by simp
qed

subsection \<open>Rows found by a key that is distinct\<close>

lemma find_Some_set: "find P xs = Some x \<Longrightarrow> x \<in> set xs \<and> P x"
  by (metis find_Some_iff nth_mem)

lemma find_distinct_key:
  assumes "distinct (map k xs)" and "x \<in> set xs"
  shows "find (\<lambda>y. k y = k x) xs = Some x"
  using assms
proof (induction xs)
  case Nil
  then show ?case by simp
next
  case (Cons y ys)
  then show ?case by (auto simp: image_iff)
qed

lemma find_key_and:
  assumes "distinct (map k xs)" and "x \<in> set xs" and "P x"
  shows "find (\<lambda>y. k y = k x \<and> P y) xs = Some x"
  using assms
proof (induction xs)
  case Nil
  then show ?case by simp
next
  case (Cons y ys)
  then show ?case by (auto simp: image_iff)
qed

lemma map_if_key_id:
  "(\<And>x. k (f x) = k x) \<Longrightarrow> map k (map (\<lambda>x. if P x then f x else x) xs) = map k xs"
  by simp

lemma image_filter: "{y \<in> f ` A. P y} = f ` {x \<in> A. P (f x)}"
  by blast

subsection \<open>Sorting by a comparison\<close>

text \<open>A stable insertion sort: the shape of \<open>ORDER BY\<close> with an arbitrary comparison.\<close>

fun insert_by :: "('a \<Rightarrow> 'a \<Rightarrow> bool) \<Rightarrow> 'a \<Rightarrow> 'a list \<Rightarrow> 'a list" where
  "insert_by le x [] = [x]"
| "insert_by le x (y # ys) = (if le x y then x # y # ys else y # insert_by le x ys)"

definition sort_by :: "('a \<Rightarrow> 'a \<Rightarrow> bool) \<Rightarrow> 'a list \<Rightarrow> 'a list" where
  "sort_by le xs = foldr (insert_by le) xs []"

lemma mset_insert_by [simp]: "mset (insert_by le x ys) = add_mset x (mset ys)"
  by (induction ys) auto

lemma mset_sort_by [simp]: "mset (sort_by le xs) = mset xs"
  by (induction xs) (auto simp: sort_by_def)

lemma set_sort_by [simp]: "set (sort_by le xs) = set xs"
  by (metis mset_sort_by set_mset_mset)

lemma length_sort_by [simp]: "length (sort_by le xs) = length xs"
  by (metis mset_sort_by size_mset)

lemma set_insert_by [simp]: "set (insert_by le x ys) = insert x (set ys)"
  by (induction ys) auto

lemma sorted_insert_by:
  assumes "transp_on A le" and "totalp_on A le" and "reflp_on A le"
    and "set (x # ys) \<subseteq> A" and "sorted_wrt le ys"
  shows "sorted_wrt le (insert_by le x ys)"
  using assms(4,5)
proof (induction ys)
  case Nil
  then show ?case by simp
next
  case (Cons y ys)
  show ?case
  proof (cases "le x y")
    case True
    have "le x z" if "z \<in> set ys" for z
    proof -
      from that Cons.prems have "le y z" and "{x, y, z} \<subseteq> A" by auto
      with True assms(1) show ?thesis by (meson insert_subset transp_onD)
    qed
    with True Cons.prems show ?thesis by simp
  next
    case False
    with Cons.prems assms(2,3) have "le y x"
      by (metis insert_subset list.set(2) reflp_onD totalp_onD)
    with False Cons show ?thesis by auto
  qed
qed

lemma sorted_sort_by:
  assumes "transp_on (set xs) le" and "totalp_on (set xs) le" and "reflp_on (set xs) le"
  shows "sorted_wrt le (sort_by le xs)"
proof -
  have "sorted_wrt le (foldr (insert_by le) ys [])" if "set ys \<subseteq> set xs" for ys
    using that
  proof (induction ys)
    case Nil
    then show ?case by simp
  next
    case (Cons y ys)
    have "set (foldr (insert_by le) ys []) = set ys"
      using set_sort_by [of le ys] by (simp add: sort_by_def)
    with Cons show ?case by (auto intro!: sorted_insert_by [OF assms])
  qed
  then show ?thesis by (simp add: sort_by_def)
qed

end
