(* ===== verification/GoNum.thy ===== *)
theory GoNum
  imports Prelude "HOL-Library.Log_Nat"
begin

section \<open>Go's numbers: \<open>strconv\<close>, \<open>float64\<close> and \<open>math.Round\<close>\<close>

text \<open>
  The part of Go's standard library whose arithmetic the service relies on: decimal
  integers (\<open>strconv.Atoi\<close>, \<open>strconv.Itoa\<close>) with the range check of a 64-bit \<open>int\<close>,
  and IEEE 754 double precision. A finite \<open>float64\<close> is the rational number it denotes;
  every operation rounds the exact result to the nearest double, ties to even
  (\<open>fl64\<close>). Values above the largest double are not modelled: the prices this service
  handles are below \<open>10 ^ 8\<close>.
\<close>

subsection \<open>Decimal integers\<close>

definition is_digit :: "char \<Rightarrow> bool" where
  "is_digit c \<longleftrightarrow> 48 \<le> (of_char c :: nat) \<and> (of_char c :: nat) \<le> 57"

definition digit_val :: "char \<Rightarrow> int" where
  "digit_val c = int (of_char c) - 48"

definition digit_char :: "nat \<Rightarrow> char" where
  "digit_char d = char_of (48 + d)"

definition digits_val :: "string \<Rightarrow> int" where
  "digits_val ds = foldl (\<lambda>n c. 10 * n + digit_val c) 0 ds"

text \<open>\<open>strconv.Atoi\<close>; \<open>None\<close> is a non-nil error (syntax or range).\<close>

definition split_sign :: "string \<Rightarrow> bool \<times> string" where
  "split_sign s = (case s of [] \<Rightarrow> (False, [])
     | c # r \<Rightarrow> if c = CHR ''-'' then (True, r) else if c = CHR ''+'' then (False, r)
                else (False, s))"

definition Atoi :: "string \<Rightarrow> int option" where
  "Atoi s = (case split_sign s of (neg, ds) \<Rightarrow>
     if ds = [] \<or> \<not> list_all is_digit ds then None
     else let n = (if neg then - digits_val ds else digits_val ds)
          in if min_int64 \<le> n \<and> n \<le> max_int64 then Some n else None)"

text \<open>\<open>strconv.Itoa\<close>.\<close>

fun nat_digits :: "nat \<Rightarrow> string" where
  "nat_digits n = (if n < 10 then [digit_char n]
     else nat_digits (n div 10) @ [digit_char (n mod 10)])"

declare nat_digits.simps [simp del]

definition Itoa :: "int \<Rightarrow> string" where
  "Itoa n = (if n < 0 then CHR ''-'' # nat_digits (nat (- n)) else nat_digits (nat n))"

lemma of_char_digit_char: "d < 10 \<Longrightarrow> (of_char (digit_char d) :: nat) = 48 + d"
  by (simp add: digit_char_def)

lemma is_digit_digit_char [simp]: "d < 10 \<Longrightarrow> is_digit (digit_char d)"
  by (simp add: is_digit_def of_char_digit_char)

lemma digit_val_digit_char [simp]: "d < 10 \<Longrightarrow> digit_val (digit_char d) = int d"
  by (simp add: digit_val_def digit_char_def)

lemma nat_digits_digits: "list_all is_digit (nat_digits n)"
proof (induction n rule: nat_digits.induct)
  case (1 n)
  then show ?case by (subst nat_digits.simps) simp
qed

lemma nat_digits_nonempty [simp]: "nat_digits n \<noteq> []"
  by (subst nat_digits.simps) simp

lemma digits_val_snoc: "digits_val (ds @ [c]) = 10 * digits_val ds + digit_val c"
  by (simp add: digits_val_def)

lemma digits_val_nat_digits: "digits_val (nat_digits n) = int n"
proof (induction n rule: nat_digits.induct)
  case (1 n)
  show ?case
  proof (cases "n < 10")
    case True
    then show ?thesis by (subst nat_digits.simps) (simp add: digits_val_def)
  next
    case False
    with 1 have "digits_val (nat_digits (n div 10)) = int (n div 10)" by simp
    with False show ?thesis
      by (subst nat_digits.simps) (simp add: digits_val_snoc zdiv_int zmod_int)
  qed
qed

lemma not_is_digit_sign [simp]: "\<not> is_digit (CHR ''-'')" "\<not> is_digit (CHR ''+'')"
  by (simp_all add: is_digit_def)

lemma split_sign_nat_digits [simp]: "split_sign (nat_digits n) = (False, nat_digits n)"
proof -
  obtain c r where "nat_digits n = c # r" by (cases "nat_digits n") auto
  moreover have "is_digit c" using nat_digits_digits [of n] calculation by simp
  ultimately show ?thesis by (auto simp: split_sign_def)
qed

lemma Atoi_Itoa:
  assumes "is_int64 n"
  shows "Atoi (Itoa n) = Some n"
proof (cases "n < 0")
  case True
  then have "split_sign (Itoa n) = (True, nat_digits (nat (- n)))"
    by (simp add: Itoa_def split_sign_def)
  with True assms show ?thesis
    by (simp add: Atoi_def nat_digits_digits digits_val_nat_digits is_int64_def)
next
  case False
  then have "split_sign (Itoa n) = (False, nat_digits (nat n))" by (simp add: Itoa_def)
  with False assms show ?thesis
    by (simp add: Atoi_def nat_digits_digits digits_val_nat_digits is_int64_def)
qed

lemma Itoa_inject: "is_int64 m \<Longrightarrow> is_int64 n \<Longrightarrow> Itoa m = Itoa n \<longleftrightarrow> m = n"
  by (metis Atoi_Itoa option.inject)

lemma Atoi_range: "Atoi s = Some n \<Longrightarrow> is_int64 n"
  by (auto simp: Atoi_def is_int64_def Let_def split: prod.splits if_splits)

lemma Atoi_Nil [simp]: "Atoi [] = None"
  by (simp add: Atoi_def split_sign_def)

subsection \<open>Double precision\<close>

definition pow2 :: "int \<Rightarrow> rat" where
  "pow2 k = (if 0 \<le> k then 2 ^ nat k else 1 / 2 ^ nat (- k))"

text \<open>The exponent of a non-zero rational: \<open>pow2 (flog2 x) \<le> \<bar>x\<bar> < pow2 (flog2 x + 1)\<close>.\<close>

definition flog2 :: "rat \<Rightarrow> int" where
  "flog2 x = (case quotient_of \<bar>x\<bar> of (n, d) \<Rightarrow>
     let k = bitlen n - bitlen d in if pow2 k \<le> \<bar>x\<bar> then k else k - 1)"

text \<open>To the nearest integer, ties to even.\<close>

definition round_even :: "rat \<Rightarrow> int" where
  "round_even x = (let f = \<lfloor>x\<rfloor>; r = x - of_int f in
     if r < 1 / 2 then f else if 1 / 2 < r then f + 1 else if even f then f else f + 1)"

definition ulp_exp :: "rat \<Rightarrow> int" where
  "ulp_exp x = max (flog2 x - 52) (- 1074)"

text \<open>The double nearest to an exact value: what a \<open>float64\<close> operation returns.\<close>

definition fl64 :: "rat \<Rightarrow> rat" where
  "fl64 x = (if x = 0 then 0
     else let e = ulp_exp x in of_int (round_even (x / pow2 e)) * pow2 e)"

text \<open>\<open>math.Round\<close>: half away from zero.\<close>

definition go_Round :: "rat \<Rightarrow> int" where
  "go_Round x = (if 0 \<le> x then \<lfloor>x + 1 / 2\<rfloor> else - \<lfloor>- x + 1 / 2\<rfloor>)"

lemma pow2_pos [simp]: "0 < pow2 k"
  by (simp add: pow2_def)

lemma pow2_nonzero [simp]: "pow2 k \<noteq> 0"
  using pow2_pos [of k] by linarith

lemma pow2_powi: "pow2 k = 2 powi k"
  by (simp add: pow2_def power_int_def inverse_eq_divide power_divide)

lemma pow2_add: "pow2 (a + b) = pow2 a * pow2 b"
  by (simp add: pow2_powi power_int_add)

lemma pow2_mono: "a \<le> b \<Longrightarrow> pow2 a \<le> pow2 b"
  by (simp add: pow2_powi power_int_increasing)

lemma pow2_nat: "0 \<le> k \<Longrightarrow> pow2 k = of_int (2 ^ nat k)"
  by (simp add: pow2_def)

lemma bitlen_pow2_bounds:
  assumes "0 < n"
  shows "pow2 (bitlen n - 1) \<le> of_int n" and "of_int n < pow2 (bitlen n)"
proof -
  from assms have "1 \<le> bitlen n" by (simp add: bitlen_alt_def)
  then have "pow2 (bitlen n - 1) = of_int (2 ^ nat (bitlen n - 1))"
    and "pow2 (bitlen n) = of_int (2 ^ nat (bitlen n))" by (simp_all add: pow2_nat)
  with bitlen_bounds [OF assms]
  show "pow2 (bitlen n - 1) \<le> of_int n" and "of_int n < pow2 (bitlen n)"
    by (simp_all only: of_int_le_iff of_int_less_iff)
qed

lemma flog2_bounds:
  assumes "x \<noteq> 0"
  shows "pow2 (flog2 x) \<le> \<bar>x\<bar>" and "\<bar>x\<bar> < pow2 (flog2 x + 1)"
proof -
  obtain n d where q: "quotient_of \<bar>x\<bar> = (n, d)" by fastforce
  then have d: "0 < d" and x: "\<bar>x\<bar> = of_int n / of_int d"
    by (auto dest: quotient_of_denom_pos quotient_of_div)
  have n: "0 < n"
  proof -
    have "0 < of_int n / (of_int d :: rat)" using assms x by linarith
    with d show ?thesis by (simp add: zero_less_divide_iff)
  qed
  define k where "k = bitlen n - bitlen d"
  have "pow2 (bitlen n - 1) / pow2 (bitlen d) \<le> \<bar>x\<bar>" unfolding x
    by (intro frac_le) (use bitlen_pow2_bounds [OF n] bitlen_pow2_bounds [OF d] n d in
        \<open>auto intro: less_imp_le\<close>)
  moreover have "\<bar>x\<bar> < pow2 (bitlen n) / pow2 (bitlen d - 1)" unfolding x
    by (intro frac_less) (use bitlen_pow2_bounds [OF n] bitlen_pow2_bounds [OF d] n in
        \<open>auto intro: less_imp_le\<close>)
  moreover have "pow2 (bitlen n - 1) / pow2 (bitlen d) = pow2 (k - 1)"
    and "pow2 (bitlen n) / pow2 (bitlen d - 1) = pow2 (k + 1)"
    by (simp_all add: k_def pow2_powi algebra_simps flip: power_int_diff)
  ultimately have lo: "pow2 (k - 1) \<le> \<bar>x\<bar>" and hi: "\<bar>x\<bar> < pow2 (k + 1)"
    by simp_all
  have "flog2 x = (if pow2 k \<le> \<bar>x\<bar> then k else k - 1)"
    by (simp add: flog2_def q k_def)
  with lo hi show "pow2 (flog2 x) \<le> \<bar>x\<bar>" and "\<bar>x\<bar> < pow2 (flog2 x + 1)"
    by (auto split: if_splits)
qed

lemma round_even_error: "\<bar>of_int (round_even x) - x\<bar> \<le> 1 / 2"
proof -
  have "of_int \<lfloor>x\<rfloor> \<le> x" and "x < of_int \<lfloor>x\<rfloor> + 1" by linarith+
  then show ?thesis by (auto simp: round_even_def Let_def abs_le_iff)
qed

lemma round_even_of_int [simp]: "round_even (of_int k) = k"
  by (simp add: round_even_def)

lemma round_even_ge:
  assumes "of_int k \<le> x"
  shows "k \<le> round_even x"
proof -
  from assms have "k \<le> \<lfloor>x\<rfloor>" by (simp add: le_floor_iff)
  then show ?thesis by (auto simp: round_even_def Let_def)
qed

lemma round_even_le:
  assumes "x \<le> of_int k"
  shows "round_even x \<le> k"
proof (cases "x = of_int k")
  case True
  then show ?thesis by simp
next
  case False
  with assms have "x < of_int k" by simp
  then have "\<lfloor>x\<rfloor> + 1 \<le> k" by linarith
  then show ?thesis by (auto simp: round_even_def Let_def)
qed

text \<open>The rounding error of one operation: at most half a unit in the last place.\<close>

lemma fl64_error:
  assumes "x \<noteq> 0"
  shows "\<bar>fl64 x - x\<bar> \<le> pow2 (ulp_exp x) / 2"
proof -
  define e where "e = ulp_exp x"
  have "fl64 x - x = (of_int (round_even (x / pow2 e)) - x / pow2 e) * pow2 e"
    using assms by (simp add: fl64_def e_def Let_def algebra_simps)
  then have "\<bar>fl64 x - x\<bar> = \<bar>of_int (round_even (x / pow2 e)) - x / pow2 e\<bar> * pow2 e"
    by (simp add: abs_mult abs_of_pos)
  also have "\<dots> \<le> 1 / 2 * pow2 e"
    by (intro mult_right_mono round_even_error) (simp add: less_imp_le)
  finally show ?thesis by (simp add: e_def)
qed

text \<open>In the normal range the error is relative: \<open>2 ^ -53\<close> of the value.\<close>

lemma fl64_rel_error:
  assumes "pow2 (- 1022) \<le> \<bar>x\<bar>"
  shows "\<bar>fl64 x - x\<bar> \<le> \<bar>x\<bar> / 2 ^ 53"
proof -
  have x: "x \<noteq> 0" using assms by (metis abs_zero not_le pow2_pos)
  have "- 1022 \<le> flog2 x"
  proof (rule ccontr)
    assume "\<not> ?thesis"
    then have "pow2 (flog2 x + 1) \<le> pow2 (- 1022)" by (intro pow2_mono) simp
    with assms flog2_bounds(2) [OF x] show False by linarith
  qed
  then have "ulp_exp x = flog2 x + (- 52)" by (simp add: ulp_exp_def)
  then have "pow2 (ulp_exp x) = pow2 (flog2 x) * pow2 (- 52)" by (simp only: pow2_add)
  also have "\<dots> \<le> \<bar>x\<bar> * pow2 (- 52)"
    by (intro mult_right_mono flog2_bounds(1) x) (simp add: less_imp_le)
  finally have "pow2 (ulp_exp x) / 2 \<le> \<bar>x\<bar> * (pow2 (- 52) / 2)" by simp
  moreover have "pow2 (- 52) / 2 = 1 / 2 ^ 53" by (simp add: pow2_def)
  ultimately show ?thesis using fl64_error [OF x] by simp
qed

text \<open>Integers up to \<open>2 ^ 53\<close> are doubles, and rounding never crosses one.\<close>

lemma pow2_split_int:
  assumes "e \<le> 0"
  shows "of_int k / pow2 e = of_int (k * 2 ^ nat (- e))"
  using assms by (simp add: pow2_def)

lemma ulp_exp_pos:
  assumes "0 < ulp_exp x" and "x \<noteq> 0"
  shows "2 ^ 52 * pow2 (ulp_exp x) \<le> \<bar>x\<bar>"
proof -
  have u: "ulp_exp x = flog2 x - 52" using assms(1) by (simp add: ulp_exp_def)
  have "pow2 (52 + ulp_exp x) \<le> \<bar>x\<bar>" using flog2_bounds(1) [OF assms(2)] u by simp
  then show ?thesis by (simp only: pow2_add) (simp add: pow2_def)
qed

lemma fl64_uminus_bound_aux:
  assumes "0 < ulp_exp x" and "0 < x"
  shows "2 ^ 53 \<le> fl64 x"
proof -
  let ?e = "ulp_exp x"
  have "of_int (2 ^ 52) \<le> x / pow2 ?e"
    using ulp_exp_pos [of x] assms by (simp add: le_divide_eq)
  then have "2 ^ 52 \<le> round_even (x / pow2 ?e)" by (intro round_even_ge)
  then have "(of_int (2 ^ 52) :: rat) \<le> of_int (round_even (x / pow2 ?e))"
    by (simp only: of_int_le_iff)
  moreover have "2 \<le> pow2 ?e"
  proof -
    have "pow2 1 \<le> pow2 ?e" using assms(1) by (intro pow2_mono) simp
    then show ?thesis by (simp add: pow2_def)
  qed
  ultimately have "of_int (2 ^ 52) * 2 \<le> of_int (round_even (x / pow2 ?e)) * pow2 ?e"
    by (intro mult_mono) auto
  then show ?thesis using assms(2) by (simp add: fl64_def Let_def)
qed

lemma fl64_ge_int:
  assumes "of_int k \<le> x" and "0 \<le> k" and "k \<le> 2 ^ 53"
  shows "of_int k \<le> fl64 x"
proof (cases "x = 0")
  case True
  with assms show ?thesis by (simp add: fl64_def)
next
  case False
  with assms have pos: "0 < x" by (metis dual_order.trans le_less of_int_0_le_iff)
  let ?e = "ulp_exp x"
  show ?thesis
  proof (cases "0 < ?e")
    case True
    have "(of_int k :: rat) \<le> of_int (2 ^ 53)" using assms(3) by (simp only: of_int_le_iff)
    with fl64_uminus_bound_aux [OF True pos] show ?thesis by simp
  next
    case e: False
    have "of_int k / pow2 ?e \<le> x / pow2 ?e"
      using assms(1) by (intro divide_right_mono) (simp_all add: less_imp_le)
    then have "of_int (k * 2 ^ nat (- ?e)) \<le> x / pow2 ?e"
      using e by (simp only: pow2_split_int not_less)
    then have "k * 2 ^ nat (- ?e) \<le> round_even (x / pow2 ?e)" by (rule round_even_ge)
    then have "of_int k / pow2 ?e \<le> of_int (round_even (x / pow2 ?e))"
      using e by (simp only: pow2_split_int of_int_le_iff not_less)
    then show ?thesis using False by (simp add: fl64_def Let_def divide_le_eq)
  qed
qed

lemma fl64_le_int:
  assumes "x \<le> of_int k" and "0 \<le> x" and "k < 2 ^ 53"
  shows "fl64 x \<le> of_int k"
proof (cases "x = 0")
  case True
  with assms show ?thesis by (simp add: fl64_def)
next
  case False
  with assms have pos: "0 < x" by simp
  let ?e = "ulp_exp x"
  have "(of_int k :: rat) < of_int (2 ^ 53)" using assms(3) by (simp only: of_int_less_iff)
  with assms(1) have "x < 2 ^ 53" by simp
  have e: "?e \<le> 0"
  proof (rule ccontr)
    assume "\<not> ?thesis"
    then have "pow2 1 \<le> pow2 ?e" and e: "0 < ?e" by (auto intro: pow2_mono)
    then have "2 ^ 52 * 2 \<le> 2 ^ 52 * pow2 ?e" by (simp add: pow2_def)
    with ulp_exp_pos [OF e False] pos \<open>x < 2 ^ 53\<close> show False by simp
  qed
  have "x / pow2 ?e \<le> of_int k / pow2 ?e"
    using assms(1) by (intro divide_right_mono) (simp_all add: less_imp_le)
  then have "x / pow2 ?e \<le> of_int (k * 2 ^ nat (- ?e))"
    by (simp only: pow2_split_int [OF e])
  then have "round_even (x / pow2 ?e) \<le> k * 2 ^ nat (- ?e)" by (rule round_even_le)
  then have "of_int (round_even (x / pow2 ?e)) \<le> of_int k / pow2 ?e"
    by (simp only: pow2_split_int [OF e] of_int_le_iff)
  then show ?thesis using False by (simp add: fl64_def Let_def le_divide_eq)
qed

lemma fl64_of_int:
  assumes "0 \<le> k" and "k < 2 ^ 53"
  shows "fl64 (of_int k) = of_int k"
  using fl64_ge_int [of k "of_int k"] fl64_le_int [of "of_int k" k] assms by simp

subsection \<open>Prices: cents through \<open>float64\<close> and back\<close>

text \<open>
  A stored price is a whole number of cents (\<open>DECIMAL(10,2)\<close>). Scanned into a
  \<open>float64\<close> it becomes the nearest double; \<open>math.Round(p * 100)\<close> of that double is the
  number of cents again, for every price the column can hold.
\<close>

definition price_of_cents :: "int \<Rightarrow> rat" where
  "price_of_cents c = fl64 (of_int c / 100)"

definition minor_units :: "rat \<Rightarrow> int" where
  "minor_units p = go_Round (fl64 (p * 100))"

definition max_cents :: int where "max_cents = 9999999999"

lemma go_Round_unique: "0 \<le> x \<Longrightarrow> \<bar>x - of_int c\<bar> < 1 / 2 \<Longrightarrow> go_Round x = c"
  unfolding go_Round_def by (simp add: floor_eq_iff) (simp add: abs_if split: if_splits)

lemma price_of_cents_error:
  assumes "1 \<le> c"
  shows "\<bar>price_of_cents c - of_int c / 100\<bar> \<le> of_int c / 100 / 2 ^ 53"
proof -
  have "pow2 (- 1022) \<le> pow2 (- 7)" by (intro pow2_mono) simp
  also have "pow2 (- 7) \<le> 1 / 100" by (simp add: pow2_def)
  also have "1 / 100 \<le> (of_int c / 100 :: rat)" using assms by simp
  finally have "pow2 (- 1022) \<le> \<bar>of_int c / 100\<bar>" using assms by simp
  from fl64_rel_error [OF this] assms show ?thesis by (simp add: price_of_cents_def)
qed

lemma price_of_cents_0 [simp]: "price_of_cents 0 = 0"
  by (simp add: price_of_cents_def fl64_def)

lemma price_of_cents_pos:
  assumes "1 \<le> c"
  shows "0 < price_of_cents c"
proof -
  have "0 < (of_int c / 100 :: rat)" using assms by simp
  then have "of_int c / 100 / 2 ^ 53 < (of_int c / 100 :: rat)" by simp
  with price_of_cents_error [OF assms] show ?thesis by linarith
qed

lemma minor_units_price_of_cents:
  assumes "0 \<le> c" and "c \<le> max_cents"
  shows "minor_units (price_of_cents c) = c"
proof (cases "c = 0")
  case True
  then show ?thesis by (simp add: minor_units_def go_Round_def fl64_def floor_eq_iff)
next
  case False
  with assms have c: "1 \<le> c" by simp
  let ?p = "price_of_cents c" and ?d = "1 / 2 ^ 53 :: rat"
  have cb: "(of_int c :: rat) \<le> 9999999999" "(1 :: rat) \<le> of_int c"
    using assms c unfolding max_cents_def by linarith+
  have e1: "\<bar>?p * 100 - of_int c\<bar> \<le> of_int c * ?d"
    using price_of_cents_error [OF c] by (simp add: abs_le_iff field_simps)
  have cd: "of_int c * ?d \<le> 9999999999 * ?d" using cb by (intro mult_right_mono) auto
  have "\<bar>?p * 100 - of_int c\<bar> \<le> 1 / 4" by (rule order_trans [OF e1 order_trans [OF cd]]) simp
  then have "?p * 100 \<le> 10000000000" and "1 / 2 \<le> ?p * 100"
    using cb by (auto simp only: abs_le_iff)
  then have big: "\<bar>?p * 100\<bar> \<le> 10000000000" "1 / 2 \<le> \<bar>?p * 100\<bar>" by linarith+
  have "pow2 (- 1022) \<le> pow2 (- 1)" by (intro pow2_mono) simp
  with big have "pow2 (- 1022) \<le> \<bar>?p * 100\<bar>" by (simp add: pow2_def)
  from fl64_rel_error [OF this] big
  have e2: "\<bar>fl64 (?p * 100) - ?p * 100\<bar> \<le> 10000000000 * ?d" by simp
  have "\<bar>fl64 (?p * 100) - ?p * 100\<bar> \<le> 1 / 8" by (rule order_trans [OF e2]) simp
  with \<open>\<bar>?p * 100 - of_int c\<bar> \<le> 1 / 4\<close>
  have "\<bar>fl64 (?p * 100) - of_int c\<bar> < 1 / 2" by linarith
  moreover from this cb have "0 \<le> fl64 (?p * 100)" by linarith
  ultimately show ?thesis unfolding minor_units_def by (rule go_Round_unique [rotated])
qed

end
