(* ===== verification/Domain.thy ===== *)
theory Domain
  imports GoNum
begin

section \<open>The domain: products, errors and the catalog lifecycle\<close>

text \<open>
  \<open>internal/core/domain\<close>: the error vocabulary with its wrap chains, the product types
  that travel between the layers, the lifecycle states and commands, and \<open>NextStatus\<close>,
  the table of legal edges. \<open>lifecycle_edge\<close> states the table as the diagram in the
  source does; \<open>NextStatus_iff_edge\<close> ties the code to it.
\<close>

subsection \<open>Errors\<close>

text \<open>
  The sentinel errors of \<open>domain/errors.go\<close>, \<open>domain/lifecycle.go\<close> and
  \<open>logic/v1/errors.go\<close>, the errors that enter from the database driver, the cache client
  and \<open>context\<close>, and \<open>Wrapf\<close>, an error made by \<open>fmt.Errorf\<close> whose verb \<open>%w\<close> ends the
  format: its text is the message, a colon and the text of the wrapped error.
\<close>

datatype err =
    ErrNotFound | ErrInvalidInput | ErrConflict
  | ErrInvalidTransition | ErrVersionConflict
  | ErrProductNotFound | ErrInsufficientStock | ErrInvalidPrice | ErrUnauthorized
  | ErrNoRows | PgError string | DriverErr | ScanErr
  | CacheErr | JsonErr | CtxErr | RpcErr
  | Wrapf string err

text \<open>\<open>errors.Is\<close>: the two lifecycle errors wrap \<open>ErrConflict\<close>.\<close>

fun errors_Is :: "err \<Rightarrow> err \<Rightarrow> bool" where
  "errors_Is (Wrapf m e) t = (Wrapf m e = t \<or> errors_Is e t)"
| "errors_Is ErrInvalidTransition t = (t = ErrInvalidTransition \<or> t = ErrConflict)"
| "errors_Is ErrVersionConflict t = (t = ErrVersionConflict \<or> t = ErrConflict)"
| "errors_Is e t = (e = t)"

text \<open>\<open>errors.As(err, &pgErr) && pgErr.Code == pgUniqueViolation\<close>.\<close>

definition pgUniqueViolation :: string where "pgUniqueViolation = ''23505''"

fun isUniqueViolation :: "err \<Rightarrow> bool" where
  "isUniqueViolation (PgError code) = (code = pgUniqueViolation)"
| "isUniqueViolation (Wrapf m e) = isUniqueViolation e"
| "isUniqueViolation e = False"

text \<open>\<open>err.Error()\<close> for the errors the service itself makes.\<close>

fun error_text :: "err \<Rightarrow> string" where
  "error_text ErrNotFound = ''resource not found''"
| "error_text ErrInvalidInput = ''invalid input''"
| "error_text ErrConflict = ''resource conflict''"
| "error_text ErrInvalidTransition = ''invalid lifecycle transition: resource conflict''"
| "error_text ErrVersionConflict = ''product changed since it was read: resource conflict''"
| "error_text ErrProductNotFound = ''product not found''"
| "error_text ErrInsufficientStock = ''insufficient stock''"
| "error_text ErrInvalidPrice = ''invalid price''"
| "error_text ErrUnauthorized = ''unauthorized access''"
| "error_text (Wrapf m e) = m @ '': '' @ error_text e"
| "error_text ErrNoRows = ''no rows in result set''"
| "error_text e = []"

lemma errors_Is_refl [simp]: "errors_Is e e"
  by (cases e) auto

lemma errors_Is_Wrapf: "errors_Is e t \<Longrightarrow> errors_Is (Wrapf m e) t"
  by simp

subsection \<open>Product data\<close>

record product =
  p_ID :: string
  p_Name :: string
  p_Price :: rat
  p_Description :: string
  p_Category :: string
  p_Status :: string
  p_Version :: int

text \<open>The zero value \<open>Product{}\<close>.\<close>

definition zero_product :: product where
  "zero_product = \<lparr>p_ID = [], p_Name = [], p_Price = 0, p_Description = [],
     p_Category = [], p_Status = [], p_Version = 0\<rparr>"

record CreateProductRequest =
  req_Name :: string
  req_Price :: rat
  req_Description :: string
  req_Category :: string

record ProductFilters =
  f_Category :: string
  f_Search :: string
  f_SortBy :: string
  f_Order :: string
  f_Page :: int
  f_Limit :: int

record category =
  c_ID :: int
  c_Name :: string
  c_Description :: string
  c_CreatedAt :: int
  c_UpdatedAt :: int

subsection \<open>The lifecycle\<close>

definition StatusDraft :: string where "StatusDraft = ''DRAFT''"
definition StatusActive :: string where "StatusActive = ''ACTIVE''"
definition StatusArchived :: string where "StatusArchived = ''ARCHIVED''"

definition ActionPublish :: string where "ActionPublish = ''PUBLISH''"
definition ActionArchive :: string where "ActionArchive = ''ARCHIVE''"
definition ActionRestore :: string where "ActionRestore = ''RESTORE''"

lemmas status_defs = StatusDraft_def StatusActive_def StatusArchived_def
lemmas action_defs = ActionPublish_def ActionArchive_def ActionRestore_def

definition Valid :: "string \<Rightarrow> bool" where
  "Valid s \<longleftrightarrow> s = StatusDraft \<or> s = StatusActive \<or> s = StatusArchived"

text \<open>\<open>%q\<close>: a quoted string, quotes, backslashes and the usual control characters escaped.\<close>

definition quote_char :: "char \<Rightarrow> string" where
  "quote_char c = (if c = CHR 0x22 then [CHR 0x5C, CHR 0x22]
     else if c = CHR 0x5C then [CHR 0x5C, CHR 0x5C]
     else if c = CHR 0x0A then [CHR 0x5C, CHR ''n'']
     else if c = CHR 0x0D then [CHR 0x5C, CHR ''r'']
     else if c = CHR 0x09 then [CHR 0x5C, CHR ''t''] else [c])"

definition quote :: "string \<Rightarrow> string" where
  "quote s = CHR 0x22 # concat (map quote_char s) @ [CHR 0x22]"

definition illegal_edge :: "string \<Rightarrow> string \<Rightarrow> err" where
  "illegal_edge from action =
     Wrapf (''cannot '' @ action @ '' a '' @ from @ '' product'') ErrInvalidTransition"

definition NextStatus :: "string \<Rightarrow> string \<Rightarrow> err + string" where
  "NextStatus from action =
     (if action = ActionPublish then
        (if from = StatusDraft then Inr StatusActive else Inl (illegal_edge from action))
      else if action = ActionArchive then
        (if from = StatusDraft \<or> from = StatusActive then Inr StatusArchived
         else Inl (illegal_edge from action))
      else if action = ActionRestore then
        (if from = StatusArchived then Inr StatusActive else Inl (illegal_edge from action))
      else Inl (Wrapf (''unknown action '' @ quote action) ErrInvalidInput))"

text \<open>The diagram in \<open>lifecycle.go\<close>, edge by edge.\<close>

inductive lifecycle_edge :: "string \<Rightarrow> string \<Rightarrow> string \<Rightarrow> bool" where
  publish_draft: "lifecycle_edge StatusDraft ActionPublish StatusActive"
| archive_draft: "lifecycle_edge StatusDraft ActionArchive StatusArchived"
| archive_active: "lifecycle_edge StatusActive ActionArchive StatusArchived"
| restore_archived: "lifecycle_edge StatusArchived ActionRestore StatusActive"

inductive_cases edge_from_draft: "lifecycle_edge StatusDraft a t"
inductive_cases edge_to_draft: "lifecycle_edge s a StatusDraft"

inductive_simps lifecycle_edge_iff: "lifecycle_edge s a t"

text \<open>A row's history: the commands that succeeded, one after the other.\<close>

inductive lifecycle_run :: "string \<Rightarrow> string list \<Rightarrow> string \<Rightarrow> bool" where
  run_nil: "lifecycle_run s [] s"
| run_step: "lifecycle_edge s a t \<Longrightarrow> lifecycle_run t as u \<Longrightarrow> lifecycle_run s (a # as) u"

inductive_simps lifecycle_run_Nil [simp]: "lifecycle_run s [] t"
inductive_simps lifecycle_run_Cons [simp]: "lifecycle_run s (a # as) t"

lemma status_distinct [simp]:
  "StatusDraft \<noteq> StatusActive" "StatusActive \<noteq> StatusDraft"
  "StatusDraft \<noteq> StatusArchived" "StatusArchived \<noteq> StatusDraft"
  "StatusActive \<noteq> StatusArchived" "StatusArchived \<noteq> StatusActive"
  by (simp_all add: status_defs)

lemma action_distinct [simp]:
  "ActionPublish \<noteq> ActionArchive" "ActionArchive \<noteq> ActionPublish"
  "ActionPublish \<noteq> ActionRestore" "ActionRestore \<noteq> ActionPublish"
  "ActionArchive \<noteq> ActionRestore" "ActionRestore \<noteq> ActionArchive"
  by (simp_all add: action_defs)

lemma Valid_simps [simp]: "Valid StatusDraft" "Valid StatusActive" "Valid StatusArchived"
  by (simp_all add: Valid_def)

lemma NextStatus_edge: "NextStatus s a = Inr t \<longleftrightarrow> lifecycle_edge s a t"
  by (auto simp: NextStatus_def lifecycle_edge_iff split: if_splits)

lemma edge_Valid: "lifecycle_edge s a t \<Longrightarrow> Valid s \<and> Valid t"
  by (auto simp: lifecycle_edge_iff)

lemma NextStatus_Valid: "NextStatus s a = Inr t \<Longrightarrow> Valid t"
  by (simp add: NextStatus_edge edge_Valid)

lemma edge_not_draft: "lifecycle_edge s a t \<Longrightarrow> t \<noteq> StatusDraft"
  by (auto simp: lifecycle_edge_iff)

lemma run_Valid_not_draft:
  "lifecycle_run s as t \<Longrightarrow> as \<noteq> [] \<Longrightarrow> Valid t \<and> t \<noteq> StatusDraft"
proof (induction rule: lifecycle_run.induct)
  case (run_nil s)
  then show ?case by simp
next
  case (run_step s a t as u)
  then show ?case by (cases as) (auto dest: edge_Valid edge_not_draft)
qed

lemma run_append:
  "lifecycle_run s (as @ bs) u \<longleftrightarrow> (\<exists>t. lifecycle_run s as t \<and> lifecycle_run t bs u)"
  by (induction as arbitrary: s) auto

lemma NextStatus_error:
  "NextStatus s a = Inl e \<Longrightarrow>
     (errors_Is e ErrInvalidTransition \<and> errors_Is e ErrConflict \<and>
        a \<in> {ActionPublish, ActionArchive, ActionRestore}) \<or>
     (errors_Is e ErrInvalidInput \<and> \<not> errors_Is e ErrConflict \<and>
        a \<notin> {ActionPublish, ActionArchive, ActionRestore})"
  by (auto simp: NextStatus_def illegal_edge_def split: if_splits)

subsection \<open>Properties\<close>

text \<open>
  The transition function of the code is exactly the diagram: it returns a target
  state for the four edges of the lifecycle and for no others.
\<close>

theorem NextStatus_iff_edge: "NextStatus s a = Inr t \<longleftrightarrow> lifecycle_edge s a t"
  by (rule NextStatus_edge)

text \<open>
  A refused command says why: for one of the three commands the error is an invalid
  transition that also reads as a conflict (HTTP 409); any other command is invalid input
  and no conflict. There is no third kind of refusal.
\<close>

theorem NextStatus_refusals:
  "case NextStatus s a of
     Inr t \<Rightarrow> Valid s \<and> Valid t
   | Inl e \<Rightarrow> (if a \<in> {ActionPublish, ActionArchive, ActionRestore}
              then errors_Is e ErrInvalidTransition \<and> errors_Is e ErrConflict
              else errors_Is e ErrInvalidInput \<and> \<not> errors_Is e ErrConflict)"
  by (auto simp: NextStatus_edge edge_Valid dest: NextStatus_error split: sum.splits)

text \<open>
  Repeating a command that succeeded is always refused as an invalid transition, so a
  retried request cannot apply its effect twice.
\<close>

theorem NextStatus_retry_refused:
  assumes "NextStatus s a = Inr t"
  shows "\<exists>e. NextStatus t a = Inl e \<and> errors_Is e ErrInvalidTransition"
  using assms by (auto simp: NextStatus_def illegal_edge_def split: if_splits)

theorem NextStatus_retry_refused_witness:
  "NextStatus StatusDraft ActionPublish = Inr StatusActive \<and>
   (\<exists>e. NextStatus StatusActive ActionPublish = Inl e \<and> errors_Is e ErrInvalidTransition)"
proof -
  have h: "NextStatus StatusDraft ActionPublish = Inr StatusActive"
    by (simp add: NextStatus_def)
  from NextStatus_retry_refused [OF h] h show ?thesis by simp
qed

text \<open>
  A product that has left DRAFT never returns to it, whatever sequence of commands is
  applied, and every state on the way is one the schema stores.
\<close>

theorem lifecycle_never_redrafts:
  assumes "lifecycle_run s as t" and "as \<noteq> []"
  shows "Valid t \<and> t \<noteq> StatusDraft"
  using assms by (rule run_Valid_not_draft)

theorem lifecycle_never_redrafts_witness:
  "Valid StatusActive \<and> StatusActive \<noteq> StatusDraft \<and>
   lifecycle_run StatusDraft [ActionPublish, ActionArchive, ActionRestore] StatusActive"
proof -
  have h: "lifecycle_run StatusDraft [ActionPublish, ActionArchive, ActionRestore] StatusActive"
    by (auto intro: lifecycle_edge.intros)
  from lifecycle_never_redrafts [OF h] h show ?thesis by blast
qed

end
