(* ===== verification/Catalog_DB.thy ===== *)
theory Catalog_DB
  imports Domain
begin

section \<open>The catalog database\<close>

text \<open>
  The schema of \<open>db/migrations/sql\<close> after migration 7: the tables \<open>products\<close>,
  \<open>categories\<close> and \<open>admin_action_audit\<close> with their sequences and constraints, the SQL
  statements of the two repositories as functions on it, and the transaction runner.

  What Postgres decides and the service only relies on is a parameter, the record
  \<open>dbenv\<close>: how a text parameter is read as an \<open>integer\<close>, how a \<open>float64\<close> is stored in a
  \<open>DECIMAL(10,2)\<close> column, which integers are accepted as an \<open>int4\<close> argument, \<open>ILIKE\<close>,
  the collation, and the order in which a query without \<open>ORDER BY\<close> delivers its rows.

  The connection may fail at every statement: \<open>faults\<close> lists, for the statements to
  come, whether the statement runs, is lost before it runs, or runs and loses its answer.
\<close>

subsection \<open>JSON values\<close>

datatype json = JNull | JBool bool | JNum rat | JStr string | JArr "json list"
  | JObj "(string \<times> json) list"

subsection \<open>Tables\<close>

record prow =
  pr_id :: int
  pr_name :: string
  pr_description :: "string option"
  pr_price :: int
  pr_category_id :: "int option"
  pr_status :: string
  pr_version :: int
  pr_created_at :: int
  pr_updated_at :: int

record crow =
  cr_id :: int
  cr_name :: string
  cr_description :: "string option"
  cr_created_at :: int
  cr_updated_at :: int

record arow =
  ar_id :: int
  ar_target_type :: string
  ar_target_id :: int
  ar_action :: string
  ar_actor_sub :: string
  ar_reason :: "string option"
  ar_changed_fields :: "json option"
  ar_version_before :: "int option"
  ar_version_after :: "int option"
  ar_request_id :: "string option"
  ar_created_at :: int

datatype fault = Runs | Lost | Answer_lost

record db =
  products :: "prow list"
  categories :: "crow list"
  audits :: "arow list"
  next_pid :: int
  next_cid :: int
  next_aid :: int
  clock :: int
  faults :: "fault list"

record dbenv =
  int4in :: "string \<Rightarrow> int option"
  int4_arg :: "int \<Rightarrow> bool"
  numeric2 :: "rat \<Rightarrow> int option"
  ilike :: "string \<Rightarrow> string \<Rightarrow> bool"
  name_le :: "string \<Rightarrow> string \<Rightarrow> bool"
  scan_order :: "prow list \<Rightarrow> prow list"

subsection \<open>What the service relies on in Postgres\<close>

definition is_int4 :: "int \<Rightarrow> bool" where
  "is_int4 n \<longleftrightarrow> -2147483648 \<le> n \<and> n \<le> 2147483647"

text \<open>The canonical decimal text of an \<open>int4\<close> reads as that \<open>int4\<close>.\<close>

definition int4in_ok :: "dbenv \<Rightarrow> bool" where
  "int4in_ok env \<longleftrightarrow> (\<forall>n. is_int4 n \<longrightarrow> int4in env (Itoa n) = Some n)"

text \<open>Every \<open>int4\<close> is accepted as an \<open>int4\<close> argument.\<close>

definition int4_arg_ok :: "dbenv \<Rightarrow> bool" where
  "int4_arg_ok env \<longleftrightarrow> (\<forall>n. is_int4 n \<longrightarrow> int4_arg env n)"

text \<open>
  A \<open>DECIMAL(10,2)\<close> holds at most \<open>99999999.99\<close>, and the double nearest to a storable
  price is stored as that price.
\<close>

definition numeric2_ok :: "dbenv \<Rightarrow> bool" where
  "numeric2_ok env \<longleftrightarrow>
     (\<forall>p c. numeric2 env p = Some c \<longrightarrow> c \<le> max_cents) \<and>
     (\<forall>c. 0 \<le> c \<longrightarrow> c \<le> max_cents \<longrightarrow> numeric2 env (price_of_cents c) = Some c)"

text \<open>A query delivers every row of the table once, in some order.\<close>

definition scan_ok :: "dbenv \<Rightarrow> bool" where
  "scan_ok env \<longleftrightarrow> (\<forall>rows. mset (scan_order env rows) = mset rows)"

text \<open>A concrete instance, for the witnesses.\<close>

definition infix_of :: "string \<Rightarrow> string \<Rightarrow> bool" where
  "infix_of p s = (\<exists>k \<in> set [0..<Suc (length s)]. take (length p) (drop k s) = p)"

definition std_env :: dbenv where
  "std_env = \<lparr>
     int4in = (\<lambda>s. case Atoi (trim_space s) of None \<Rightarrow> None
                  | Some n \<Rightarrow> if is_int4 n then Some n else None),
     int4_arg = is_int4,
     numeric2 = (\<lambda>p. let c = minor_units p in if c \<le> max_cents then Some c else None),
     ilike = (\<lambda>pat s. infix_of (to_lower (filter (\<lambda>c. c \<noteq> CHR ''%'') pat)) (to_lower s)),
     name_le = (\<lambda>a b. ord.lexordp_eq (\<lambda>x y. (of_char x :: nat) < of_char y) a b),
     scan_order = (\<lambda>rows. rows)\<rparr>"

lemma is_int4_is_int64: "is_int4 n \<Longrightarrow> is_int64 n"
  by (simp add: is_int4_def is_int64_def min_int64_def max_int64_def)

lemma not_space_digit: "is_digit c \<Longrightarrow> \<not> is_space c"
  by (auto simp: is_digit_def is_space_def)

lemma dropWhile_none: "\<forall>c \<in> set s. \<not> P c \<Longrightarrow> dropWhile P s = s"
  by (cases s) auto

lemma Itoa_no_space: "\<forall>c \<in> set (Itoa n). \<not> is_space c"
  using nat_digits_digits
  by (auto simp: Itoa_def list_all_iff is_space_def dest!: bspec dest: not_space_digit
      split: if_splits) (metis is_space_def not_space_digit insert_iff)+

lemma trim_space_Itoa [simp]: "trim_space (Itoa n) = Itoa n"
  by (simp add: trim_space_def dropWhile_none Itoa_no_space)

lemma std_int4in_ok [simp]: "int4in_ok std_env"
  by (simp add: int4in_ok_def std_env_def Atoi_Itoa is_int4_is_int64)

lemma std_int4_arg_ok [simp]: "int4_arg_ok std_env"
  by (simp add: int4_arg_ok_def std_env_def)

lemma std_numeric2_ok [simp]: "numeric2_ok std_env"
  by (auto simp: numeric2_ok_def std_env_def Let_def minor_units_price_of_cents split: if_splits)

lemma std_scan_ok [simp]: "scan_ok std_env"
  by (simp add: scan_ok_def std_env_def)

lemma int4in_Itoa: "int4in_ok env \<Longrightarrow> is_int4 n \<Longrightarrow> int4in env (Itoa n) = Some n"
  by (simp add: int4in_ok_def)

lemma set_scan_order: "scan_ok env \<Longrightarrow> set (scan_order env rows) = set rows"
  by (metis scan_ok_def set_mset_mset)

lemma length_scan_order: "scan_ok env \<Longrightarrow> length (scan_order env rows) = length rows"
  by (metis scan_ok_def size_mset)

subsection \<open>Statements\<close>

text \<open>One round trip to the server, under the fault scripted for it.\<close>

definition stmt :: "(db, err, 'a) action \<Rightarrow> (db, err, 'a) action" where
  "stmt q s = (case faults s of [] \<Rightarrow> q s
     | f # fs \<Rightarrow> let s' = s\<lparr>faults := fs\<rparr> in
         (case f of Runs \<Rightarrow> q s' | Lost \<Rightarrow> (Inl DriverErr, s')
          | Answer_lost \<Rightarrow> (Inl DriverErr, snd (q s'))))"

text \<open>A \<open>SELECT\<close>: it reads the tables and changes none.\<close>

definition query :: "(db \<Rightarrow> err + 'a) \<Rightarrow> (db, err, 'a) action" where
  "query q = stmt (\<lambda>s. (q s, s))"

text \<open>The loop \<open>for rows.Next() { if err := scan(); err != nil { return err }; append }\<close>.\<close>

fun scan_rows :: "('r \<Rightarrow> err + 'a) \<Rightarrow> 'r list \<Rightarrow> err + 'a list" where
  "scan_rows f [] = Inr []"
| "scan_rows f (r # rs) = (case f r of Inl e \<Rightarrow> Inl e | Inr x \<Rightarrow>
     (case scan_rows f rs of Inl e \<Rightarrow> Inl e | Inr xs \<Rightarrow> Inr (x # xs)))"

text \<open>\<open>QueryRow(...).Scan(...)\<close>: the first row, or \<open>pgx.ErrNoRows\<close>.\<close>

definition first_row :: "('r \<Rightarrow> err + 'a) \<Rightarrow> 'r list \<Rightarrow> err + 'a" where
  "first_row f rs = (case rs of [] \<Rightarrow> Inl ErrNoRows | r # _ \<Rightarrow> f r)"

text \<open>A text parameter compared with an \<open>integer\<close> column (SQLSTATE 22P02 or 22003).\<close>

definition with_int4 :: "dbenv \<Rightarrow> string \<Rightarrow> (int \<Rightarrow> err + 'a) \<Rightarrow> err + 'a" where
  "with_int4 env t k = (case int4in env t of None \<Rightarrow> Inl (PgError ''22P02'') | Some n \<Rightarrow> k n)"

definition nullif_empty :: "string \<Rightarrow> string option" where
  "nullif_empty t = (if t = [] then None else Some t)"

definition coalesce :: "string option \<Rightarrow> string \<Rightarrow> string" where
  "coalesce v d = (case v of None \<Rightarrow> d | Some t \<Rightarrow> t)"

text \<open>\<open>LEFT JOIN categories c ON p.category_id = c.id\<close>: the joined name, if any.\<close>

definition category_name :: "db \<Rightarrow> prow \<Rightarrow> string option" where
  "category_name s r = (case pr_category_id r of None \<Rightarrow> None
     | Some cid \<Rightarrow> map_option cr_name (find (\<lambda>c. cr_id c = cid) (categories s)))"

text \<open>\<open>(SELECT id FROM categories WHERE name = $4)\<close>\<close>

definition category_id_of :: "db \<Rightarrow> string \<Rightarrow> int option" where
  "category_id_of s name = map_option cr_id (find (\<lambda>c. cr_name c = name) (categories s))"

text \<open>Conversion of the parameters of an \<open>INSERT\<close> or \<open>UPDATE\<close> of \<open>products\<close>.\<close>

definition convert_params :: "dbenv \<Rightarrow> string \<Rightarrow> rat \<Rightarrow> err + int" where
  "convert_params env name price = (case numeric2 env price of None \<Rightarrow> Inl (PgError ''22003'')
     | Some c \<Rightarrow> if 255 < rune_count name then Inl (PgError ''22001'') else Inr c)"

text \<open>
  \<open>INSERT INTO products ... RETURNING id\<close>: a \<open>SERIAL\<close> stops at the largest \<open>int4\<close>; the
  sequence advances before the \<open>CHECK\<close> and
  the unique index are consulted, and is never rolled back.
\<close>

definition product_row ::
  "int \<Rightarrow> string \<Rightarrow> string \<Rightarrow> int \<Rightarrow> int option \<Rightarrow> string \<Rightarrow> int \<Rightarrow> prow" where
  "product_row pid name desc c cid status tm =
     \<lparr>pr_id = pid, pr_name = name, pr_description = Some desc, pr_price = c,
       pr_category_id = cid, pr_status = status, pr_version = 1, pr_created_at = tm,
       pr_updated_at = tm\<rparr>"

definition insert_product ::
  "dbenv \<Rightarrow> string \<Rightarrow> string \<Rightarrow> rat \<Rightarrow> string \<Rightarrow> string \<Rightarrow> (db, err, int) action" where
  "insert_product env name desc price cat status s = (case convert_params env name price of
     Inl e \<Rightarrow> (Inl e, s)
   | Inr c \<Rightarrow> let pid = next_pid s; s1 = s\<lparr>next_pid := pid + 1\<rparr> in
       if \<not> is_int4 pid then (Inl (PgError ''2200H''), s)
       else if c < 0 then (Inl (PgError ''23514''), s1)
       else if name \<in> set (map pr_name (products s)) then (Inl (PgError pgUniqueViolation), s1)
       else (Inr pid, s1\<lparr>products := products s @
         [product_row pid name desc c (category_id_of s cat) status (clock s)]\<rparr>))"

text \<open>
  \<open>UPDATE products SET ... WHERE P\<close>: the number of rows changed, or the unique index or
  the range of \<open>version\<close> refuses.
\<close>

definition update_products :: "(prow \<Rightarrow> bool) \<Rightarrow> (prow \<Rightarrow> prow) \<Rightarrow> (db, err, nat) action" where
  "update_products P f s =
     (let rows = map (\<lambda>r. if P r then f r else r) (products s) in
      if \<not> list_all (\<lambda>r. 0 \<le> pr_price r) rows then (Inl (PgError ''23514''), s)
      else if \<not> distinct (map pr_name rows) then (Inl (PgError pgUniqueViolation), s)
      else if \<not> list_all (\<lambda>r. pr_version r \<le> max_int64) rows then (Inl (PgError ''22003''), s)
      else (Inr (length (filter P (products s))), s\<lparr>products := rows\<rparr>))"

definition delete_products :: "(prow \<Rightarrow> bool) \<Rightarrow> (db, err, nat) action" where
  "delete_products P s = (Inr (length (filter P (products s))),
     s\<lparr>products := filter (\<lambda>r. \<not> P r) (products s)\<rparr>)"

definition insert_category :: "string \<Rightarrow> string \<Rightarrow> (db, err, crow) action" where
  "insert_category name desc s =
     (if 100 < rune_count name then (Inl (PgError ''22001''), s)
      else let cid = next_cid s; s1 = s\<lparr>next_cid := cid + 1\<rparr>;
             row = \<lparr>cr_id = cid, cr_name = name, cr_description = nullif_empty desc,
                    cr_created_at = clock s, cr_updated_at = clock s\<rparr> in
        if \<not> is_int4 cid then (Inl (PgError ''2200H''), s)
        else if name \<in> set (map cr_name (categories s)) then (Inl (PgError pgUniqueViolation), s1)
        else (Inr row, s1\<lparr>categories := categories s @ [row]\<rparr>))"

definition retitle :: "string \<Rightarrow> string \<Rightarrow> int \<Rightarrow> crow \<Rightarrow> crow" where
  "retitle name desc tm r = r\<lparr>cr_name := name, cr_description := nullif_empty desc,
     cr_updated_at := tm\<rparr>"

definition update_category_row :: "int \<Rightarrow> string \<Rightarrow> string \<Rightarrow> (db, err, crow) action" where
  "update_category_row cid name desc s =
     (if 100 < rune_count name then (Inl (PgError ''22001''), s)
      else let rows = map (\<lambda>r. if cr_id r = cid then retitle name desc (clock s) r else r)
             (categories s) in
        if \<not> distinct (map cr_name rows) then (Inl (PgError pgUniqueViolation), s)
        else (case find (\<lambda>r. cr_id r = cid) rows of None \<Rightarrow> (Inl ErrNoRows, s)
              | Some row \<Rightarrow> (Inr row, s\<lparr>categories := rows\<rparr>)))"

subsection \<open>The audit row\<close>

record AuditEntry =
  TargetType :: string
  TargetID :: int
  Action :: string
  ActorSub :: string
  Reason :: string
  ChangedFields :: "(string \<times> json) list"
  VersionBefore :: "int option"
  VersionAfter :: "int option"
  RequestID :: string

definition audit_row :: "AuditEntry \<Rightarrow> json option \<Rightarrow> int \<Rightarrow> int \<Rightarrow> arow" where
  "audit_row e changed aid tm =
     \<lparr>ar_id = aid, ar_target_type = TargetType e, ar_target_id = TargetID e,
       ar_action = Action e, ar_actor_sub = ActorSub e, ar_reason = nullif_empty (Reason e),
       ar_changed_fields = changed, ar_version_before = VersionBefore e,
       ar_version_after = VersionAfter e, ar_request_id = nullif_empty (RequestID e),
       ar_created_at = tm\<rparr>"

definition insert_audit_row :: "AuditEntry \<Rightarrow> json option \<Rightarrow> (db, err, unit) action" where
  "insert_audit_row e changed s =
     (if \<not> is_int4 (TargetID e) then (Inl (PgError ''22003''), s)
      else if 32 < rune_count (Action e) \<or> 255 < rune_count (ActorSub e) \<or>
              64 < rune_count (Reason e) \<or> 64 < rune_count (RequestID e)
      then (Inl (PgError ''22001''), s)
      else let aid = next_aid s; s1 = s\<lparr>next_aid := aid + 1\<rparr> in
        if TargetType e \<noteq> ''product'' \<and> TargetType e \<noteq> ''category''
        then (Inl (PgError ''23514''), s1)
        else (Inr (), s1\<lparr>audits := audits s @ [audit_row e changed aid (clock s)]\<rparr>))"

text \<open>\<open>insertAudit\<close>: an empty diff is stored as \<open>NULL\<close>.\<close>

definition changed_json :: "AuditEntry \<Rightarrow> json option" where
  "changed_json e = (if ChangedFields e \<noteq> [] then Some (JObj (ChangedFields e)) else None)"

definition insertAudit :: "AuditEntry \<Rightarrow> (db, err, unit) action" where
  "insertAudit e = on_err (Wrapf ''insert audit row'') (stmt (insert_audit_row e (changed_json e)))"

subsection \<open>Transactions\<close>

text \<open>
  \<open>pgx.BeginFunc\<close>, as the comment at the head of \<open>catalog_admin_repository.go\<close> states
  what the writers rely on: it rolls back on any returned error and commits otherwise.
  \<open>BEGIN\<close> and \<open>COMMIT\<close> are statements that can fail; a commit whose answer is lost has
  happened although the caller sees an error. A rollback restores the tables, not the
  sequences.
\<close>

definition rollback :: "db \<Rightarrow> db \<Rightarrow> db" where
  "rollback s0 s1 = s1\<lparr>products := products s0, categories := categories s0,
     audits := audits s0\<rparr>"

definition begin_func :: "(db, err, 'a) action \<Rightarrow> (db, err, 'a) action" where
  "begin_func body s = (case stmt (give ()) s of
     (Inl e, s0) \<Rightarrow> (Inl e, s0)
   | (Inr _, s0) \<Rightarrow> (case body s0 of
       (Inl e, s1) \<Rightarrow> (Inl e, rollback s0 s1)
     | (Inr v, s1) \<Rightarrow> (case faults s1 of [] \<Rightarrow> (Inr v, s1)
         | f # fs \<Rightarrow> let s2 = s1\<lparr>faults := fs\<rparr> in (case f of
             Runs \<Rightarrow> (Inr v, s2) | Lost \<Rightarrow> (Inl DriverErr, rollback s0 s2)
           | Answer_lost \<Rightarrow> (Inl DriverErr, s2)))))"

text \<open>What the tables hold, without sequences, clock and connection.\<close>

record tables =
  t_products :: "prow list"
  t_categories :: "crow list"
  t_audits :: "arow list"

definition tables_of :: "db \<Rightarrow> tables" where
  "tables_of s = \<lparr>t_products = products s, t_categories = categories s, t_audits = audits s\<rparr>"

lemma audit_row_sel [simp]:
  "ar_id (audit_row e ch i tm) = i" "ar_target_type (audit_row e ch i tm) = TargetType e"
  "ar_target_id (audit_row e ch i tm) = TargetID e" "ar_action (audit_row e ch i tm) = Action e"
  "ar_actor_sub (audit_row e ch i tm) = ActorSub e"
  "ar_changed_fields (audit_row e ch i tm) = ch"
  "ar_version_before (audit_row e ch i tm) = VersionBefore e"
  "ar_version_after (audit_row e ch i tm) = VersionAfter e"
  "ar_created_at (audit_row e ch i tm) = tm"
  "ar_reason (audit_row e ch i tm) = nullif_empty (Reason e)"
  "ar_request_id (audit_row e ch i tm) = nullif_empty (RequestID e)"
  by (simp_all add: audit_row_def)

lemma retitle_sel [simp]:
  "cr_id (retitle n d tm r) = cr_id r" "cr_name (retitle n d tm r) = n"
  "cr_description (retitle n d tm r) = nullif_empty d"
  by (simp_all add: retitle_def)

lemma product_row_sel [simp]:
  "pr_id (product_row i n d c k st tm) = i" "pr_name (product_row i n d c k st tm) = n"
  "pr_description (product_row i n d c k st tm) = Some d"
  "pr_price (product_row i n d c k st tm) = c" "pr_category_id (product_row i n d c k st tm) = k"
  "pr_status (product_row i n d c k st tm) = st" "pr_version (product_row i n d c k st tm) = 1"
  by (simp_all add: product_row_def)

lemma tables_of_eq_iff:
  "tables_of s = tables_of t \<longleftrightarrow>
     products s = products t \<and> categories s = categories t \<and> audits s = audits t"
  by (simp add: tables_of_def)

lemma tables_of_rollback [simp]: "tables_of (rollback s0 s1) = tables_of s0"
  by (simp add: tables_of_def rollback_def)

lemma tables_of_faults [simp]: "tables_of (s\<lparr>faults := fs\<rparr>) = tables_of s"
  by (simp add: tables_of_def)

text \<open>
  The schema of a database after the migrations: no products, the four reference
  categories of migration 1, no audit rows.
\<close>

definition reference_category :: "int \<Rightarrow> string \<Rightarrow> string \<Rightarrow> crow" where
  "reference_category i name desc =
     \<lparr>cr_id = i, cr_name = name, cr_description = Some desc, cr_created_at = 0,
       cr_updated_at = 0\<rparr>"

definition migrated_db :: db where
  "migrated_db = \<lparr>products = [], categories =
     [reference_category 1 ''Electronics'' ''Electronic devices and accessories'',
      reference_category 2 ''Computers'' ''Laptops, desktops, and computer peripherals'',
      reference_category 3 ''Accessories'' ''Various accessories and add-ons'',
      reference_category 4 ''Peripherals'' ''Computer peripherals and input devices''],
     audits = [], next_pid = 1, next_cid = 5, next_aid = 1, clock = 0, faults = []\<rparr>"

end
