(* ===== verification/Catalog_Inv.thy ===== *)
theory Catalog_Inv
  imports Catalog_DB
begin

section \<open>The invariant of the catalog database\<close>

text \<open>
  What the schema and the writers keep true of the tables (\<open>db_inv\<close>), the statement-level
  lemmas that show it, and the two lemmas every transactional writer is proved with:
  \<open>begin_func_outcome\<close> (a transaction changes nothing or commits its whole body) and
  \<open>begin_func_inv\<close> (it keeps the invariant when its body does).
\<close>

subsection \<open>Statements and transactions, from outside\<close>

lemma stmt_cases:
  assumes "stmt q s = (r, t)"
  obtains fs where "q (s\<lparr>faults := fs\<rparr>) = (r, t)"
  | fs where "r = Inl DriverErr" "t = s\<lparr>faults := fs\<rparr>"
  | fs where "r = Inl DriverErr" "t = snd (q (s\<lparr>faults := fs\<rparr>))"
proof (cases "faults s")
  case Nil
  then have "s\<lparr>faults := []\<rparr> = s" by (cases s) simp
  moreover from assms Nil have "q s = (r, t)" by (simp add: stmt_def)
  ultimately have "q (s\<lparr>faults := []\<rparr>) = (r, t)" by (simp only:)
  then show ?thesis by (rule that(1))
next
  case (Cons f fs)
  with assms that show ?thesis by (cases f) (auto simp: stmt_def)
qed

lemma stmt_InrD: "stmt q s = (Inr v, t) \<Longrightarrow> \<exists>fs. q (s\<lparr>faults := fs\<rparr>) = (Inr v, t)"
  by (erule stmt_cases) auto

lemma stmt_no_faults [simp]: "faults s = [] \<Longrightarrow> stmt q s = q s"
  by (simp add: stmt_def)

lemma query_no_faults [simp]: "faults s = [] \<Longrightarrow> query q s = (q s, s)"
  by (simp add: query_def)

lemma query_cases:
  assumes "query q s = (r, t)"
  obtains fs where "t = s\<lparr>faults := fs\<rparr>" "r = q t \<or> r = Inl DriverErr"
  using assms unfolding query_def by (elim stmt_cases) auto

lemma query_InrD: "query q s = (Inr v, t) \<Longrightarrow> \<exists>fs. t = s\<lparr>faults := fs\<rparr> \<and> q t = Inr v"
  by (erule query_cases) auto

lemma query_tables [simp]: "tables_of (snd (query q s)) = tables_of s"
  by (metis prod.collapse query_cases tables_of_faults)

lemma begin_func_outcome:
  assumes "begin_func body s = (r, t)"
  obtains e where "tables_of t = tables_of s" "r = Inl e"
  | fs v s1 fs' where "body (s\<lparr>faults := fs\<rparr>) = (Inr v, s1)" "t = s1\<lparr>faults := fs'\<rparr>"
      "r = Inr v \<or> r = Inl DriverErr"
proof -
  obtain r0 s0 where b: "stmt (give ()) s = (r0, s0)" by fastforce
  from b obtain fs where s0: "s0 = s\<lparr>faults := fs\<rparr>"
    by (elim stmt_cases) auto
  show ?thesis
  proof (cases r0)
    case (Inl e)
    with assms b s0 that(1) show ?thesis by (auto simp: begin_func_def)
  next
    case (Inr u)
    obtain r1 s1 where body: "body s0 = (r1, s1)" by fastforce
    show ?thesis
    proof (cases r1)
      case (Inl e)
      with assms b Inr body s0 that(1) show ?thesis by (auto simp: begin_func_def)
    next
      case v: (Inr v)
      show ?thesis
      proof (cases "faults s1")
        case Nil
        with assms b Inr body v s0 that(2) [of fs v s1 "faults s1"] show ?thesis
          by (auto simp: begin_func_def)
      next
        case (Cons f fs')
        with assms b Inr body v s0 that show ?thesis
          by (cases f) (auto simp: begin_func_def)
      qed
    qed
  qed
qed

lemma begin_func_Inr:
  assumes "begin_func body s = (Inr v, t)"
  obtains fs s1 fs' where "body (s\<lparr>faults := fs\<rparr>) = (Inr v, s1)" "t = s1\<lparr>faults := fs'\<rparr>"
  using assms by (elim begin_func_outcome) auto

lemma begin_func_no_faults:
  "faults s = [] \<Longrightarrow> begin_func body s = (case body s of (Inl e, s1) \<Rightarrow> (Inl e, rollback s s1)
     | (Inr v, s1) \<Rightarrow> (case faults s1 of [] \<Rightarrow> (Inr v, s1)
         | f # fs \<Rightarrow> let s2 = s1\<lparr>faults := fs\<rparr> in (case f of
             Runs \<Rightarrow> (Inr v, s2) | Lost \<Rightarrow> (Inl DriverErr, rollback s s2)
           | Answer_lost \<Rightarrow> (Inl DriverErr, s2))))"
  by (simp add: begin_func_def)

subsection \<open>The invariant\<close>

definition row_ok :: "prow \<Rightarrow> bool" where
  "row_ok r \<longleftrightarrow> is_int4 (pr_id r) \<and> 0 < pr_id r \<and> 0 \<le> pr_price r \<and> pr_price r \<le> max_cents \<and>
     Valid (pr_status r) \<and> 1 \<le> pr_version r \<and> pr_version r \<le> max_int64 \<and>
     pr_description r \<noteq> None"

definition products_ok :: "tables \<Rightarrow> bool" where
  "products_ok d \<longleftrightarrow> distinct (map pr_id (t_products d)) \<and>
     distinct (map pr_name (t_products d)) \<and>
     (\<forall>r \<in> set (t_products d). row_ok r) \<and>
     (\<forall>r \<in> set (t_products d). set_option (pr_category_id r) \<subseteq> cr_id ` set (t_categories d))"

definition categories_ok :: "tables \<Rightarrow> bool" where
  "categories_ok d \<longleftrightarrow> distinct (map cr_id (t_categories d)) \<and>
     distinct (map cr_name (t_categories d)) \<and>
     (\<forall>c \<in> set (t_categories d). is_int4 (cr_id c) \<and> 0 < cr_id c)"

definition audits_ok :: "tables \<Rightarrow> bool" where
  "audits_ok d \<longleftrightarrow> distinct (map ar_id (t_audits d)) \<and>
     (\<forall>a \<in> set (t_audits d). ar_target_type a \<in> {''product'', ''category''} \<and>
        is_int4 (ar_target_id a))"

text \<open>Every id in a table was drawn from its sequence.\<close>

definition sequences_ok :: "db \<Rightarrow> bool" where
  "sequences_ok s \<longleftrightarrow> 1 \<le> next_pid s \<and> 1 \<le> next_cid s \<and> 1 \<le> next_aid s \<and>
     (\<forall>r \<in> set (products s). pr_id r < next_pid s) \<and>
     (\<forall>c \<in> set (categories s). cr_id c < next_cid s) \<and>
     (\<forall>a \<in> set (audits s). ar_id a < next_aid s)"

definition db_inv :: "db \<Rightarrow> bool" where
  "db_inv s \<longleftrightarrow> products_ok (tables_of s) \<and> categories_ok (tables_of s) \<and>
     audits_ok (tables_of s) \<and> sequences_ok s"

lemmas db_inv_defs = db_inv_def products_ok_def categories_ok_def audits_ok_def
  sequences_ok_def tables_of_def row_ok_def

text \<open>The invariant over the fields of the database.\<close>

lemma db_inv_iff:
  "db_inv s \<longleftrightarrow>
     (distinct (map pr_id (products s)) \<and> distinct (map pr_name (products s)) \<and>
      (\<forall>r \<in> set (products s). row_ok r \<and> pr_id r < next_pid s \<and>
         set_option (pr_category_id r) \<subseteq> cr_id ` set (categories s))) \<and>
     (distinct (map cr_id (categories s)) \<and> distinct (map cr_name (categories s)) \<and>
      (\<forall>c \<in> set (categories s). is_int4 (cr_id c) \<and> 0 < cr_id c \<and> cr_id c < next_cid s)) \<and>
     (distinct (map ar_id (audits s)) \<and>
      (\<forall>a \<in> set (audits s). ar_target_type a \<in> {''product'', ''category''} \<and>
         is_int4 (ar_target_id a) \<and> ar_id a < next_aid s)) \<and>
     1 \<le> next_pid s \<and> 1 \<le> next_cid s \<and> 1 \<le> next_aid s"
  unfolding db_inv_def products_ok_def categories_ok_def audits_ok_def sequences_ok_def
    tables_of_def by simp blast

lemma migrated_db_inv: "db_inv migrated_db"
  by (simp add: db_inv_defs migrated_db_def reference_category_def is_int4_def)

lemma db_inv_faults [simp]: "db_inv (s\<lparr>faults := fs\<rparr>) = db_inv s"
  by (simp add: db_inv_def sequences_ok_def)

lemma db_inv_clock [simp]: "db_inv (s\<lparr>clock := c\<rparr>) = db_inv s"
  by (simp add: db_inv_def sequences_ok_def tables_of_def)

lemma db_inv_row: "db_inv s \<Longrightarrow> r \<in> set (products s) \<Longrightarrow> row_ok r"
  by (simp add: db_inv_def products_ok_def tables_of_def)

lemma db_inv_distinct_ids: "db_inv s \<Longrightarrow> distinct (map pr_id (products s))"
  by (simp add: db_inv_def products_ok_def tables_of_def)

lemma db_inv_distinct_names: "db_inv s \<Longrightarrow> distinct (map pr_name (products s))"
  by (simp add: db_inv_def products_ok_def tables_of_def)

text \<open>
  The invariant together with lower bounds of the sequences: the form in which it passes
  through a transaction body, whose rollback keeps the sequences.
\<close>

definition db_inv_from :: "db \<Rightarrow> db \<Rightarrow> bool" where
  "db_inv_from s0 s \<longleftrightarrow> db_inv s \<and> next_pid s0 \<le> next_pid s \<and> next_cid s0 \<le> next_cid s \<and>
     next_aid s0 \<le> next_aid s"

definition keeps_inv :: "(db, err, 'a) action \<Rightarrow> bool" where
  "keeps_inv m \<longleftrightarrow> (\<forall>s0. preserves (db_inv_from s0) m)"

lemma db_inv_from_faults [simp]: "db_inv_from s0 (s\<lparr>faults := fs\<rparr>) = db_inv_from s0 s"
  by (simp add: db_inv_from_def)

lemma db_inv_from_faults_left [simp]: "db_inv_from (s0\<lparr>faults := fs\<rparr>) s = db_inv_from s0 s"
  by (simp add: db_inv_from_def)

lemma db_inv_from_refl: "db_inv s \<Longrightarrow> db_inv_from s s"
  by (simp add: db_inv_from_def)

lemma keeps_invD: "keeps_inv m \<Longrightarrow> db_inv s \<Longrightarrow> db_inv (snd (m s))"
  unfolding keeps_inv_def preserves_def by (meson db_inv_from_def db_inv_from_refl)

lemma keeps_invI:
  "(\<And>s r t. db_inv s \<Longrightarrow> m s = (r, t) \<Longrightarrow> db_inv_from s t) \<Longrightarrow> keeps_inv m"
  unfolding keeps_inv_def db_inv_from_def by (intro allI preservesI) (meson order_trans)

lemma keeps_inv_seq [preserve_intros]:
  "keeps_inv m \<Longrightarrow> (\<And>v. keeps_inv (f v)) \<Longrightarrow> keeps_inv (seq m f)"
  by (simp add: keeps_inv_def preserves_seq)

lemma keeps_inv_on_err [preserve_intros]: "keeps_inv m \<Longrightarrow> keeps_inv (on_err g m)"
  by (simp add: keeps_inv_def preserves_on_err)

lemma keeps_inv_give [preserve_intros]: "keeps_inv (give v)"
  by (simp add: keeps_inv_def preserves_give)

lemma keeps_inv_raise [preserve_intros]: "keeps_inv (raise e)"
  by (simp add: keeps_inv_def preserves_raise)

lemma keeps_inv_if [preserve_intros]:
  "(b \<Longrightarrow> keeps_inv m) \<Longrightarrow> (\<not> b \<Longrightarrow> keeps_inv n) \<Longrightarrow> keeps_inv (if b then m else n)"
  by simp

lemma keeps_inv_sum [preserve_intros]:
  "(\<And>x. keeps_inv (f x)) \<Longrightarrow> (\<And>y. keeps_inv (g y)) \<Longrightarrow>
     keeps_inv (case r of Inl x \<Rightarrow> f x | Inr y \<Rightarrow> g y)"
  by (cases r) simp_all

lemma keeps_inv_stmt [preserve_intros]:
  assumes "keeps_inv q"
  shows "keeps_inv (stmt q)"
proof -
  have "db_inv_from s0 t" if I: "db_inv_from s0 s" and st: "stmt q s = (r, t)" for s0 s r t
    using st
  proof (cases rule: stmt_cases)
    case (1 fs)
    with assms I show ?thesis
      unfolding keeps_inv_def by (metis db_inv_from_faults preservesD)
  next
    case (2 fs)
    with I show ?thesis by simp
  next
    case (3 fs)
    with assms I show ?thesis
      unfolding keeps_inv_def by (metis db_inv_from_faults preserves_snd)
  qed
  then show ?thesis unfolding keeps_inv_def by (blast intro: preservesI)
qed

lemma keeps_inv_query [preserve_intros]: "keeps_inv (query q)"
  unfolding query_def by (rule keeps_inv_stmt) (simp add: keeps_inv_def preserves_def)

lemma rollback_inv: "db_inv s0 \<Longrightarrow> db_inv_from s0 s1 \<Longrightarrow> db_inv_from s0 (rollback s0 s1)"
  unfolding db_inv_from_def db_inv_iff rollback_def by simp (meson order_less_le_trans)

lemma db_inv_from_trans: "db_inv_from a s \<Longrightarrow> db_inv_from s t \<Longrightarrow> db_inv_from a t"
  by (simp add: db_inv_from_def)

lemma begin_func_inv [preserve_intros]:
  assumes "keeps_inv body"
  shows "keeps_inv (begin_func body)"
proof -
  have "db_inv_from s t" if I: "db_inv s" and b: "begin_func body s = (r, t)" for s r t
  proof -
    obtain r0 s0 where st: "stmt (give ()) s = (r0, s0)" by fastforce
    then obtain fs where s0: "s0 = s\<lparr>faults := fs\<rparr>" by (elim stmt_cases) auto
    obtain r1 s1 where body: "body s0 = (r1, s1)" by fastforce
    from I s0 have "db_inv_from s0 s0" and I0: "db_inv s0"
      by (auto intro: db_inv_from_refl)
    with assms body have s1: "db_inv_from s0 s1"
      unfolding keeps_inv_def by (blast dest: preservesD)
    then have rb: "db_inv_from s0 (rollback s0 (s1\<lparr>faults := fs'\<rparr>))" for fs'
      by (intro rollback_inv I0) simp
    have rb0: "db_inv_from s0 (rollback s0 s1)" by (intro rollback_inv I0 s1)
    have "db_inv_from s0 t"
      using b st body s1 rb rb0 I0
      by (auto simp: begin_func_def Let_def intro: db_inv_from_refl
          split: sum.splits list.splits fault.splits)
    with s0 show ?thesis by (simp add: db_inv_from_def)
  qed
  then show ?thesis
    unfolding keeps_inv_def
    by (metis db_inv_from_def db_inv_from_trans preservesI)
qed

subsection \<open>Every statement keeps the invariant\<close>

lemma category_id_of_mem: "set_option (category_id_of s n) \<subseteq> cr_id ` set (categories s)"
  by (auto simp: category_id_of_def dest: find_Some_set)

lemma category_id_of_Some: "category_id_of s n = Some i \<Longrightarrow> i \<in> cr_id ` set (categories s)"
  using category_id_of_mem [of s n] by simp

lemma convert_params_range:
  "numeric2_ok env \<Longrightarrow> convert_params env n p = Inr c \<Longrightarrow> c \<le> max_cents"
  by (auto simp: convert_params_def numeric2_ok_def split: option.splits if_splits)

lemma db_inv_insert_product:
  assumes "db_inv s" and "row_ok r" and "pr_id r = next_pid s"
    and "pr_name r \<notin> set (map pr_name (products s))"
    and "pr_category_id r = category_id_of s n"
  shows "db_inv (s\<lparr>next_pid := next_pid s + 1, products := products s @ [r]\<rparr>)"
  using assms category_id_of_mem [of s n] unfolding db_inv_iff
  by (auto intro: less_imp_le)

lemma db_inv_skip_pid: "db_inv s \<Longrightarrow> db_inv (s\<lparr>next_pid := next_pid s + 1\<rparr>)"
  unfolding db_inv_iff by (auto intro: less_imp_le)

lemma insert_product_inv [preserve_intros]:
  assumes "numeric2_ok env" and "Valid st"
  shows "keeps_inv (insert_product env name desc price cat st)"
proof (rule keeps_invI)
  fix s r t
  assume inv: "db_inv s" and ins: "insert_product env name desc price cat st s = (r, t)"
  show "db_inv_from s t"
  proof (cases "convert_params env name price")
    case (Inl e)
    with inv ins show ?thesis by (simp add: insert_product_def db_inv_from_refl)
  next
    case (Inr c)
    define row where "row = product_row (next_pid s) name desc c (category_id_of s cat) st (clock s)"
    have "c \<le> max_cents" using assms Inr by (blast dest: convert_params_range)
    moreover have "1 \<le> next_pid s" using inv by (simp add: db_inv_def sequences_ok_def)
    ultimately have "is_int4 (next_pid s) \<Longrightarrow> 0 \<le> c \<Longrightarrow> row_ok row"
      using assms(2) by (simp add: row_ok_def row_def max_int64_def)
    with ins Inr inv db_inv_skip_pid [OF inv] db_inv_insert_product [OF inv, of row cat]
    show ?thesis
      by (auto simp: insert_product_def db_inv_from_def Let_def row_def split: if_splits)
  qed
qed

text \<open>
  An update of matching rows keeps the invariant when it keeps their ids, keeps each row
  well-formed once the constraints are checked, and points only at existing categories.
\<close>

lemma update_products_inv:
  assumes inv: "db_inv s" and upd: "update_products P f s = (r, t)"
    and id: "\<And>r. pr_id (f r) = pr_id r"
    and ok: "\<And>r. r \<in> set (products s) \<Longrightarrow> P r \<Longrightarrow> 0 \<le> pr_price (f r) \<Longrightarrow>
      pr_version (f r) \<le> max_int64 \<Longrightarrow> row_ok (f r)"
    and cat: "\<And>r. r \<in> set (products s) \<Longrightarrow> P r \<Longrightarrow>
      set_option (pr_category_id (f r)) \<subseteq> cr_id ` set (categories s)"
  shows "db_inv_from s t"
proof -
  define rows where "rows = map (\<lambda>r. if P r then f r else r) (products s)"
  have t: "t = s \<or> (t = s\<lparr>products := rows\<rparr> \<and> distinct (map pr_name rows) \<and>
      (\<forall>r \<in> set rows. 0 \<le> pr_price r \<and> pr_version r \<le> max_int64))"
    using upd by (auto simp: update_products_def Let_def list_all_iff rows_def split: if_splits)
  have "map pr_id rows = map pr_id (products s)" by (simp add: id rows_def)
  then have ids: "distinct (map pr_id rows)" using inv by (simp add: db_inv_iff)
  have rows: "row_ok r' \<and> pr_id r' < next_pid s \<and>
      set_option (pr_category_id r') \<subseteq> cr_id ` set (categories s)"
    if r': "r' \<in> set rows" and c: "0 \<le> pr_price r'" "pr_version r' \<le> max_int64" for r'
  proof -
    from r' obtain r where r: "r \<in> set (products s)" "r' = (if P r then f r else r)"
      by (auto simp: rows_def)
    with inv have "row_ok r \<and> pr_id r < next_pid s \<and>
        set_option (pr_category_id r) \<subseteq> cr_id ` set (categories s)"
      by (simp add: db_inv_iff)
    with r c ok [OF r(1)] cat [OF r(1)] show ?thesis by (simp add: id split: if_splits)
  qed
  from t show ?thesis
  proof
    assume "t = s"
    with inv show ?thesis by (simp add: db_inv_from_refl)
  next
    assume "t = s\<lparr>products := rows\<rparr> \<and> distinct (map pr_name rows) \<and>
      (\<forall>r \<in> set rows. 0 \<le> pr_price r \<and> pr_version r \<le> max_int64)"
    with rows ids inv show ?thesis unfolding db_inv_from_def db_inv_iff by simp
  qed
qed

lemma delete_products_inv [preserve_intros]: "keeps_inv (delete_products P)"
  by (rule keeps_invI)
    (auto simp: delete_products_def db_inv_from_def db_inv_iff distinct_map_filter)

lemma insert_category_inv [preserve_intros]: "keeps_inv (insert_category name desc)"
proof (rule keeps_invI)
  fix s r t
  assume inv: "db_inv s" and ins: "insert_category name desc s = (r, t)"
  define row where "row = \<lparr>cr_id = next_cid s, cr_name = name,
    cr_description = nullif_empty desc, cr_created_at = clock s, cr_updated_at = clock s\<rparr>"
  have row: "cr_id row = next_cid s" "cr_name row = name" by (simp_all add: row_def)
  have "t = s \<or> t = s\<lparr>next_cid := next_cid s + 1\<rparr> \<or>
      (t = s\<lparr>next_cid := next_cid s + 1, categories := categories s @ [row]\<rparr> \<and>
       name \<notin> set (map cr_name (categories s)) \<and> is_int4 (next_cid s))"
    using ins by (auto simp: insert_category_def Let_def row_def split: if_splits)
  with inv show "db_inv_from s t"
    unfolding db_inv_from_def db_inv_iff by (auto simp: row intro: less_imp_le) fastforce+
qed

lemma update_category_row_inv [preserve_intros]: "keeps_inv (update_category_row cid name desc)"
proof (rule keeps_invI)
  fix s r t
  assume inv: "db_inv s" and upd: "update_category_row cid name desc s = (r, t)"
  define rows where "rows = map (\<lambda>r. if cr_id r = cid
    then retitle name desc (clock s) r else r) (categories s)"
  have t: "t = s \<or> (t = s\<lparr>categories := rows\<rparr> \<and> distinct (map cr_name rows))"
    using upd by (auto simp: update_category_row_def Let_def rows_def split: if_splits option.splits)
  have ids: "map cr_id rows = map cr_id (categories s)" by (simp add: rows_def)
  then have set_ids: "cr_id ` set rows = cr_id ` set (categories s)" by (metis set_map)
  then have bounds: "is_int4 (cr_id c) \<and> 0 < cr_id c \<and> cr_id c < next_cid s"
    if "c \<in> set rows" for c
    using inv that unfolding db_inv_iff by (metis (no_types, lifting) image_iff)
  from t show "db_inv_from s t"
  proof
    assume "t = s"
    with inv show ?thesis by (simp add: db_inv_from_refl)
  next
    assume "t = s\<lparr>categories := rows\<rparr> \<and> distinct (map cr_name rows)"
    with inv ids set_ids bounds show ?thesis unfolding db_inv_from_def db_inv_iff by simp
  qed
qed

lemma insert_audit_row_inv [preserve_intros]: "keeps_inv (insert_audit_row e ch)"
proof (rule keeps_invI)
  fix s r t
  assume inv: "db_inv s" and ins: "insert_audit_row e ch s = (r, t)"
  let ?a = "audit_row e ch (next_aid s) (clock s)"
  consider "t = s" | "t = s\<lparr>next_aid := next_aid s + 1\<rparr>"
    | "t = s\<lparr>next_aid := next_aid s + 1, audits := audits s @ [?a]\<rparr>"
      "TargetType e \<in> {''product'', ''category''}" "is_int4 (TargetID e)"
    using ins unfolding insert_audit_row_def Let_def by (simp split: if_splits)
  then show "db_inv_from s t"
  proof cases
    case 1
    with inv show ?thesis by (simp add: db_inv_from_refl)
  next
    case 2
    with inv show ?thesis unfolding db_inv_from_def db_inv_iff by (auto intro: less_imp_le)
  next
    case 3
    with inv show ?thesis
      unfolding db_inv_from_def db_inv_iff by (simp add: less_imp_le) fastforce
  qed
qed

lemma insertAudit_inv [preserve_intros]: "keeps_inv (insertAudit e)"
  unfolding insertAudit_def by (intro preserve_intros)

subsection \<open>A catalog for the witnesses\<close>

text \<open>
  Two ACTIVE products and a draft in one category, an archived product without a category,
  an operator's audit row, and a healthy connection.
\<close>

definition sample_row :: "int \<Rightarrow> string \<Rightarrow> int \<Rightarrow> int option \<Rightarrow> string \<Rightarrow> int \<Rightarrow> prow" where
  "sample_row i name cents cat status v =
     \<lparr>pr_id = i, pr_name = name, pr_description = Some ''text'', pr_price = cents,
       pr_category_id = cat, pr_status = status, pr_version = v, pr_created_at = i,
       pr_updated_at = i\<rparr>"

definition sample_db :: db where
  "sample_db = migrated_db\<lparr>products :=
     [sample_row 1 ''Mouse'' 1999 (Some 1) StatusActive 2,
      sample_row 2 ''Keyboard'' 4950 (Some 1) StatusActive 1,
      sample_row 3 ''Cable'' 500 (Some 1) StatusDraft 1,
      sample_row 4 ''Phone'' 0 None StatusArchived 3], next_pid := 5, clock := 9\<rparr>"

lemma sample_row_sel [simp]:
  "pr_id (sample_row i n c k st v) = i" "pr_name (sample_row i n c k st v) = n"
  "pr_description (sample_row i n c k st v) = Some ''text''"
  "pr_price (sample_row i n c k st v) = c" "pr_category_id (sample_row i n c k st v) = k"
  "pr_status (sample_row i n c k st v) = st" "pr_version (sample_row i n c k st v) = v"
  "pr_created_at (sample_row i n c k st v) = i" "pr_updated_at (sample_row i n c k st v) = i"
  by (simp_all add: sample_row_def)

lemma sample_db_sel [simp]:
  "products sample_db =
     [sample_row 1 ''Mouse'' 1999 (Some 1) StatusActive 2,
      sample_row 2 ''Keyboard'' 4950 (Some 1) StatusActive 1,
      sample_row 3 ''Cable'' 500 (Some 1) StatusDraft 1,
      sample_row 4 ''Phone'' 0 None StatusArchived 3]"
  "categories sample_db = categories migrated_db" "audits sample_db = []"
  "next_pid sample_db = 5" "next_cid sample_db = 5" "next_aid sample_db = 1"
  "clock sample_db = 9" "faults sample_db = []"
  by (simp_all add: sample_db_def migrated_db_def)

lemma sample_db_inv: "db_inv sample_db"
  unfolding db_inv_iff
  by (simp add: row_ok_def is_int4_def max_cents_def max_int64_def)
     (simp add: migrated_db_def reference_category_def)

lemma std_int4in [simp]:
  "int4in std_env ''1'' = Some 1" "int4in std_env ''2'' = Some 2" "int4in std_env ''3'' = Some 3" "int4in std_env ''4'' = Some 4"
  "int4in std_env ''5'' = Some 5" "int4in std_env ''9'' = Some 9" "int4in std_env ''x'' = None"
  by code_simp+

end
