(* ===== verification/Product_Repo.thy ===== *)
theory Product_Repo
  imports Catalog_Inv
begin

section \<open>The public product repository\<close>

text \<open>
  \<open>internal/core/repository/postgres_product_repository.go\<close>: the reads the public catalog
  and the price authority are served from, and the repository's three writers. Every
  definition builds its query as the source does, clause by clause; a query runs under
  the fault scripted for it and fails on a \<open>NULL\<close> it cannot scan.
\<close>

subsection \<open>Rows as products\<close>

text \<open>\<open>p.id, p.name, p.description, p.price, COALESCE(c.name, 'Uncategorized')\<close>\<close>

definition scan_product :: "db \<Rightarrow> prow \<Rightarrow> err + product" where
  "scan_product s r = (case pr_description r of None \<Rightarrow> Inl ScanErr
     | Some d \<Rightarrow> Inr (zero_product\<lparr>p_ID := Itoa (pr_id r), p_Name := pr_name r,
         p_Description := d, p_Price := price_of_cents (pr_price r),
         p_Category := coalesce (category_name s r) ''Uncategorized''\<rparr>))"

text \<open>\<open>p2.id, p2.name, p2.price\<close>\<close>

definition scan_related :: "prow \<Rightarrow> err + product" where
  "scan_related r = Inr (zero_product\<lparr>p_ID := Itoa (pr_id r), p_Name := pr_name r,
     p_Price := price_of_cents (pr_price r)\<rparr>)"

subsection \<open>Reads\<close>

definition FindByID :: "dbenv \<Rightarrow> string \<Rightarrow> (db, err, product) action" where
  "FindByID env ident = on_err (\<lambda>e. if errors_Is e ErrNoRows then ErrNotFound else e)
     (query (\<lambda>s. with_int4 env ident (\<lambda>n.
        first_row (scan_product s)
          (filter (\<lambda>r. pr_id r = n \<and> pr_status r = StatusActive)
            (scan_order env (products s))))))"

definition FindByIDs :: "dbenv \<Rightarrow> string list \<Rightarrow> (db, err, product list) action" where
  "FindByIDs env ids =
     (let intIDs = List.map_filter Atoi ids in
      if intIDs = [] then give []
      else query (\<lambda>s. if \<not> list_all (int4_arg env) intIDs then Inl (PgError ''22003'')
        else scan_rows (scan_product s)
          (filter (\<lambda>r. pr_id r \<in> set intIDs) (scan_order env (products s)))))"

text \<open>The \<open>WHERE\<close> clause \<open>FindAll\<close> and \<open>Count\<close> both build.\<close>

definition matches :: "dbenv \<Rightarrow> ProductFilters \<Rightarrow> db \<Rightarrow> prow \<Rightarrow> bool" where
  "matches env f s r \<longleftrightarrow> pr_status r = StatusActive \<and>
     (f_Category f \<noteq> [] \<longrightarrow> category_name s r = Some (f_Category f)) \<and>
     (f_Search f \<noteq> [] \<longrightarrow> ilike env (''%'' @ f_Search f @ ''%'') (pr_name r))"

datatype sort_column = By_id | By_name | By_price | By_created_at

definition sort_column_of :: "string \<Rightarrow> sort_column" where
  "sort_column_of sortBy =
     (if sortBy = ''id'' then By_id else if sortBy = ''name'' then By_name
      else if sortBy = ''price'' then By_price else By_created_at)"

definition ascending :: "string \<Rightarrow> bool" where
  "ascending order \<longleftrightarrow> to_upper (trim_space order) = ''ASC''"

fun column_le :: "dbenv \<Rightarrow> sort_column \<Rightarrow> prow \<Rightarrow> prow \<Rightarrow> bool" where
  "column_le env By_id a b = (pr_id a \<le> pr_id b)"
| "column_le env By_name a b = name_le env (pr_name a) (pr_name b)"
| "column_le env By_price a b = (pr_price a \<le> pr_price b)"
| "column_le env By_created_at a b = (pr_created_at a \<le> pr_created_at b)"

definition row_le :: "dbenv \<Rightarrow> ProductFilters \<Rightarrow> prow \<Rightarrow> prow \<Rightarrow> bool" where
  "row_le env f a b = (let col = sort_column_of (f_SortBy f) in
     if ascending (f_Order f) then column_le env col a b else column_le env col b a)"

definition page_limit :: "ProductFilters \<Rightarrow> int" where
  "page_limit f = (if f_Limit f = 0 then 20 else f_Limit f)"

definition page_offset :: "ProductFilters \<Rightarrow> int" where
  "page_offset f = (let offset = wrap64 (wrap64 (f_Page f - 1) * page_limit f) in
     if offset < 0 then 0 else offset)"

text \<open>The rows that match, in the order asked for, before \<open>LIMIT\<close> and \<open>OFFSET\<close>.\<close>

definition matching_rows :: "dbenv \<Rightarrow> ProductFilters \<Rightarrow> db \<Rightarrow> prow list" where
  "matching_rows env f s =
     sort_by (row_le env f) (filter (matches env f s) (scan_order env (products s)))"

text \<open>\<open>LIMIT l OFFSET k\<close>; Postgres refuses a negative limit.\<close>

definition limit_offset :: "int \<Rightarrow> int \<Rightarrow> ('a list \<Rightarrow> err + 'b) \<Rightarrow> 'a list \<Rightarrow> err + 'b" where
  "limit_offset l k scan rows = (if l < 0 then Inl (PgError ''2201W'')
     else if k < 0 then Inl (PgError ''2201X'') else scan (page_of (nat l) (nat k) rows))"

definition FindAll :: "dbenv \<Rightarrow> ProductFilters \<Rightarrow> (db, err, product list) action" where
  "FindAll env f = query (\<lambda>s.
     limit_offset (page_limit f) (page_offset f) (scan_rows (scan_product s))
       (matching_rows env f s))"

definition Count :: "dbenv \<Rightarrow> ProductFilters \<Rightarrow> (db, err, int) action" where
  "Count env f = query (\<lambda>s. Inr (int (length (filter (matches env f s) (products s)))))"

text \<open>The self join of \<open>FindRelatedProducts\<close>: \<open>NULL\<close> categories never join.\<close>

definition related_to :: "db \<Rightarrow> int \<Rightarrow> prow \<Rightarrow> bool" where
  "related_to s n r2 \<longleftrightarrow>
     (\<exists>r1 \<in> set (products s). pr_id r1 = n \<and> pr_category_id r1 \<noteq> None \<and>
        pr_category_id r1 = pr_category_id r2) \<and>
     pr_id r2 \<noteq> n \<and> pr_status r2 = StatusActive"

definition FindRelatedProducts ::
  "dbenv \<Rightarrow> string \<Rightarrow> int \<Rightarrow> (db, err, product list) action" where
  "FindRelatedProducts env productID limit = query (\<lambda>s. with_int4 env productID (\<lambda>n.
     limit_offset limit 0 (scan_rows scan_related)
       (filter (related_to s n) (scan_order env (products s)))))"

subsection \<open>Writes\<close>

text \<open>\<open>Create\<close> returns the id it stores into \<open>product.ID\<close>; the row is ACTIVE by default.\<close>

definition Create :: "dbenv \<Rightarrow> product \<Rightarrow> (db, err, string) action" where
  "Create env p = seq (stmt (insert_product env (p_Name p) (p_Description p) (p_Price p)
       (p_Category p) StatusActive)) (\<lambda>n. give (Itoa n))"

definition Update :: "dbenv \<Rightarrow> product \<Rightarrow> (db, err, unit) action" where
  "Update env p = seq (stmt (\<lambda>s. case convert_params env (p_Name p) (p_Price p) of
       Inl e \<Rightarrow> (Inl e, s)
     | Inr c \<Rightarrow> (case int4in env (p_ID p) of None \<Rightarrow> (Inl (PgError ''22P02''), s)
       | Some n \<Rightarrow> update_products (\<lambda>r. pr_id r = n)
           (\<lambda>r. r\<lparr>pr_name := p_Name p, pr_description := Some (p_Description p),
              pr_price := c, pr_category_id := category_id_of s (p_Category p)\<rparr>) s)))
     (\<lambda>affected. if affected = 0 then raise ErrNotFound else give ())"

definition Delete :: "dbenv \<Rightarrow> string \<Rightarrow> (db, err, unit) action" where
  "Delete env ident = seq (stmt (\<lambda>s. case int4in env ident of None \<Rightarrow> (Inl (PgError ''22P02''), s)
       | Some n \<Rightarrow> delete_products (\<lambda>r. pr_id r = n) s))
     (\<lambda>affected. if affected = 0 then raise ErrNotFound else give ())"

subsection \<open>Scanning under the invariant\<close>

text \<open>What a stored row looks like from outside.\<close>

definition public_product :: "db \<Rightarrow> prow \<Rightarrow> product" where
  "public_product s r = zero_product\<lparr>p_ID := Itoa (pr_id r), p_Name := pr_name r,
     p_Description := coalesce (pr_description r) [], p_Price := price_of_cents (pr_price r),
     p_Category := coalesce (category_name s r) ''Uncategorized''\<rparr>"

lemma scan_product_ok: "row_ok r \<Longrightarrow> scan_product s r = Inr (public_product s r)"
  by (auto simp: row_ok_def scan_product_def public_product_def coalesce_def)

lemma scan_rows_Inr: "(\<And>r. r \<in> set rs \<Longrightarrow> f r = Inr (g r)) \<Longrightarrow> scan_rows f rs = Inr (map g rs)"
  by (induction rs) auto

lemma scan_rows_products:
  assumes "db_inv s" and "set rs \<subseteq> set (products s)"
  shows "scan_rows (scan_product s) rs = Inr (map (public_product s) rs)"
  using assms by (intro scan_rows_Inr scan_product_ok) (auto dest: db_inv_row)

lemma p_ID_public [simp]: "p_ID (public_product s r) = Itoa (pr_id r)"
  and p_Name_public [simp]: "p_Name (public_product s r) = pr_name r"
  and p_Price_public [simp]: "p_Price (public_product s r) = price_of_cents (pr_price r)"
  by (simp_all add: public_product_def)

lemma category_name_cong:
  "categories s = categories t \<Longrightarrow> category_name s = category_name t"
  by (simp add: category_name_def fun_eq_iff split: option.split)

lemma public_product_cong:
  "categories s = categories t \<Longrightarrow> public_product s = public_product t"
  by (simp add: public_product_def fun_eq_iff category_name_cong [of s t])

lemma matches_cong:
  "categories s = categories t \<Longrightarrow> matches env f s = matches env f t"
  by (simp add: matches_def fun_eq_iff category_name_cong [of s t])

lemma public_product_faults [simp]: "public_product (s\<lparr>faults := fs\<rparr>) = public_product s"
  by (rule public_product_cong) simp

lemma matches_faults [simp]: "matches env f (s\<lparr>faults := fs\<rparr>) = matches env f s"
  by (rule matches_cong) simp

lemma id_inj:
  assumes "db_inv s" and "r \<in> set (products s)" and "r' \<in> set (products s)"
    and "pr_id r = pr_id r'"
  shows "r = r'"
  using assms by (meson db_inv_distinct_ids distinct_map inj_onD)

lemma filter_id:
  assumes inv: "db_inv s" and scan: "scan_ok env" and r: "r \<in> set (products s)" and P: "P r"
  shows "filter (\<lambda>x. pr_id x = pr_id r \<and> P x) (scan_order env (products s)) = [r]"
proof -
  let ?xs = "scan_order env (products s)"
  have "mset ?xs = mset (products s)" using scan by (simp add: scan_ok_def)
  then have d: "distinct (map pr_id ?xs)"
    using db_inv_distinct_ids [OF inv] by (metis mset_eq_imp_distinct_iff mset_map)
  have rx: "r \<in> set ?xs" using r by (simp add: set_scan_order [OF scan])
  have "filter (\<lambda>x. pr_id x = pr_id r \<and> P x) xs = [r]"
    if "distinct (map pr_id xs)" "r \<in> set xs" for xs
    using that P
  proof (induction xs)
    case Nil
    then show ?case by simp
  next
    case (Cons x xs)
    show ?case
    proof (cases "x = r")
      case True
      with Cons.prems have "filter (\<lambda>x. pr_id x = pr_id r \<and> P x) xs = []"
        by (auto simp: filter_empty_conv image_iff)
      with True Cons.prems show ?thesis by simp
    next
      case False
      with Cons show ?thesis by (auto simp: image_iff)
    qed
  qed
  from this [OF d rx] show ?thesis .
qed

lemma filter_no_id:
  "scan_ok env \<Longrightarrow> (\<And>r. r \<in> set (products s) \<Longrightarrow> \<not> P r) \<Longrightarrow>
     filter P (scan_order env (products s)) = []"
  by (simp add: filter_empty_conv set_scan_order)

lemma first_row_found:
  assumes "db_inv s" and "scan_ok env" and "r \<in> set (products s)" and "P r"
  shows "first_row (scan_product s)
     (filter (\<lambda>x. pr_id x = pr_id r \<and> P x) (scan_order env (products s))) =
     Inr (public_product s r)"
  using filter_id [where P = P, OF assms] db_inv_row [OF assms(1,3)]
  by (simp add: first_row_def scan_product_ok)

lemma FindByID_query:
  assumes "db_inv s" and "scan_ok env"
  shows "with_int4 env ident (\<lambda>n. first_row (scan_product s)
      (filter (\<lambda>r. pr_id r = n \<and> pr_status r = StatusActive) (scan_order env (products s)))) =
    (case int4in env ident of None \<Rightarrow> Inl (PgError ''22P02'') | Some n \<Rightarrow>
       (case find (\<lambda>r. pr_id r = n \<and> pr_status r = StatusActive) (products s) of
          None \<Rightarrow> Inl ErrNoRows | Some r \<Rightarrow> Inr (public_product s r)))"
proof (cases "int4in env ident")
  case None
  then show ?thesis by (simp add: with_int4_def)
next
  case (Some n)
  let ?P = "\<lambda>r. pr_id r = n \<and> pr_status r = StatusActive"
  show ?thesis
  proof (cases "find ?P (products s)")
    case None
    then have "filter ?P (scan_order env (products s)) = []"
      by (intro filter_no_id assms) (auto simp: find_None_iff)
    with Some None show ?thesis by (simp add: with_int4_def first_row_def)
  next
    case r: (Some r)
    then have "r \<in> set (products s)" "pr_id r = n" "pr_status r = StatusActive"
      by (auto dest: find_Some_set)
    with first_row_found [OF assms, of r "\<lambda>x. pr_status x = StatusActive"] Some r
    show ?thesis by (simp add: with_int4_def)
  qed
qed

lemma page_of_subset: "set (page_of l k rows) \<subseteq> set rows"
  by (rule set_page_of)

lemma set_matching_rows:
  "scan_ok env \<Longrightarrow> set (matching_rows env f s) = {r \<in> set (products s). matches env f s r}"
  by (auto simp: matching_rows_def set_scan_order)

lemma length_matching_rows:
  assumes "scan_ok env"
  shows "length (matching_rows env f s) = length (filter (matches env f s) (products s))"
proof -
  have "mset (filter (matches env f s) (scan_order env (products s))) =
      mset (filter (matches env f s) (products s))"
    using assms by (simp add: scan_ok_def)
  then show ?thesis by (metis length_sort_by matching_rows_def size_mset)
qed

lemma scan_page:
  assumes "db_inv s" and "scan_ok env"
  shows "scan_rows (scan_product s) (page_of l k (matching_rows env f s)) =
    Inr (page_of l k (map (public_product s) (matching_rows env f s)))"
proof -
  have "set (page_of l k (matching_rows env f s)) \<subseteq> set (products s)"
    using set_page_of set_matching_rows [OF assms(2)] by fastforce
  from scan_rows_products [OF assms(1) this] show ?thesis by (simp add: page_of_map)
qed

lemma FindAll_run:
  assumes "db_inv s" and "scan_ok env" and "faults s = []"
  shows "FindAll env f s = (if page_limit f < 0 then Inl (PgError ''2201W'')
     else Inr (page_of (nat (page_limit f)) (nat (page_offset f))
       (map (public_product s) (matching_rows env f s))), s)"
  using assms
  by (simp add: FindAll_def limit_offset_def scan_page page_offset_def Let_def)

lemma Count_run:
  "faults s = [] \<Longrightarrow>
     Count env f s = (Inr (int (length (filter (matches env f s) (products s)))), s)"
  by (simp add: Count_def)

text \<open>The comparison behind \<open>ORDER BY\<close> is a total preorder for every column but \<open>name\<close>.\<close>

lemma sorted_matching_rows:
  assumes "sort_column_of (f_SortBy f) \<noteq> By_name"
  shows "sorted_wrt (row_le env f) (matching_rows env f s)"
  unfolding matching_rows_def
proof (rule sorted_sort_by)
  let ?A = "set (filter (matches env f s) (scan_order env (products s)))"
  show "transp_on ?A (row_le env f)" "totalp_on ?A (row_le env f)" "reflp_on ?A (row_le env f)"
    using assms
    by (cases "sort_column_of (f_SortBy f)";
        auto simp: row_le_def Let_def intro!: transp_onI totalp_onI reflp_onI)+
qed

subsection \<open>Invariant preservation\<close>

lemma repo_reads_inv [preserve_intros]:
  "keeps_inv (FindByID env ident)" "keeps_inv (FindByIDs env ids)" "keeps_inv (FindAll env f)"
  "keeps_inv (Count env f)" "keeps_inv (FindRelatedProducts env ident l)"
  unfolding FindByID_def FindByIDs_def FindAll_def Count_def FindRelatedProducts_def Let_def
  by (intro preserve_intros)+

lemma Create_inv [preserve_intros]: "numeric2_ok env \<Longrightarrow> keeps_inv (Create env p)"
  unfolding Create_def by (intro preserve_intros) simp_all

lemma edit_row_ok:
  assumes "row_ok r" and "0 \<le> c" and "c \<le> max_cents" and "pr_version r \<le> max_int64"
  shows "row_ok (r\<lparr>pr_name := n, pr_description := Some d, pr_price := c,
           pr_category_id := k\<rparr>)"
  using assms by (simp add: row_ok_def)

lemma Update_inv [preserve_intros]:
  assumes "numeric2_ok env"
  shows "keeps_inv (Update env p)"
  unfolding Update_def
proof (intro preserve_intros keeps_invI)
  fix s r t
  assume inv: "db_inv s"
    and u: "(case convert_params env (p_Name p) (p_Price p) of Inl e \<Rightarrow> (Inl e, s)
      | Inr c \<Rightarrow> (case int4in env (p_ID p) of None \<Rightarrow> (Inl (PgError ''22P02''), s)
        | Some n \<Rightarrow> update_products (\<lambda>r. pr_id r = n)
           (\<lambda>r. r\<lparr>pr_name := p_Name p, pr_description := Some (p_Description p),
              pr_price := c, pr_category_id := category_id_of s (p_Category p)\<rparr>) s)) = (r, t)"
  show "db_inv_from s t"
  proof (cases "convert_params env (p_Name p) (p_Price p)")
    case (Inl e)
    with u inv show ?thesis by (simp add: db_inv_from_refl)
  next
    case (Inr c)
    with assms have c: "c \<le> max_cents" by (blast dest: convert_params_range)
    show ?thesis
    proof (cases "int4in env (p_ID p)")
      case None
      with u Inr inv show ?thesis by (simp add: db_inv_from_refl)
    next
      case (Some n)
      with u Inr show ?thesis
        by (auto intro!: update_products_inv [OF inv] category_id_of_Some
            simp: edit_row_ok c db_inv_row [OF inv])
    qed
  qed
qed

lemma Delete_inv [preserve_intros]: "keeps_inv (Delete env ident)"
proof -
  have "keeps_inv (\<lambda>s. case int4in env ident of None \<Rightarrow> (Inl (PgError ''22P02''), s)
      | Some n \<Rightarrow> delete_products (\<lambda>r. pr_id r = n) s)"
    using delete_products_inv
    by (cases "int4in env ident") (simp_all add: keeps_inv_def preserves_def)
  then show ?thesis unfolding Delete_def by (intro preserve_intros)
qed

subsection \<open>Running the reads\<close>

lemma FindByID_run:
  assumes "db_inv s" and "scan_ok env" and "faults s = []"
  shows "FindByID env ident s = (case int4in env ident of None \<Rightarrow> Inl (PgError ''22P02'')
     | Some n \<Rightarrow> (case find (\<lambda>r. pr_id r = n \<and> pr_status r = StatusActive) (products s) of
          None \<Rightarrow> Inl ErrNotFound | Some r \<Rightarrow> Inr (public_product s r)), s)"
  using assms
  by (simp add: FindByID_def on_err_def FindByID_query split: option.splits)

lemma FindByID_outcome:
  assumes "db_inv s" and "scan_ok env" and "FindByID env ident s = (r, t)"
  shows "(\<exists>fs. t = s\<lparr>faults := fs\<rparr>) \<and> (r \<in> {Inl DriverErr, fst (FindByID env ident (s\<lparr>faults := []\<rparr>))})"
proof -
  obtain r0 where q: "query (\<lambda>s. with_int4 env ident (\<lambda>n. first_row (scan_product s)
      (filter (\<lambda>r. pr_id r = n \<and> pr_status r = StatusActive)
        (scan_order env (products s))))) s = (r0, t)"
    using assms(3) unfolding FindByID_def on_err_def by (auto split: prod.splits sum.splits)
  then obtain fs where t: "t = s\<lparr>faults := fs\<rparr>"
    and r0: "r0 = with_int4 env ident (\<lambda>n. first_row (scan_product t)
      (filter (\<lambda>r. pr_id r = n \<and> pr_status r = StatusActive)
        (scan_order env (products t)))) \<or> r0 = Inl DriverErr"
    by (elim query_cases) auto
  have inv: "db_inv t" "db_inv (s\<lparr>faults := []\<rparr>)" using assms(1) t by simp_all
  show ?thesis
    using assms(3) q r0 t FindByID_query [OF inv(1) assms(2), of ident]
      FindByID_query [OF inv(2) assms(2), of ident]
    by (auto simp: FindByID_def on_err_def split: option.splits)
qed

lemma intIDs_faults_query:
  assumes "db_inv s" and "scan_ok env"
  shows "scan_rows (scan_product s) (filter P (scan_order env (products s))) =
    Inr (map (public_product s) (filter P (scan_order env (products s))))"
  using assms by (intro scan_rows_products) (auto simp: set_scan_order)

lemma map_filter_Atoi_Itoa:
  "(\<And>n. n \<in> set ns \<Longrightarrow> is_int64 n) \<Longrightarrow> List.map_filter Atoi (map Itoa ns) = ns"
  by (induction ns) (simp_all add: List.map_filter_def Atoi_Itoa)

lemma set_map_filter_Atoi:
  "set (List.map_filter Atoi ids) = {n. \<exists>x \<in> set ids. Atoi x = Some n}"
  by (force simp: List.map_filter_def)

lemma distinct_scan_ids:
  assumes "db_inv s" and "scan_ok env"
  shows "distinct (map pr_id (scan_order env (products s)))"
  using db_inv_distinct_ids [OF assms(1)] assms(2)
  by (metis mset_eq_imp_distinct_iff mset_map scan_ok_def)

lemma distinct_public_ids:
  assumes "db_inv s" and "distinct (map pr_id rows)" and "set rows \<subseteq> set (products s)"
  shows "distinct (map p_ID (map (public_product s) rows))"
proof -
  have "is_int64 (pr_id r)" if "r \<in> set rows" for r
    using that assms db_inv_row by (fastforce simp: row_ok_def is_int4_is_int64)
  then have "inj_on Itoa (pr_id ` set rows)"
    by (auto simp: inj_on_def Itoa_inject)
  with assms(2) show ?thesis by (simp add: distinct_map o_def comp_inj_on_iff)
qed

lemma FindByIDs_run:
  assumes "db_inv s" and "scan_ok env" and "faults s = []"
    and "\<forall>n \<in> set (List.map_filter Atoi ids). int4_arg env n"
  shows "FindByIDs env ids s = (Inr (map (public_product s)
     (filter (\<lambda>r. pr_id r \<in> set (List.map_filter Atoi ids)) (scan_order env (products s)))), s)"
  using assms by (auto simp: FindByIDs_def Let_def list_all_iff intIDs_faults_query)

subsection \<open>Properties\<close>

text \<open>
  C16. The public detail read serves ACTIVE rows only, each exactly as stored: it answers
  the row whose id the text denotes when that row is ACTIVE, \<open>ErrNotFound\<close> for a draft, an
  archived or an unknown product alike, and a driver error for a text that is no integer;
  it changes nothing.
\<close>

theorem FindByID_spec:
  assumes "db_inv s" and "scan_ok env" and "faults s = []"
  shows "snd (FindByID env ident s) = s \<and>
    (case int4in env ident of
       None \<Rightarrow> fst (FindByID env ident s) = Inl (PgError ''22P02'')
     | Some n \<Rightarrow> (\<forall>r \<in> set (products s). pr_id r = n \<longrightarrow> pr_status r = StatusActive \<longrightarrow>
          fst (FindByID env ident s) = Inr (public_product s r)) \<and>
        ((\<nexists>r. r \<in> set (products s) \<and> pr_id r = n \<and> pr_status r = StatusActive) \<longrightarrow>
          fst (FindByID env ident s) = Inl ErrNotFound))"
proof (cases "int4in env ident")
  case None
  with assms show ?thesis by (simp add: FindByID_run)
next
  case (Some n)
  let ?P = "\<lambda>r. pr_id r = n \<and> pr_status r = StatusActive"
  show ?thesis
  proof (cases "find ?P (products s)")
    case None
    then have "\<forall>r \<in> set (products s). \<not> ?P r" by (auto simp: find_None_iff)
    moreover have "FindByID env ident s = (Inl ErrNotFound, s)"
      using Some None by (simp add: FindByID_run assms)
    ultimately show ?thesis using Some by auto
  next
    case (Some r)
    then have r: "r \<in> set (products s)" "?P r" by (auto dest: find_Some_set)
    have u: "r' = r" if "r' \<in> set (products s)" "pr_id r' = n" for r'
      using that r id_inj [OF assms(1)] by simp
    have "FindByID env ident s = (Inr (public_product s r), s)"
      using \<open>int4in env ident = Some n\<close> Some by (simp add: FindByID_run assms)
    with \<open>int4in env ident = Some n\<close> r u show ?thesis by fastforce
  qed
qed

lemma FindByIDs_answer:
  assumes "db_inv s" and "scan_ok env" and "int4_arg_ok env" and "faults s = []"
    and "\<forall>x \<in> set ids. \<forall>n. Atoi x = Some n \<longrightarrow> is_int4 n"
  shows "\<exists>ps. FindByIDs env ids s = (Inr ps, s) \<and> distinct (map p_ID ps) \<and>
     set ps = public_product s ` {r \<in> set (products s). \<exists>x \<in> set ids. Atoi x = Some (pr_id r)}"
proof -
  let ?rows = "filter (\<lambda>r. pr_id r \<in> set (List.map_filter Atoi ids))
    (scan_order env (products s))"
  have "\<forall>n \<in> set (List.map_filter Atoi ids). int4_arg env n"
    using assms(3,5) by (auto simp: set_map_filter_Atoi int4_arg_ok_def)
  then have "FindByIDs env ids s = (Inr (map (public_product s) ?rows), s)"
    by (rule FindByIDs_run [OF assms(1,2,4)])
  moreover have "distinct (map p_ID (map (public_product s) ?rows))"
    using distinct_scan_ids [OF assms(1,2)]
    by (intro distinct_public_ids assms(1)) (auto simp: set_scan_order [OF assms(2)]
        distinct_map_filter)
  moreover have "set (map (public_product s) ?rows) = public_product s `
      {r \<in> set (products s). \<exists>x \<in> set ids. Atoi x = Some (pr_id r)}"
    by (auto simp: set_scan_order [OF assms(2)] set_map_filter_Atoi)
  ultimately show ?thesis by blast
qed

text \<open>
  The batch price read is status-blind and complete: for ids that are \<open>int4\<close> values or
  not numbers at all, it returns each stored product whose id is among them exactly once,
  draft and archived ones included, and omits unknown and non-numeric ids.
\<close>

theorem FindByIDs_spec:
  assumes "db_inv s" and "scan_ok env" and "int4_arg_ok env" and "faults s = []"
    and "\<forall>x \<in> set ids. \<forall>n. Atoi x = Some n \<longrightarrow> is_int4 n"
  shows "\<exists>ps. FindByIDs env ids s = (Inr ps, s) \<and> distinct (map p_ID ps) \<and>
     set ps = public_product s ` {r \<in> set (products s). \<exists>x \<in> set ids. Atoi x = Some (pr_id r)}"
  using assms by (rule FindByIDs_answer)


text \<open>
  The listing is ordered and filtered as asked: under a non-negative limit it is the
  requested window of the matching ACTIVE products, sorted by the requested column and
  direction (by creation, newest first, for an unknown column and order); a negative limit
  is refused by the database.
\<close>

theorem FindAll_sorted_window:
  assumes "db_inv s" and "scan_ok env" and "faults s = []"
    and "sort_column_of (f_SortBy f) \<noteq> By_name"
  shows "\<exists>rows. set rows = {r \<in> set (products s). matches env f s r} \<and> distinct rows \<and>
     sorted_wrt (row_le env f) rows \<and>
     FindAll env f s = (if page_limit f < 0 then Inl (PgError ''2201W'')
       else Inr (map (public_product s)
         (take (nat (page_limit f)) (drop (nat (page_offset f)) rows))), s)"
proof (intro exI conjI)
  let ?rows = "matching_rows env f s"
  show "set ?rows = {r \<in> set (products s). matches env f s r}"
    by (rule set_matching_rows [OF assms(2)])
  have "mset ?rows = mset (filter (matches env f s) (products s))"
    using assms(2) by (simp add: matching_rows_def scan_ok_def)
  moreover have "distinct (filter (matches env f s) (products s))"
    using db_inv_distinct_ids [OF assms(1)] by (simp add: distinct_map)
  ultimately show "distinct ?rows" by (metis mset_eq_imp_distinct_iff)
  show "sorted_wrt (row_le env f) ?rows" by (rule sorted_matching_rows [OF assms(4)])
  show "FindAll env f s = (if page_limit f < 0 then Inl (PgError ''2201W'')
       else Inr (map (public_product s)
         (take (nat (page_limit f)) (drop (nat (page_offset f)) ?rows))), s)"
    by (simp add: FindAll_run [OF assms(1,2,3)] page_of_def take_map drop_map)
qed

text \<open>
  Related products are other ACTIVE products of the same category, at most \<open>limit\<close> of
  them, whatever faults occur: a product without a category has none, and the product
  itself is never among them.
\<close>

theorem FindRelatedProducts_sound:
  assumes "db_inv s" and "scan_ok env"
    and "FindRelatedProducts env ident limit s = (Inr ps, t)" and "p \<in> set ps"
  shows "int (length ps) \<le> limit \<and>
    (\<exists>r1 \<in> set (products s). \<exists>r2 \<in> set (products s).
       int4in env ident = Some (pr_id r1) \<and> p_ID p = Itoa (pr_id r2) \<and> pr_id r1 \<noteq> pr_id r2 \<and>
       pr_status r2 = StatusActive \<and> pr_category_id r1 \<noteq> None \<and>
       pr_category_id r1 = pr_category_id r2 \<and> p_Price p = price_of_cents (pr_price r2))"
proof -
  let ?rel = "\<lambda>n. filter (related_to s n) (scan_order env (products s))"
  obtain fs where "with_int4 env ident (\<lambda>n. limit_offset limit 0 (scan_rows scan_related)
      (filter (related_to (s\<lparr>faults := fs\<rparr>) n) (scan_order env (products s)))) = Inr ps"
    using assms(3) unfolding FindRelatedProducts_def by (auto dest: query_InrD)
  moreover have "related_to (s\<lparr>faults := fs\<rparr>) n = related_to s n" for n
    by (simp add: related_to_def fun_eq_iff)
  ultimately obtain n where n: "int4in env ident = Some n" and l: "0 \<le> limit"
    and ps: "scan_rows scan_related (page_of (nat limit) 0 (?rel n)) = Inr ps"
    by (auto simp: with_int4_def limit_offset_def split: option.splits if_splits)
  have mp: "ps = map (\<lambda>r. zero_product\<lparr>p_ID := Itoa (pr_id r), p_Name := pr_name r,
     p_Price := price_of_cents (pr_price r)\<rparr>) (page_of (nat limit) 0 (?rel n))"
    using ps scan_rows_Inr [of _ scan_related] by (simp add: scan_related_def)
  with assms(4) obtain r2 where r2: "r2 \<in> set (page_of (nat limit) 0 (?rel n))"
    and p: "p_ID p = Itoa (pr_id r2)" "p_Price p = price_of_cents (pr_price r2)"
    by auto
  from r2 have "r2 \<in> set (products s)" and rel: "related_to s n r2"
    using set_page_of [of "nat limit" 0 "?rel n"] set_scan_order [OF assms(2)] by auto
  moreover from rel obtain r1 where r1: "r1 \<in> set (products s)" "pr_id r1 = n"
    "pr_category_id r1 \<noteq> None" "pr_category_id r1 = pr_category_id r2"
    unfolding related_to_def by blast
  moreover from rel have "n \<noteq> pr_id r2" "pr_status r2 = StatusActive"
    by (simp_all add: related_to_def)
  moreover have "int (length ps) \<le> limit" using l by (simp add: mp length_page_of)
  ultimately show ?thesis
    using n p by (intro conjI bexI [of _ r1] bexI [of _ r2]) simp_all
qed



subsection \<open>The properties at concrete inputs\<close>

theorem FindByID_spec_witness:
  "fst (FindByID std_env ''1'' sample_db) =
     Inr (public_product sample_db (sample_row 1 ''Mouse'' 1999 (Some 1) StatusActive 2)) \<and>
   fst (FindByID std_env ''3'' sample_db) = Inl ErrNotFound"
  using FindByID_spec [OF sample_db_inv std_scan_ok, of "''1''"]
    FindByID_spec [OF sample_db_inv std_scan_ok, of "''3''"] by auto

theorem FindByIDs_spec_witness:
  "\<exists>ps. FindByIDs std_env [''3'', ''x'', ''1''] sample_db = (Inr ps, sample_db) \<and>
     set ps = {public_product sample_db (sample_row 3 ''Cable'' 500 (Some 1) StatusDraft 1),
               public_product sample_db (sample_row 1 ''Mouse'' 1999 (Some 1) StatusActive 2)}"
proof -
  have A: "Atoi ''3'' = Some 3" "Atoi ''x'' = None" "Atoi ''1'' = Some 1" by code_simp+
  then have "\<forall>x \<in> set [''3'', ''x'', ''1'']. \<forall>n. Atoi x = Some n \<longrightarrow> is_int4 n"
    by (simp add: is_int4_def)
  from FindByIDs_spec [OF sample_db_inv std_scan_ok std_int4_arg_ok _ this] A
  show ?thesis by (auto 0 4)
qed

definition sample_filters :: ProductFilters where
  "sample_filters = \<lparr>f_Category = [], f_Search = [], f_SortBy = ''price'', f_Order = ''asc'',
     f_Page = 1, f_Limit = 1\<rparr>"


theorem FindAll_sorted_window_witness:
  "\<exists>rows. sorted_wrt (row_le std_env sample_filters) rows \<and>
     FindAll std_env sample_filters sample_db =
       (Inr (map (public_product sample_db) (take 1 rows)), sample_db)"
proof -
  have l: "page_limit sample_filters = 1" "page_offset sample_filters = 0"
     "sort_column_of (f_SortBy sample_filters) \<noteq> By_name"
    by (simp_all add: page_limit_def sample_filters_def page_offset_def sort_column_of_def
        is_int64_def min_int64_def max_int64_def)
  from FindAll_sorted_window [OF sample_db_inv std_scan_ok _ l(3)] l(1,2) show ?thesis by auto
qed

lemma related_example:
  "FindRelatedProducts std_env ''1'' 4 sample_db =
     (Inr [zero_product\<lparr>p_ID := ''2'', p_Name := ''Keyboard'', p_Price := price_of_cents 4950\<rparr>],
      sample_db)"
proof -
  have "scan_order std_env = (\<lambda>rows. rows)" by (simp add: std_env_def)
  moreover have "Itoa 2 = ''2''" by code_simp
  ultimately show ?thesis
    by (simp add: FindRelatedProducts_def with_int4_def limit_offset_def related_to_def
        page_of_def scan_related_def)
qed

theorem FindRelatedProducts_sound_witness:
  "\<exists>r2 \<in> set (products sample_db). pr_id r2 \<noteq> 1 \<and> Itoa (pr_id r2) = ''2'' \<and>
     pr_category_id r2 \<noteq> None"
  using FindRelatedProducts_sound [OF sample_db_inv std_scan_ok related_example, of
      "zero_product\<lparr>p_ID := ''2'', p_Name := ''Keyboard'', p_Price := price_of_cents 4950\<rparr>"]
  by (simp add: zero_product_def)



end
