(* ===== verification/Cache_Client.thy ===== *)
theory Cache_Client
  imports Catalog_DB
begin

section \<open>The cache client: its interface and its Valkey implementation\<close>

text \<open>
  \<open>internal/core/cache/cache.go\<close> states what the service expects of a cache; here it is the
  record \<open>CacheClient\<close> of operations and the locale \<open>cache_client\<close> of their laws, over any
  state. \<open>valkey_client.go\<close> implements it by the commands of a Valkey server: keys with a
  deadline, a connection that may fail at every round trip, \<open>SCAN\<close> pages of arbitrary size
  that may repeat keys, and the hit, miss and error counters of \<open>metrics.go\<close>. The
  interpretation \<open>valkey\<close> discharges the laws for it.
\<close>

subsection \<open>The interface\<close>

text \<open>
  A cached value: the JSON document a caller marshalled, as its tree, or other bytes (the
  token of a lock).
\<close>

datatype payload = Doc json | Bytes string

record 's CacheClient =
  cc_Get :: "string \<Rightarrow> ('s, err, payload option) action"
  cc_Set :: "string \<Rightarrow> payload \<Rightarrow> int \<Rightarrow> ('s, err, unit) action"
  cc_SetNX :: "string \<Rightarrow> payload \<Rightarrow> int \<Rightarrow> ('s, err, bool) action"
  cc_Delete :: "string \<Rightarrow> ('s, err, unit) action"
  cc_DeleteIfEqual :: "string \<Rightarrow> payload \<Rightarrow> ('s, err, unit) action"
  cc_DeleteByPattern :: "string \<Rightarrow> ('s, err, unit) action"

text \<open>Glob patterns: \<open>*\<close> any bytes, \<open>?\<close> one byte, any other byte itself.\<close>

fun glob :: "string \<Rightarrow> string \<Rightarrow> bool" where
  "glob [] s = (s = [])"
| "glob (p # ps) s = (if p = CHR ''*'' then list_ex (\<lambda>k. glob ps (drop k s)) [0..<Suc (length s)]
     else (case s of [] \<Rightarrow> False | c # cs \<Rightarrow> (p = CHR ''?'' \<or> p = c) \<and> glob ps cs))"

lemma glob_star: "glob ''*'' s"
  by (auto simp: list_ex_iff intro: bexI [of _ "length s"])

lemma glob_prefix:
  assumes "\<forall>c \<in> set p. c \<noteq> CHR ''*'' \<and> c \<noteq> CHR ''?''"
  shows "glob (p @ ''*'') s \<longleftrightarrow> (\<exists>x. s = p @ x)"
  using assms
proof (induction p arbitrary: s)
  case Nil
  then show ?case using glob_star by simp
next
  case (Cons a p)
  then show ?case by (cases s) auto
qed

text \<open>
  The laws. \<open>view s\<close> is what the cache holds at this moment. An operation that reports an
  error may or may not have happened; none touches a key it does not name.
\<close>

locale cache_client =
  fixes C :: "'s CacheClient" and view :: "'s \<Rightarrow> string \<Rightarrow> payload option"
  assumes get_view: "view (snd (cc_Get C k s)) = view s"
    and get_value: "fst (cc_Get C k s) = Inr found \<Longrightarrow> found = view s k"
    and set_ok: "fst (cc_Set C k v d s) = Inr u \<Longrightarrow> view (snd (cc_Set C k v d s)) = (view s)(k \<mapsto> v)"
    and set_err: "view (snd (cc_Set C k v d s)) \<in> {view s, (view s)(k \<mapsto> v)}"
    and setnx_ok: "fst (cc_SetNX C k v d s) = Inr b \<Longrightarrow> b = (view s k = None) \<and>
      view (snd (cc_SetNX C k v d s)) = (if b then (view s)(k \<mapsto> v) else view s)"
    and setnx_err: "view (snd (cc_SetNX C k v d s)) = view s \<or>
      (view s k = None \<and> view (snd (cc_SetNX C k v d s)) = (view s)(k \<mapsto> v))"
    and delete_ok: "fst (cc_Delete C k s) = Inr u \<Longrightarrow> view (snd (cc_Delete C k s)) = (view s)(k := None)"
    and delete_err: "view (snd (cc_Delete C k s)) \<in> {view s, (view s)(k := None)}"
    and deleq_ok: "fst (cc_DeleteIfEqual C k v s) = Inr u \<Longrightarrow> view (snd (cc_DeleteIfEqual C k v s)) =
      (if view s k = Some v then (view s)(k := None) else view s)"
    and deleq_err: "view (snd (cc_DeleteIfEqual C k v s)) \<in>
      {view s, if view s k = Some v then (view s)(k := None) else view s}"
    and delpat_ok: "fst (cc_DeleteByPattern C p s) = Inr u \<Longrightarrow>
      view (snd (cc_DeleteByPattern C p s)) = (\<lambda>k. if glob p k then None else view s k)"
    and delpat_err: "view (snd (cc_DeleteByPattern C p s)) k = view s k \<or>
      (glob p k \<and> view (snd (cc_DeleteByPattern C p s)) k = None)"
begin

text \<open>A read never changes what later reads see.\<close>

lemma get_run: "cc_Get C k s = (r, t) \<Longrightarrow> view t = view s \<and> (\<forall>v. r = Inr v \<longrightarrow> v = view s k)"
  using get_view [of k s] get_value [of k s] by auto

text \<open>Only the holder of a token removes it from its key.\<close>

lemma deleq_other: "view s k = Some w \<Longrightarrow> w \<noteq> v \<Longrightarrow> view (snd (cc_DeleteIfEqual C k v s)) = view s"
  using deleq_err [of k v s] by auto

lemma other_key_set: "k \<noteq> k' \<Longrightarrow> view (snd (cc_Set C k v d s)) k' = view s k'"
  using set_err [of k v d s] by auto

lemma other_key_setnx: "k \<noteq> k' \<Longrightarrow> view (snd (cc_SetNX C k v d s)) k' = view s k'"
  using setnx_err [of k v d s] by auto

lemma other_key_delete: "k \<noteq> k' \<Longrightarrow> view (snd (cc_Delete C k s)) k' = view s k'"
  using delete_err [of k s] by auto

lemma other_key_deleq: "k \<noteq> k' \<Longrightarrow> view (snd (cc_DeleteIfEqual C k v s)) k' = view s k'"
  using deleq_err [of k v s] by (auto split: if_splits)

lemmas other_keys = other_key_set other_key_setnx other_key_delete other_key_deleq

end

text \<open>
  A client inside a larger state: its operations leave the rest of the state alone.
\<close>

locale framed_client = cache_client C view
  for C :: "'s CacheClient" and view :: "'s \<Rightarrow> string \<Rightarrow> payload option" +
  fixes rest :: "'s \<Rightarrow> 'r"
  assumes rest_get: "rest (snd (cc_Get C k s)) = rest s"
    and rest_set: "rest (snd (cc_Set C k v d s)) = rest s"
    and rest_setnx: "rest (snd (cc_SetNX C k v d s)) = rest s"
    and rest_delete: "rest (snd (cc_Delete C k s)) = rest s"
    and rest_deleq: "rest (snd (cc_DeleteIfEqual C k v s)) = rest s"
    and rest_delpat: "rest (snd (cc_DeleteByPattern C p s)) = rest s"

subsection \<open>The Valkey server\<close>

record vk_entry =
  ve_value :: payload
  ve_expires :: "int option"

record valkey =
  vk_store :: "(string \<times> vk_entry) list"
  vk_now :: int
  vk_faults :: "fault list"
  vk_script :: "(nat \<times> bool) list"
  vk_hits :: nat
  vk_misses :: nat
  vk_errors :: nat

definition live :: "int \<Rightarrow> vk_entry \<Rightarrow> bool" where
  "live now e \<longleftrightarrow> (case ve_expires e of None \<Rightarrow> True | Some d \<Rightarrow> now < d)"

definition lookup_in :: "int \<Rightarrow> (string \<times> vk_entry) list \<Rightarrow> string \<Rightarrow> vk_entry option" where
  "lookup_in now kvs k = (case map_of kvs k of None \<Rightarrow> None
     | Some e \<Rightarrow> if live now e then Some e else None)"

definition lookup :: "valkey \<Rightarrow> string \<Rightarrow> vk_entry option" where
  "lookup s k = lookup_in (vk_now s) (vk_store s) k"

definition vk_view :: "valkey \<Rightarrow> string \<Rightarrow> payload option" where
  "vk_view s k = map_option ve_value (lookup s k)"

definition store :: "string \<Rightarrow> vk_entry \<Rightarrow> valkey \<Rightarrow> valkey" where
  "store k e s = s\<lparr>vk_store := (k, e) # filter (\<lambda>x. fst x \<noteq> k) (vk_store s)\<rparr>"

definition remove_keys :: "string list \<Rightarrow> valkey \<Rightarrow> valkey" where
  "remove_keys ks s = s\<lparr>vk_store := filter (\<lambda>x. fst x \<notin> set ks) (vk_store s)\<rparr>"

text \<open>One command on the wire, under the fault scripted for it.\<close>

definition command :: "(valkey, err, 'a) action \<Rightarrow> (valkey, err, 'a) action" where
  "command q s = (case vk_faults s of [] \<Rightarrow> q s
     | f # fs \<Rightarrow> let s' = s\<lparr>vk_faults := fs\<rparr> in
         (case f of Runs \<Rightarrow> q s' | Lost \<Rightarrow> (Inl CacheErr, s')
          | Answer_lost \<Rightarrow> (Inl CacheErr, snd (q s'))))"

text \<open>A TTL that is not positive means no deadline.\<close>

definition deadline :: "valkey \<Rightarrow> int \<Rightarrow> int option" where
  "deadline s ttl = (if ttl \<le> 0 then None else Some (vk_now s + ttl))"

definition new_entry :: "valkey \<Rightarrow> payload \<Rightarrow> int \<Rightarrow> vk_entry" where
  "new_entry s v ttl = \<lparr>ve_value = v, ve_expires = deadline s ttl\<rparr>"

subsection \<open>The client\<close>

text \<open>\<open>recordCacheGet\<close> with its three outcomes.\<close>

definition recordCacheGet :: "(err + payload option) \<Rightarrow> valkey \<Rightarrow> valkey" where
  "recordCacheGet r s = (case r of Inl e \<Rightarrow> s\<lparr>vk_errors := Suc (vk_errors s)\<rparr>
     | Inr None \<Rightarrow> s\<lparr>vk_misses := Suc (vk_misses s)\<rparr>
     | Inr (Some v) \<Rightarrow> s\<lparr>vk_hits := Suc (vk_hits s)\<rparr>)"

definition vk_Get :: "string \<Rightarrow> (valkey, err, payload option) action" where
  "vk_Get key s = (case command (\<lambda>s. (Inr (vk_view s key), s)) s of
     (r, s') \<Rightarrow> (r, recordCacheGet r s'))"

definition vk_Set :: "string \<Rightarrow> payload \<Rightarrow> int \<Rightarrow> (valkey, err, unit) action" where
  "vk_Set key v ttl = command (\<lambda>s. (Inr (), store key (new_entry s v ttl) s))"

definition vk_SetNX :: "string \<Rightarrow> payload \<Rightarrow> int \<Rightarrow> (valkey, err, bool) action" where
  "vk_SetNX key v ttl = command (\<lambda>s. case lookup s key of Some e \<Rightarrow> (Inr False, s)
     | None \<Rightarrow> (Inr True, store key (new_entry s v ttl) s))"

definition vk_Delete :: "string \<Rightarrow> (valkey, err, unit) action" where
  "vk_Delete key = command (\<lambda>s. (Inr (), remove_keys [key] s))"

text \<open>The script of \<open>deleteIfEqualScript\<close>, run atomically by the server.\<close>

definition vk_DeleteIfEqual :: "string \<Rightarrow> payload \<Rightarrow> (valkey, err, unit) action" where
  "vk_DeleteIfEqual key v = command (\<lambda>s. (Inr (),
     if vk_view s key = Some v then remove_keys [key] s else s))"

text \<open>
  The pages of one full \<open>SCAN\<close>: of any sizes, some delivered twice, every matching key in at
  least one of them.
\<close>

fun scan_pages :: "(nat \<times> bool) list \<Rightarrow> string list \<Rightarrow> string list list" where
  "scan_pages [] ks = [ks]"
| "scan_pages ((n, again) # sc) ks = take n ks # (if again then [take n ks] else []) @
     scan_pages sc (drop n ks)"

definition scanCount :: nat where "scanCount = 100"

definition unlink :: "string list \<Rightarrow> (valkey, err, unit) action" where
  "unlink ks = command (\<lambda>s. (Inr (), remove_keys ks s))"

text \<open>The body of the loop over \<open>iter.Val()\<close>: collect a key, flush a full batch.\<close>

fun collect :: "string list \<Rightarrow> string list \<Rightarrow> (valkey, err, string list) action" where
  "collect batch [] = give batch"
| "collect batch (v # vs) = (let batch' = batch @ [v] in
     if scanCount \<le> length batch' then seq (unlink batch') (\<lambda>_. collect [] vs)
     else collect batch' vs)"

fun scan_loop :: "string list \<Rightarrow> string list list \<Rightarrow> (valkey, err, unit) action" where
  "scan_loop batch [] = (if batch \<noteq> [] then unlink batch else give ())"
| "scan_loop batch (p # ps) = seq (command (give ()))
     (\<lambda>_. seq (collect batch p) (\<lambda>batch'. scan_loop batch' ps))"

definition vk_DeleteByPattern :: "string \<Rightarrow> (valkey, err, unit) action" where
  "vk_DeleteByPattern pat s =
     scan_loop [] (scan_pages (vk_script s) (filter (glob pat) (map fst (vk_store s)))) s"

definition valkey_client :: "valkey CacheClient" where
  "valkey_client = \<lparr>cc_Get = vk_Get, cc_Set = vk_Set, cc_SetNX = vk_SetNX,
     cc_Delete = vk_Delete, cc_DeleteIfEqual = vk_DeleteIfEqual,
     cc_DeleteByPattern = vk_DeleteByPattern\<rparr>"

subsection \<open>The laws hold for Valkey\<close>

lemma command_cases:
  assumes "command q s = (r, t)"
  obtains fs where "q (s\<lparr>vk_faults := fs\<rparr>) = (r, t)"
  | fs where "r = Inl CacheErr" "t = s\<lparr>vk_faults := fs\<rparr>"
  | fs where "r = Inl CacheErr" "t = snd (q (s\<lparr>vk_faults := fs\<rparr>))"
proof (cases "vk_faults s")
  case Nil
  then have "s\<lparr>vk_faults := []\<rparr> = s" by (cases s) simp
  moreover from assms Nil have "q s = (r, t)" by (simp add: command_def)
  ultimately have "q (s\<lparr>vk_faults := []\<rparr>) = (r, t)" by (simp only:)
  then show ?thesis by (rule that(1))
next
  case (Cons f fs)
  with assms that show ?thesis by (cases f) (auto simp: command_def)
qed

lemma lookup_faults [simp]: "lookup (s\<lparr>vk_faults := fs\<rparr>) = lookup s"
  by (simp add: lookup_def fun_eq_iff)

lemma view_cong: "vk_store s = vk_store t \<Longrightarrow> vk_now s = vk_now t \<Longrightarrow> vk_view s = vk_view t"
  by (simp add: vk_view_def lookup_def fun_eq_iff)

lemma view_faults [simp]: "vk_view (s\<lparr>vk_faults := fs\<rparr>) = vk_view s"
  by (rule view_cong) simp_all

lemma view_record [simp]: "vk_view (recordCacheGet r s) = vk_view s"
  by (rule view_cong) (simp_all add: recordCacheGet_def split: sum.split option.split)

lemma view_None_iff: "vk_view s k = None \<longleftrightarrow> lookup s k = None"
  by (simp add: vk_view_def)

lemma map_of_filter_keys:
  "map_of (filter (\<lambda>x. fst x \<notin> K) xs) k = (if k \<in> K then None else map_of xs k)"
  by (induction xs) auto

lemma lookup_in_filter:
  "lookup_in now (filter (\<lambda>x. fst x \<notin> K) kvs) k = (if k \<in> K then None else lookup_in now kvs k)"
  by (simp add: lookup_in_def map_of_filter_keys)

lemma lookup_in_Cons:
  "lookup_in now ((k', e) # kvs) k = (if k = k' then (if live now e then Some e else None)
     else lookup_in now kvs k)"
  by (simp add: lookup_in_def)

lemma live_new: "vk_now s = now \<Longrightarrow> live now (new_entry s v ttl)"
  by (simp add: live_def new_entry_def deadline_def)

lemma ve_value_new [simp]: "ve_value (new_entry s v ttl) = v"
  by (simp add: new_entry_def)

lemma view_store [simp]:
  assumes "vk_now s0 = vk_now s"
  shows "vk_view (store k (new_entry s0 v ttl) s) = (vk_view s)(k \<mapsto> v)"
  using lookup_in_filter [of "vk_now s" "{k}" "vk_store s"] assms
  by (simp add: fun_eq_iff vk_view_def lookup_def store_def lookup_in_Cons live_new)

lemma view_remove [simp]:
  "vk_view (remove_keys ks s) = (\<lambda>k. if k \<in> set ks then None else vk_view s k)"
  by (simp add: fun_eq_iff vk_view_def lookup_def remove_keys_def lookup_in_filter)

lemma keys_remove [simp]:
  "map fst (vk_store (remove_keys ks s)) = filter (\<lambda>k. k \<notin> set ks) (map fst (vk_store s))"
  by (simp add: remove_keys_def filter_map o_def)

text \<open>What one command does to the view, whatever its fault.\<close>

lemma command_view:
  assumes "command q s = (r, t)" and "\<And>fs. vk_view (snd (q (s\<lparr>vk_faults := fs\<rparr>))) = f (vk_view s)"
  shows "vk_view t = f (vk_view s) \<or> (vk_view t = vk_view s \<and> (\<exists>e. r = Inl e))"
  using assms(1)
proof (cases rule: command_cases)
  case (1 fs)
  with assms(2) [of fs] show ?thesis by simp
next
  case (2 fs)
  then show ?thesis by simp
next
  case (3 fs)
  with assms(2) [of fs] show ?thesis by simp
qed

lemma vk_Get_run:
  assumes "vk_Get k s = (r, t)"
  shows "vk_view t = vk_view s" and "r = Inr v \<Longrightarrow> v = vk_view s k"
proof -
  obtain r' s' where c: "command (\<lambda>s. (Inr (vk_view s k), s)) s = (r', s')" by fastforce
  with assms have t: "r = r'" "t = recordCacheGet r' s'" by (auto simp: vk_Get_def)
  from c have "vk_view s' = vk_view s \<and> (\<forall>v. r' = Inr v \<longrightarrow> v = vk_view s k)"
    by (cases rule: command_cases) auto
  with t show "vk_view t = vk_view s" and "r = Inr v \<Longrightarrow> v = vk_view s k" by simp_all
qed

lemma unlink_view:
  "unlink ks s = (r, t) \<Longrightarrow>
     vk_view t = (\<lambda>k. if k \<in> set ks then None else vk_view s k) \<or>
     (vk_view t = vk_view s \<and> (\<exists>e. r = Inl e))"
  unfolding unlink_def by (drule command_view [where f = "\<lambda>v k. if k \<in> set ks then None else v k"]) auto

text \<open>The loop removes keys of the batch and of the pages only, and all of them on success.\<close>

definition removes :: "string set \<Rightarrow> valkey \<Rightarrow> valkey \<Rightarrow> bool" where
  "removes K s t \<longleftrightarrow> (\<forall>k. vk_view t k = vk_view s k \<or> (k \<in> K \<and> vk_view t k = None))"

definition clears :: "string set \<Rightarrow> valkey \<Rightarrow> valkey \<Rightarrow> bool" where
  "clears K s t \<longleftrightarrow> (\<forall>k. vk_view t k = (if k \<in> K then None else vk_view s k))"

lemma removes_trans: "removes K s t \<Longrightarrow> removes K t u \<Longrightarrow> removes K s u"
  unfolding removes_def by metis

lemma removes_mono: "removes K s t \<Longrightarrow> K \<subseteq> L \<Longrightarrow> removes L s t"
  unfolding removes_def by blast

lemma clears_removes: "clears K s t \<Longrightarrow> removes K s t"
  unfolding removes_def clears_def by simp

lemma clears_trans: "clears K s t \<Longrightarrow> clears L t u \<Longrightarrow> clears (K \<union> L) s u"
  unfolding clears_def by auto

lemma unlink_clears: "unlink ks s = (Inr u, t) \<Longrightarrow> clears (set ks) s t"
  using unlink_view [of ks s "Inr u" t] by (auto simp: clears_def)

lemma unlink_removes: "unlink ks s = (r, t) \<Longrightarrow> removes (set ks) s t"
  using unlink_view [of ks s r t] by (auto simp: removes_def split: if_splits)

lemma collect_removes:
  "collect b vs s = (r, t) \<Longrightarrow> removes (set b \<union> set vs) s t"
proof (induction b vs arbitrary: s r t rule: collect.induct)
  case (1 b)
  then show ?case by (simp add: removes_def)
next
  case (2 b v vs)
  show ?case
  proof (cases "scanCount \<le> length (b @ [v])")
    case True
    obtain r1 s1 where u: "unlink (b @ [v]) s = (r1, s1)" by fastforce
    from unlink_removes [OF u] have 1: "removes (set b \<union> set (v # vs)) s s1"
      by (rule removes_mono) auto
    show ?thesis
    proof (cases r1)
      case (Inl e)
      with True u 2(3) 1 show ?thesis by (simp add: seq_def)
    next
      case (Inr x)
      with True u 2(3) have "collect [] vs s1 = (r, t)" by (simp add: seq_def)
      from 2(1) [OF refl True this] have "removes (set b \<union> set (v # vs)) s1 t"
        by (rule removes_mono) auto
      with 1 show ?thesis by (rule removes_trans)
    qed
  next
    case False
    with 2(3) have "collect (b @ [v]) vs s = (r, t)" by simp
    from 2(2) [OF refl False this] show ?thesis by (rule removes_mono) auto
  qed
qed

text \<open>What a completed page leaves: the removed keys and the batch carry every key seen.\<close>

lemma collect_clears:
  "collect b vs s = (Inr b', t) \<Longrightarrow>
     \<exists>K. clears K s t \<and> K \<union> set b' = set b \<union> set vs"
proof (induction b vs arbitrary: s t rule: collect.induct)
  case (1 b)
  then show ?case by (intro exI [of _ "{}"]) (simp add: clears_def)
next
  case (2 b v vs)
  show ?case
  proof (cases "scanCount \<le> length (b @ [v])")
    case True
    with 2(3) obtain u s1 where u: "unlink (b @ [v]) s = (Inr u, s1)"
      and c: "collect [] vs s1 = (Inr b', t)"
      by (auto simp: seq_Inr_iff)
    from 2(1) [OF refl True c] obtain K where K: "clears K s1 t" "K \<union> set b' = set vs" by auto
    from clears_trans [OF unlink_clears [OF u] K(1)] K(2)
    show ?thesis by (intro exI [of _ "set (b @ [v]) \<union> K"]) auto
  next
    case False
    with 2(3) have "collect (b @ [v]) vs s = (Inr b', t)" by simp
    from 2(2) [OF refl False this] show ?thesis by auto
  qed
qed

lemma page_view:
  "command (give ()) s = (r, t) \<Longrightarrow> vk_view t = vk_view s"
  by (erule command_cases) auto

lemma scan_loop_removes:
  "scan_loop b ps s = (r, t) \<Longrightarrow> removes (set b \<union> set (concat ps)) s t"
proof (induction b ps arbitrary: s r t rule: scan_loop.induct)
  case (1 b)
  then have "t = s \<or> unlink b s = (r, t)" by (auto split: if_splits)
  then show ?case
  proof
    assume "t = s"
    then show ?thesis by (simp add: removes_def)
  next
    assume "unlink b s = (r, t)"
    from unlink_removes [OF this] show ?thesis by simp
  qed
next
  case (2 b p ps)
  obtain r1 s1 where c: "command (give ()) s = (r1, s1)" by fastforce
  then have v: "vk_view s1 = vk_view s" by (rule page_view)
  show ?case
  proof (cases r1)
    case (Inl e)
    with c 2(2) v show ?thesis by (simp add: seq_def removes_def)
  next
    case (Inr u)
    obtain r2 s2 where k: "collect b p s1 = (r2, s2)" by fastforce
    from collect_removes [OF k] have 1: "removes (set b \<union> set (concat (p # ps))) s s2"
      unfolding removes_def v by auto
    show ?thesis
    proof (cases r2)
      case (Inl e)
      with c Inr k 2(2) 1 show ?thesis by (simp add: seq_def)
    next
      case b': (Inr b')
      with c Inr k 2(2) have l: "scan_loop b' ps s2 = (r, t)" by (simp add: seq_def)
      from k b' have "collect b p s1 = (Inr b', s2)" by simp
      from collect_clears [OF this] obtain K where "K \<union> set b' = set b \<union> set p" by blast
      then have "set b' \<subseteq> set b \<union> set p" by blast
      then have "set b' \<union> set (concat ps) \<subseteq> set b \<union> set (concat (p # ps))"
        unfolding concat.simps set_append by blast
      with 2(1) [OF l] have "removes (set b \<union> set (concat (p # ps))) s2 t"
        by (rule removes_mono)
      with 1 show ?thesis by (rule removes_trans)
    qed
  qed
qed

lemma scan_loop_clears:
  "scan_loop b ps s = (Inr u, t) \<Longrightarrow> clears (set b \<union> set (concat ps)) s t"
proof (induction b ps arbitrary: s t rule: scan_loop.induct)
  case (1 b)
  show ?case
  proof (cases "b = []")
    case True
    with 1 show ?thesis by (simp add: clears_def)
  next
    case False
    with 1 unlink_clears [of b s u t] show ?thesis by simp
  qed
next
  case (2 b p ps)
  from 2(2) obtain s1 b' s2 where c: "command (give ()) s = (Inr (), s1)"
    and k: "collect b p s1 = (Inr b', s2)" and l: "scan_loop b' ps s2 = (Inr u, t)"
    by (auto simp: seq_Inr_iff)
  from page_view [OF c] have v: "vk_view s1 = vk_view s" .
  from collect_clears [OF k] obtain K where K: "clears K s1 s2" "K \<union> set b' = set b \<union> set p"
    by blast
  from clears_trans [OF K(1) 2(1) [OF l]] have "clears (K \<union> (set b' \<union> set (concat ps))) s t"
    by (simp add: clears_def v)
  moreover have "K \<union> (set b' \<union> set (concat ps)) = set b \<union> set (concat (p # ps))"
    using K(2) by auto
  ultimately show ?case by simp
qed

lemma set_scan_pages: "set (concat (scan_pages sc ks)) = set ks"
proof (induction sc ks rule: scan_pages.induct)
  case (1 ks)
  then show ?case by simp
next
  case (2 n again sc ks)
  have "set (take n ks) \<union> set (drop n ks) = set ks" by (metis append_take_drop_id set_append)
  with 2 show ?case by auto
qed

lemma view_not_stored: "k \<notin> fst ` set (vk_store s) \<Longrightarrow> vk_view s k = None"
  by (simp add: vk_view_def lookup_def lookup_in_def map_of_eq_None_iff [THEN iffD2])

lemma vk_DeleteByPattern_ok:
  assumes "vk_DeleteByPattern p s = (Inr u, t)"
  shows "vk_view t = (\<lambda>k. if glob p k then None else vk_view s k)"
proof
  fix k
  from scan_loop_clears [OF assms [unfolded vk_DeleteByPattern_def]]
  have "clears (set (filter (glob p) (map fst (vk_store s)))) s t"
    by (simp only: set_scan_pages list.set Un_empty_left)
  then show "vk_view t k = (if glob p k then None else vk_view s k)"
    using view_not_stored [of k s] by (auto simp: clears_def)
qed

lemma vk_DeleteByPattern_any:
  "vk_view (snd (vk_DeleteByPattern p s)) k = vk_view s k \<or>
     (glob p k \<and> vk_view (snd (vk_DeleteByPattern p s)) k = None)"
proof -
  obtain r t where d: "vk_DeleteByPattern p s = (r, t)" by fastforce
  from scan_loop_removes [OF d [unfolded vk_DeleteByPattern_def]]
  have "removes (set (filter (glob p) (map fst (vk_store s)))) s t"
    by (simp only: set_scan_pages list.set Un_empty_left)
  with d show ?thesis by (auto simp: removes_def)
qed

lemma vk_Set_view:
  "vk_Set k v d s = (r, t) \<Longrightarrow>
     vk_view t = (vk_view s)(k \<mapsto> v) \<or> (vk_view t = vk_view s \<and> (\<exists>e. r = Inl e))"
  unfolding vk_Set_def by (drule command_view [where f = "\<lambda>w. w(k \<mapsto> v)"]) auto

lemma vk_Delete_view:
  "vk_Delete k s = (r, t) \<Longrightarrow>
     vk_view t = (vk_view s)(k := None) \<or> (vk_view t = vk_view s \<and> (\<exists>e. r = Inl e))"
  unfolding vk_Delete_def by (drule command_view [where f = "\<lambda>w. w(k := None)"]) auto

lemma vk_DeleteIfEqual_view:
  "vk_DeleteIfEqual k v s = (r, t) \<Longrightarrow>
     vk_view t = (if vk_view s k = Some v then (vk_view s)(k := None) else vk_view s) \<or>
     (vk_view t = vk_view s \<and> (\<exists>e. r = Inl e))"
  unfolding vk_DeleteIfEqual_def
  by (drule command_view [where f = "\<lambda>w. if w k = Some v then w(k := None) else w"]) auto

lemma vk_SetNX_view:
  assumes "vk_SetNX k v d s = (r, t)"
  shows "vk_view t = vk_view s \<or> (vk_view s k = None \<and> vk_view t = (vk_view s)(k \<mapsto> v))"
    and "r = Inr b \<Longrightarrow> b = (vk_view s k = None) \<and>
      vk_view t = (if b then (vk_view s)(k \<mapsto> v) else vk_view s)"
proof -
  let ?q = "\<lambda>s. case lookup s k of Some e \<Rightarrow> (Inr False, s)
     | None \<Rightarrow> (Inr True, store k (new_entry s v d) s)"
  have q: "?q (s\<lparr>vk_faults := fs\<rparr>) = (r', t') \<Longrightarrow>
      (vk_view s k \<noteq> None \<and> r' = Inr False \<and> vk_view t' = vk_view s) \<or>
      (vk_view s k = None \<and> r' = Inr True \<and> vk_view t' = (vk_view s)(k \<mapsto> v))" for fs r' t'
    by (auto simp: vk_view_def [of s k] split: option.splits)
  have q': "(vk_view s k \<noteq> None \<and> vk_view (snd (?q (s\<lparr>vk_faults := fs\<rparr>))) = vk_view s) \<or>
      (vk_view s k = None \<and> vk_view (snd (?q (s\<lparr>vk_faults := fs\<rparr>))) = (vk_view s)(k \<mapsto> v))" for fs
    by (cases "lookup s k") (simp_all add: vk_view_def [of s k])
  have *: "(vk_view t = vk_view s \<or> (vk_view s k = None \<and> vk_view t = (vk_view s)(k \<mapsto> v))) \<and>
      (\<forall>b. r = Inr b \<longrightarrow> b = (vk_view s k = None) \<and>
         vk_view t = (if b then (vk_view s)(k \<mapsto> v) else vk_view s))"
    using assms unfolding vk_SetNX_def
  proof (cases rule: command_cases)
    case (1 fs)
    from q [OF this] show ?thesis by auto
  next
    case (2 fs)
    then show ?thesis by simp
  next
    case (3 fs)
    from q' [of fs] show ?thesis unfolding 3 by auto
  qed
  then show "vk_view t = vk_view s \<or> (vk_view s k = None \<and> vk_view t = (vk_view s)(k \<mapsto> v))"
    and "r = Inr b \<Longrightarrow> b = (vk_view s k = None) \<and>
      vk_view t = (if b then (vk_view s)(k \<mapsto> v) else vk_view s)" by blast+
qed

lemma valkey_client_sel [simp]:
  "cc_Get valkey_client = vk_Get" "cc_Set valkey_client = vk_Set"
  "cc_SetNX valkey_client = vk_SetNX" "cc_Delete valkey_client = vk_Delete"
  "cc_DeleteIfEqual valkey_client = vk_DeleteIfEqual"
  "cc_DeleteByPattern valkey_client = vk_DeleteByPattern"
  by (simp_all add: valkey_client_def)

lemma vk_Get_laws:
  "vk_view (snd (vk_Get k s)) = vk_view s" "fst (vk_Get k s) = Inr found \<Longrightarrow> found = vk_view s k"
  using vk_Get_run [OF surjective_pairing [of "vk_Get k s"]] by simp_all

lemma valkey_laws: "cache_client valkey_client vk_view"
proof (unfold_locales, unfold valkey_client_sel)
  fix k p and s :: valkey and v :: payload and d :: int and u :: unit
  show "vk_view (snd (vk_Get k s)) = vk_view s" by (rule vk_Get_laws)
  show "found = vk_view s k" if "fst (vk_Get k s) = Inr found" for found
    using that by (rule vk_Get_laws)
  note set = vk_Set_view [OF surjective_pairing [of "vk_Set k v d s"]]
  show "vk_view (snd (vk_Set k v d s)) \<in> {vk_view s, (vk_view s)(k \<mapsto> v)}" using set by auto
  show "vk_view (snd (vk_Set k v d s)) = (vk_view s)(k \<mapsto> v)" if "fst (vk_Set k v d s) = Inr u"
    using set that by auto
  note nx = vk_SetNX_view [OF surjective_pairing [of "vk_SetNX k v d s"]]
  show "b = (vk_view s k = None) \<and> vk_view (snd (vk_SetNX k v d s)) =
      (if b then (vk_view s)(k \<mapsto> v) else vk_view s)" if "fst (vk_SetNX k v d s) = Inr b" for b
    using nx(2) that by simp
  show "vk_view (snd (vk_SetNX k v d s)) = vk_view s \<or>
      (vk_view s k = None \<and> vk_view (snd (vk_SetNX k v d s)) = (vk_view s)(k \<mapsto> v))"
    using nx(1) by auto
  note del = vk_Delete_view [OF surjective_pairing [of "vk_Delete k s"]]
  show "vk_view (snd (vk_Delete k s)) = (vk_view s)(k := None)" if "fst (vk_Delete k s) = Inr u"
    using del that by auto
  show "vk_view (snd (vk_Delete k s)) \<in> {vk_view s, (vk_view s)(k := None)}" using del by auto
  note deq = vk_DeleteIfEqual_view [OF surjective_pairing [of "vk_DeleteIfEqual k v s"]]
  show "vk_view (snd (vk_DeleteIfEqual k v s)) =
      (if vk_view s k = Some v then (vk_view s)(k := None) else vk_view s)"
    if "fst (vk_DeleteIfEqual k v s) = Inr u"
    using deq that by auto
  show "vk_view (snd (vk_DeleteIfEqual k v s)) \<in>
      {vk_view s, if vk_view s k = Some v then (vk_view s)(k := None) else vk_view s}"
    using deq by auto
  show "vk_view (snd (vk_DeleteByPattern p s)) = (\<lambda>k. if glob p k then None else vk_view s k)"
    if "fst (vk_DeleteByPattern p s) = Inr u"
    using that vk_DeleteByPattern_ok [of p s u "snd (vk_DeleteByPattern p s)"]
    by (simp add: prod_eq_iff)
  show "vk_view (snd (vk_DeleteByPattern p s)) k = vk_view s k \<or>
      (glob p k \<and> vk_view (snd (vk_DeleteByPattern p s)) k = None)"
    by (rule vk_DeleteByPattern_any)
qed

subsection \<open>The server's clock is framed\<close>

lemma command_now:
  assumes "\<And>s. vk_now (snd (q s)) = vk_now s"
  shows "vk_now (snd (command q s)) = vk_now s"
proof -
  obtain r t where c: "command q s = (r, t)" by fastforce
  then have "vk_now t = vk_now s"
  proof (cases rule: command_cases)
    case (1 fs)
    then show ?thesis using assms [of "s\<lparr>vk_faults := fs\<rparr>"] by simp
  next
    case (2 fs)
    then show ?thesis by simp
  next
    case (3 fs)
    then show ?thesis using assms [of "s\<lparr>vk_faults := fs\<rparr>"] by simp
  qed
  with c show ?thesis by simp
qed

lemma now_simps [simp]:
  "vk_now (store k e s) = vk_now s" "vk_now (remove_keys ks s) = vk_now s"
  "vk_now (recordCacheGet r s) = vk_now s"
  by (simp_all add: store_def remove_keys_def recordCacheGet_def split: sum.split option.split)

lemma vk_Get_now: "vk_now (snd (vk_Get k s)) = vk_now s"
proof -
  obtain r t where c: "command (\<lambda>s. (Inr (vk_view s k), s)) s = (r, t)" by fastforce
  then have "vk_now t = vk_now s"
    using command_now [of "\<lambda>s. (Inr (vk_view s k), s)" s] by simp
  with c show ?thesis by (simp add: vk_Get_def)
qed

lemma unlink_now: "vk_now (snd (unlink ks s)) = vk_now s"
  unfolding unlink_def by (rule command_now) simp

lemma collect_now: "vk_now (snd (collect b vs s)) = vk_now s"
proof (induction b vs arbitrary: s rule: collect.induct)
  case (2 b v vs)
  obtain r1 s1 where u: "unlink (b @ [v]) s = (r1, s1)" by fastforce
  with unlink_now [of "b @ [v]" s] 2 show ?case
    by (cases r1) (simp_all add: seq_def Let_def)
qed simp

lemma scan_loop_now: "vk_now (snd (scan_loop b ps s)) = vk_now s"
proof (induction b ps arbitrary: s rule: scan_loop.induct)
  case (1 b)
  then show ?case by (simp add: unlink_now)
next
  case (2 b p ps)
  obtain r1 s1 where c: "command (give ()) s = (r1, s1)" by fastforce
  then have 1: "vk_now s1 = vk_now s" using command_now [of "give ()" s] by simp
  obtain r2 s2 where k: "collect b p s1 = (r2, s2)" by fastforce
  then have 2: "vk_now s2 = vk_now s" using collect_now [of b p s1] 1 by simp
  show ?case
    using c k 1 2 "2.IH" by (cases r1; cases r2) (simp_all add: seq_def)
qed

interpretation valkey: framed_client valkey_client vk_view vk_now
proof (rule framed_client.intro [OF valkey_laws], unfold_locales, unfold valkey_client_sel)
  fix k p and s :: valkey and v :: payload and d :: int
  show "vk_now (snd (vk_Get k s)) = vk_now s" by (rule vk_Get_now)
  show "vk_now (snd (vk_Set k v d s)) = vk_now s"
    unfolding vk_Set_def by (rule command_now) simp
  show "vk_now (snd (vk_SetNX k v d s)) = vk_now s"
    unfolding vk_SetNX_def by (rule command_now) (simp split: option.split)
  show "vk_now (snd (vk_Delete k s)) = vk_now s"
    unfolding vk_Delete_def by (rule command_now) simp
  show "vk_now (snd (vk_DeleteIfEqual k v s)) = vk_now s"
    unfolding vk_DeleteIfEqual_def by (rule command_now) simp
  show "vk_now (snd (vk_DeleteByPattern p s)) = vk_now s"
    unfolding vk_DeleteByPattern_def by (rule scan_loop_now)
qed

end
