(* ===== verification/Sha256.thy ===== *)
theory Sha256
  imports Prelude "HOL-Library.Word"
begin

section \<open>The digest of \<open>crypto/sha256\<close>\<close>

text \<open>
  SHA-256 (FIPS 180-4) on bytes, as the standard library of Go computes it: the message is
  padded to blocks of 64 bytes, every block is expanded to 64 words and folded into eight
  registers of 32 bits. \<open>Sum256\<close> is the digest that \<open>generateProductListKey\<close> takes of the
  canonical filter text; a string is its bytes.
\<close>

unbundle bit_operations_syntax

subsection \<open>Words\<close>

type_synonym w32 = "32 word"

definition rotr :: "nat \<Rightarrow> w32 \<Rightarrow> w32" where
  "rotr n x = drop_bit n x OR push_bit (32 - n) x"

definition choose256 :: "w32 \<Rightarrow> w32 \<Rightarrow> w32 \<Rightarrow> w32" where
  "choose256 x y z = (x AND y) XOR (NOT x AND z)"

definition majority256 :: "w32 \<Rightarrow> w32 \<Rightarrow> w32 \<Rightarrow> w32" where
  "majority256 x y z = (x AND y) XOR (x AND z) XOR (y AND z)"

definition big_sigma0 :: "w32 \<Rightarrow> w32" where
  "big_sigma0 x = rotr 2 x XOR rotr 13 x XOR rotr 22 x"

definition big_sigma1 :: "w32 \<Rightarrow> w32" where
  "big_sigma1 x = rotr 6 x XOR rotr 11 x XOR rotr 25 x"

definition small_sigma0 :: "w32 \<Rightarrow> w32" where
  "small_sigma0 x = rotr 7 x XOR rotr 18 x XOR drop_bit 3 x"

definition small_sigma1 :: "w32 \<Rightarrow> w32" where
  "small_sigma1 x = rotr 17 x XOR rotr 19 x XOR drop_bit 10 x"

definition round_constants :: "w32 list" where
  "round_constants = concat
    [[0x428a2f98, 0x71374491, 0xb5c0fbcf, 0xe9b5dba5],
     [0x3956c25b, 0x59f111f1, 0x923f82a4, 0xab1c5ed5],
     [0xd807aa98, 0x12835b01, 0x243185be, 0x550c7dc3],
     [0x72be5d74, 0x80deb1fe, 0x9bdc06a7, 0xc19bf174],
     [0xe49b69c1, 0xefbe4786, 0x0fc19dc6, 0x240ca1cc],
     [0x2de92c6f, 0x4a7484aa, 0x5cb0a9dc, 0x76f988da],
     [0x983e5152, 0xa831c66d, 0xb00327c8, 0xbf597fc7],
     [0xc6e00bf3, 0xd5a79147, 0x06ca6351, 0x14292967],
     [0x27b70a85, 0x2e1b2138, 0x4d2c6dfc, 0x53380d13],
     [0x650a7354, 0x766a0abb, 0x81c2c92e, 0x92722c85],
     [0xa2bfe8a1, 0xa81a664b, 0xc24b8b70, 0xc76c51a3],
     [0xd192e819, 0xd6990624, 0xf40e3585, 0x106aa070],
     [0x19a4c116, 0x1e376c08, 0x2748774c, 0x34b0bcb5],
     [0x391c0cb3, 0x4ed8aa4a, 0x5b9cca4f, 0x682e6ff3],
     [0x748f82ee, 0x78a5636f, 0x84c87814, 0x8cc70208],
     [0x90befffa, 0xa4506ceb, 0xbef9a3f7, 0xc67178f2]]"

datatype regs = Regs w32 w32 w32 w32 w32 w32 w32 w32

definition initial_regs :: regs where
  "initial_regs = Regs 0x6a09e667 0xbb67ae85 0x3c6ef372 0xa54ff53a 0x510e527f 0x9b05688c
     0x1f83d9ab 0x5be0cd19"

subsection \<open>Blocks\<close>

fun round256 :: "w32 \<times> w32 \<Rightarrow> regs \<Rightarrow> regs" where
  "round256 (k, w) (Regs a b c d e f g h) =
     (let t1 = h + big_sigma1 e + choose256 e f g + k + w; t2 = big_sigma0 a + majority256 a b c
      in Regs (t1 + t2) a b c (d + t1) e f g)"

fun add_regs :: "regs \<Rightarrow> regs \<Rightarrow> regs" where
  "add_regs (Regs a b c d e f g h) (Regs a' b' c' d' e' f' g' h') =
     Regs (a + a') (b + b') (c + c') (d + d') (e + e') (f + f') (g + g') (h + h')"

text \<open>The message schedule, the newest word first.\<close>

fun expand256 :: "nat \<Rightarrow> w32 list \<Rightarrow> w32 list" where
  "expand256 0 ws = ws"
| "expand256 (Suc n) ws =
     expand256 n ((small_sigma1 (ws ! 1) + ws ! 6 + small_sigma0 (ws ! 14) + ws ! 15) # ws)"

fun be_words :: "nat list \<Rightarrow> w32 list" where
  "be_words (a # b # c # d # bs) = of_nat (((a * 256 + b) * 256 + c) * 256 + d) # be_words bs"
| "be_words bs = []"

definition block256 :: "regs \<Rightarrow> nat list \<Rightarrow> regs" where
  "block256 r bs = add_regs r
     (fold round256 (zip round_constants (rev (expand256 48 (rev (be_words bs))))) r)"

fun blocks256 :: "nat \<Rightarrow> nat list \<Rightarrow> regs \<Rightarrow> regs" where
  "blocks256 0 bs r = r"
| "blocks256 (Suc n) bs r = blocks256 n (drop 64 bs) (block256 r (take 64 bs))"

subsection \<open>The digest\<close>

text \<open>A bit 1, zeros, and the length in bits as eight big-endian bytes fill the last block.\<close>

definition pad256 :: "nat list \<Rightarrow> nat list" where
  "pad256 bs = bs @ 128 # replicate ((119 - length bs mod 64) mod 64) 0 @
     map (\<lambda>i. (8 * length bs) div 256 ^ i mod 256) (rev [0..<8])"

fun word_bytes :: "w32 \<Rightarrow> nat list" where
  "word_bytes w = map (\<lambda>i. unat (drop_bit (8 * i) w) mod 256) [3, 2, 1, 0]"

fun reg_bytes :: "regs \<Rightarrow> nat list" where
  "reg_bytes (Regs a b c d e f g h) = concat (map word_bytes [a, b, c, d, e, f, g, h])"

definition Sum256 :: "string \<Rightarrow> string" where
  "Sum256 msg = (let bs = pad256 (map of_char msg) in
     map char_of (reg_bytes (blocks256 (length bs div 64) bs initial_regs)))"

text \<open>The padded message is whole blocks, and the digest has 32 bytes.\<close>

lemma pad256_blocks: "64 dvd length (pad256 bs)"
proof -
  define m where "m = length bs mod 64"
  have "m < 64" by (simp add: m_def)
  have "length (pad256 bs) = length bs + 9 + (119 - m) mod 64" by (simp add: pad256_def m_def)
  also have "\<dots> = 64 * (length bs div 64) + (m + 9 + (119 - m) mod 64)"
    using mult_div_mod_eq [of 64 "length bs"] by (simp add: m_def)
  finally have l: "length (pad256 bs) = 64 * (length bs div 64) + (m + 9 + (119 - m) mod 64)" .
  have "m + 9 + (119 - m) mod 64 = (if m \<le> 55 then 64 else 128)"
  proof (cases "m \<le> 55")
    case True
    have "119 - m = 64 + (55 - m)" using True by simp
    then have "(119 - m) mod 64 = 55 - m" using mod_add_self1 [of 64 "55 - m"] True by simp
    with True show ?thesis by simp
  next
    case False
    then have "(119 - m) mod 64 = 119 - m" using \<open>m < 64\<close> by simp
    with False \<open>m < 64\<close> show ?thesis by simp
  qed
  then have "64 dvd m + 9 + (119 - m) mod 64" by simp
  then have "64 dvd 64 * (length bs div 64) + (m + 9 + (119 - m) mod 64)"
    by (rule dvd_add [OF dvd_triv_left])
  then show ?thesis by (simp only: l)
qed

lemma length_reg_bytes: "length (reg_bytes r) = 32"
  by (cases r) simp

lemma length_Sum256 [simp]: "length (Sum256 msg) = 32"
  by (simp add: Sum256_def Let_def length_reg_bytes)

text \<open>The first round of the digest of \<open>abc\<close>, as the standard's example lists it.\<close>

lemma first_round_values:
  "big_sigma0 0x6a09e667 = 0xce20b47e" "big_sigma1 0x510e527f = 0x3587272b"
  "choose256 0x510e527f 0x9b05688c 0x1f83d9ab = 0x1f85c98c"
  "majority256 0x6a09e667 0xbb67ae85 0x3c6ef372 = 0x3a6fe667"
  by code_simp+

lemma first_round_abc:
  "round256 (hd round_constants, hd (be_words [97, 98, 99, 128])) initial_regs =
     Regs 0x5d6aebcd 0x6a09e667 0xbb67ae85 0x3c6ef372 0xfa2a4622 0x510e527f 0x9b05688c 0x1f83d9ab"
  by (simp add: round_constants_def initial_regs_def Let_def first_round_values)

end
