(* ===== verification/Product_Cache.thy ===== *)
theory Product_Cache
  imports Cache_Client Sha256
begin

section \<open>The product cache\<close>

text \<open>
  \<open>internal/core/cache/product_cache.go\<close> over any cache client: keys, JSON documents, TTL
  jitter, reads and writes of details and lists, invalidation, and \<open>GetProductOrSet\<close>, the
  read that protects the database from a stampede with a lock and a polling loop.

  Randomness is a parameter (\<open>cache_env\<close>): \<open>draw n\<close> is what \<open>rand.Int64N(n)\<close> returned.
  The digest in the list keys is computed (\<open>Sum256\<close>). The polling loop runs over the list of
  what its \<open>select\<close> receives: each entry says how other workers and the passing of time changed
  the state before it, and which channel was ready; the timer ends the list.
\<close>

record cache_env =
  draw :: "int \<Rightarrow> int"

record 's ProductCache =
  pc_client :: "'s CacheClient"
  pc_ttlList :: int
  pc_ttlDetail :: int

subsection \<open>TTL jitter\<close>

definition jitter :: "cache_env \<Rightarrow> int \<Rightarrow> int" where
  "jitter env d = (if d \<le> 0 then d else wrap64 (d + draw env (d div 10 + 1)))"

text \<open>\<open>rand.Int64N(n)\<close> is in \<open>[0, n)\<close>.\<close>

definition draw_ok :: "cache_env \<Rightarrow> bool" where
  "draw_ok env \<longleftrightarrow> (\<forall>n > 0. 0 \<le> draw env n \<and> draw env n < n)"

subsection \<open>Keys\<close>

definition generateProductKey :: "string \<Rightarrow> string" where
  "generateProductKey ident = ''product:'' @ ident"

definition lock_key :: "string \<Rightarrow> string" where
  "lock_key ident = ''lock:product:'' @ ident"

text \<open>The defaults the key is normalized to.\<close>

definition or_default :: "string \<Rightarrow> string \<Rightarrow> string" where
  "or_default v d = (if v = [] then d else v)"

definition normalize_filters :: "ProductFilters \<Rightarrow> ProductFilters" where
  "normalize_filters f = \<lparr>f_Category = or_default (f_Category f) ''all'',
     f_Search = or_default (f_Search f) ''none'',
     f_SortBy = or_default (f_SortBy f) ''created_at'',
     f_Order = or_default (f_Order f) ''desc'',
     f_Page = (if f_Page f = 0 then 1 else f_Page f),
     f_Limit = (if f_Limit f = 0 then 20 else f_Limit f)\<rparr>"

definition US :: char where "US = CHR 0x1F"

text \<open>\<open>fmt.Sprintf("%s\x1f%s\x1f%s\x1f%s\x1f%d\x1f%d", ...)\<close>\<close>

definition raw_list_key :: "ProductFilters \<Rightarrow> string" where
  "raw_list_key f = f_Category f @ US # f_Search f @ US # f_SortBy f @ US # f_Order f @ US #
     Itoa (f_Page f) @ US # Itoa (f_Limit f)"

definition hex_digit :: "nat \<Rightarrow> char" where
  "hex_digit n = (''0123456789abcdef'' ! (n mod 16))"

definition hex_encode :: "string \<Rightarrow> string" where
  "hex_encode bs = concat (map (\<lambda>b. [hex_digit (of_char b div 16), hex_digit (of_char b)]) bs)"

definition generateProductListKey :: "ProductFilters \<Rightarrow> string" where
  "generateProductListKey f =
     ''product:list:'' @ hex_encode (Sum256 (raw_list_key (normalize_filters f)))"

text \<open>A lock token: sixteen bytes of \<open>crypto/rand\<close>, in hexadecimal digits.\<close>

definition newLockToken :: "string \<Rightarrow> string" where
  "newLockToken random = hex_encode random"

subsection \<open>Documents\<close>

text \<open>\<open>json.Marshal(product)\<close>: the tagged fields; \<open>Status\<close> and \<open>Version\<close> are left out.\<close>

definition marshal_product :: "product \<Rightarrow> json" where
  "marshal_product p = JObj [(''id'', JStr (p_ID p)), (''name'', JStr (p_Name p)),
     (''price'', JNum (p_Price p)), (''description'', JStr (p_Description p)),
     (''category'', JStr (p_Category p))]"

text \<open>A JSON string or \<open>null\<close> into a Go string field.\<close>

definition into_string :: "json \<Rightarrow> (string \<Rightarrow> 'a \<Rightarrow> 'a) \<Rightarrow> 'a \<Rightarrow> err + 'a" where
  "into_string j upd p = (case j of JStr v \<Rightarrow> Inr (upd v p) | JNull \<Rightarrow> Inr p | _ \<Rightarrow> Inl JsonErr)"

text \<open>
  \<open>json.Unmarshal\<close> into a \<open>Product\<close>: keys match fields without regard to case, a later key
  overrides an earlier one, unknown keys are skipped, \<open>null\<close> leaves a field alone.
\<close>

definition set_product_field :: "string \<Rightarrow> json \<Rightarrow> product \<Rightarrow> err + product" where
  "set_product_field k j p = (let k = to_lower k in
     if k = ''id'' then into_string j (\<lambda>v. p_ID_update (\<lambda>_. v)) p
     else if k = ''name'' then into_string j (\<lambda>v. p_Name_update (\<lambda>_. v)) p
     else if k = ''price'' then (case j of JNum q \<Rightarrow> Inr (p\<lparr>p_Price := q\<rparr>) | JNull \<Rightarrow> Inr p
       | _ \<Rightarrow> Inl JsonErr)
     else if k = ''description'' then into_string j (\<lambda>v. p_Description_update (\<lambda>_. v)) p
     else if k = ''category'' then into_string j (\<lambda>v. p_Category_update (\<lambda>_. v)) p
     else Inr p)"

fun set_product_fields :: "(string \<times> json) list \<Rightarrow> product \<Rightarrow> err + product" where
  "set_product_fields [] p = Inr p"
| "set_product_fields ((k, j) # kvs) p = (case set_product_field k j p of
     Inl e \<Rightarrow> Inl e | Inr p' \<Rightarrow> set_product_fields kvs p')"

fun unmarshal_product :: "json \<Rightarrow> err + product" where
  "unmarshal_product (JObj kvs) = set_product_fields kvs zero_product"
| "unmarshal_product JNull = Inr zero_product"
| "unmarshal_product _ = Inl JsonErr"

text \<open>The anonymous result struct: the slice (\<open>None\<close> is nil) and the total.\<close>

type_synonym product_page = "product list option \<times> int"

definition marshal_list :: "product list \<Rightarrow> int \<Rightarrow> json" where
  "marshal_list ps tot = JObj [(''products'', JArr (map marshal_product ps)),
     (''total'', JNum (of_int tot))]"

definition set_list_field :: "string \<Rightarrow> json \<Rightarrow> product_page \<Rightarrow> err + product_page" where
  "set_list_field k j r = (let k = to_lower k in
     if k = ''products'' then (case j of
         JArr js \<Rightarrow> (case scan_rows unmarshal_product js of Inl e \<Rightarrow> Inl e
           | Inr ps \<Rightarrow> Inr (Some ps, snd r))
       | JNull \<Rightarrow> Inr (None, snd r) | _ \<Rightarrow> Inl JsonErr)
     else if k = ''total'' then (case j of
         JNum q \<Rightarrow> if of_int \<lfloor>q\<rfloor> = q \<and> is_int64 \<lfloor>q\<rfloor> then Inr (fst r, \<lfloor>q\<rfloor>) else Inl JsonErr
       | JNull \<Rightarrow> Inr r | _ \<Rightarrow> Inl JsonErr)
     else Inr r)"

fun set_list_fields :: "(string \<times> json) list \<Rightarrow> product_page \<Rightarrow> err + product_page" where
  "set_list_fields [] r = Inr r"
| "set_list_fields ((k, j) # kvs) r = (case set_list_field k j r of
     Inl e \<Rightarrow> Inl e | Inr r' \<Rightarrow> set_list_fields kvs r')"

fun unmarshal_list :: "json \<Rightarrow> err + product_page" where
  "unmarshal_list (JObj kvs) = set_list_fields kvs (None, 0)"
| "unmarshal_list JNull = Inr (None, 0)"
| "unmarshal_list _ = Inl JsonErr"

text \<open>\<open>json.Unmarshal(data, ...)\<close> of a cached value; a lock token is no document.\<close>

definition decode :: "string \<Rightarrow> (json \<Rightarrow> err + 'a) \<Rightarrow> payload \<Rightarrow> err + 'a" where
  "decode what un v = (case v of Bytes b \<Rightarrow> Inl (Wrapf what JsonErr)
     | Doc j \<Rightarrow> (case un j of Inl e \<Rightarrow> Inl (Wrapf what e) | Inr x \<Rightarrow> Inr x))"

subsection \<open>Reads, writes and invalidation\<close>

definition pc_GetProduct :: "'s ProductCache \<Rightarrow> string \<Rightarrow> ('s, err, product option) action" where
  "pc_GetProduct c ident = seq (cc_Get (pc_client c) (generateProductKey ident))
     (\<lambda>data. case data of None \<Rightarrow> give None
       | Some v \<Rightarrow> (case decode ''failed to unmarshal cached product'' unmarshal_product v of
           Inl e \<Rightarrow> raise e | Inr p \<Rightarrow> give (Some p)))"

definition pc_SetProduct ::
  "cache_env \<Rightarrow> 's ProductCache \<Rightarrow> string \<Rightarrow> product \<Rightarrow> ('s, err, unit) action" where
  "pc_SetProduct env c ident p = cc_Set (pc_client c) (generateProductKey ident)
     (Doc (marshal_product p)) (jitter env (pc_ttlDetail c))"

definition pc_GetProductList ::
  "'s ProductCache \<Rightarrow> ProductFilters \<Rightarrow> ('s, err, product_page) action" where
  "pc_GetProductList c f = seq (cc_Get (pc_client c) (generateProductListKey f))
     (\<lambda>data. case data of None \<Rightarrow> give (None, 0)
       | Some v \<Rightarrow> (case decode ''failed to unmarshal cached product list'' unmarshal_list v of
           Inl e \<Rightarrow> raise e | Inr r \<Rightarrow> give r))"

definition pc_SetProductList :: "cache_env \<Rightarrow> 's ProductCache \<Rightarrow> ProductFilters \<Rightarrow>
    product list \<Rightarrow> int \<Rightarrow> ('s, err, unit) action" where
  "pc_SetProductList env c f ps tot = cc_Set (pc_client c) (generateProductListKey f)
     (Doc (marshal_list ps tot)) (jitter env (pc_ttlList c))"

definition InvalidateProductList :: "'s ProductCache \<Rightarrow> ('s, err, unit) action" where
  "InvalidateProductList c = cc_DeleteByPattern (pc_client c) ''product:list:*''"

definition InvalidateProduct :: "'s ProductCache \<Rightarrow> string \<Rightarrow> ('s, err, unit) action" where
  "InvalidateProduct c ident = cc_Delete (pc_client c) (generateProductKey ident)"

subsection \<open>The read with stampede protection\<close>

datatype wakeup = Ctx_done | Timer_fired | Ticked

type_synonym 's rounds = "(('s \<Rightarrow> 's) \<times> wakeup) list"

fun wait_loop :: "'s ProductCache \<Rightarrow> string \<Rightarrow> ('s, err, product) action \<Rightarrow> 's rounds \<Rightarrow>
    ('s, err, product) action" where
  "wait_loop c ident fetch [] s = fetch s"
| "wait_loop c ident fetch ((others, w) # rounds) s = (let s1 = others s in
     case w of Ctx_done \<Rightarrow> (Inl CtxErr, s1)
     | Timer_fired \<Rightarrow> fetch s1
     | Ticked \<Rightarrow> (case pc_GetProduct c ident s1 of
         (Inr (Some p), s2) \<Rightarrow> (Inr p, s2)
       | (_, s2) \<Rightarrow> wait_loop c ident fetch rounds s2))"

definition lock_ttl :: int where "lock_ttl = 5000000000"

definition fetch_as_owner :: "cache_env \<Rightarrow> 's ProductCache \<Rightarrow> string \<Rightarrow> string \<Rightarrow>
    ('s, err, product) action \<Rightarrow> ('s, err, product) action" where
  "fetch_as_owner env c ident token fetch s =
     (let release = cc_DeleteIfEqual (pc_client c) (lock_key ident) (Bytes token) in
      case fetch s of (Inl e, s1) \<Rightarrow> (Inl e, snd (release s1))
      | (Inr p, s1) \<Rightarrow> (Inr p, snd (release (snd (pc_SetProduct env c ident p s1)))))"

definition GetProductOrSet :: "cache_env \<Rightarrow> 's ProductCache \<Rightarrow> string \<Rightarrow> string \<Rightarrow> 's rounds \<Rightarrow>
    ('s, err, product) action \<Rightarrow> ('s, err, product) action" where
  "GetProductOrSet env c ident token rounds fetch s = (case pc_GetProduct c ident s of
       (Inr (Some p), s1) \<Rightarrow> (Inr p, s1)
     | (_, s1) \<Rightarrow> (case cc_SetNX (pc_client c) (lock_key ident) (Bytes token) lock_ttl s1 of
           (Inl e, s2) \<Rightarrow> fetch s2
         | (Inr acquired, s2) \<Rightarrow> if acquired then fetch_as_owner env c ident token fetch s2
             else wait_loop c ident fetch rounds s2))"

subsection \<open>Documents and keys\<close>

lemma to_lower_simps [simp]: "to_lower [] = []" "to_lower (c # cs) = ascii_lower c # to_lower cs"
  by (simp_all add: to_lower_def)

lemma unmarshal_marshal_product [simp]:
  "unmarshal_product (marshal_product p) = Inr (p\<lparr>p_Status := [], p_Version := 0\<rparr>)"
  by (simp add: marshal_product_def set_product_field_def Let_def into_string_def ascii_lower_def
      zero_product_def)

lemma unmarshal_products [simp]:
  "scan_rows unmarshal_product (map marshal_product ps) =
     Inr (map (\<lambda>p. p\<lparr>p_Status := [], p_Version := 0\<rparr>) ps)"
  by (induction ps) simp_all

lemma unmarshal_marshal_list:
  "is_int64 tot \<Longrightarrow> unmarshal_list (marshal_list ps tot) =
     Inr (Some (map (\<lambda>p. p\<lparr>p_Status := [], p_Version := 0\<rparr>) ps), tot)"
  by (simp add: marshal_list_def set_list_field_def Let_def ascii_lower_def)

text \<open>Detail keys and lock keys never meet; a detail key meets a list key for odd ids only.\<close>

lemma product_key_lock_key [simp]:
  "generateProductKey a \<noteq> lock_key b" "lock_key b \<noteq> generateProductKey a"
  "generateProductListKey f \<noteq> lock_key b" "lock_key b \<noteq> generateProductListKey f"
  by (simp_all add: generateProductKey_def lock_key_def generateProductListKey_def)

lemma product_key_inject [simp]: "generateProductKey a = generateProductKey b \<longleftrightarrow> a = b"
  by (simp add: generateProductKey_def)

lemma glob_list: "glob ''product:list:*'' k \<longleftrightarrow> (\<exists>x. k = ''product:list:'' @ x)"
  using glob_prefix [of "''product:list:''" k] by simp

lemma glob_list_key [simp]: "glob ''product:list:*'' (generateProductListKey f)"
  unfolding glob_list generateProductListKey_def by blast

lemma glob_product_key: "glob ''product:list:*'' (generateProductKey ident) \<longleftrightarrow>
    (\<exists>x. ident = ''list:'' @ x)"
  unfolding glob_list generateProductKey_def by auto

lemma glob_lock_key [simp]: "\<not> glob ''product:list:*'' (lock_key ident)"
  unfolding glob_list lock_key_def by auto

lemma Itoa_no_US: "US \<notin> set (Itoa n)"
proof
  assume "US \<in> set (Itoa n)"
  then obtain k where "US \<in> set (nat_digits k)" by (auto simp: Itoa_def US_def split: if_splits)
  with nat_digits_digits [of k] have "is_digit US" by (simp add: list_all_iff)
  then show False by (simp add: is_digit_def US_def)
qed

text \<open>The raw key is injective on filters whose texts do not contain the separator.\<close>

definition no_US :: "ProductFilters \<Rightarrow> bool" where
  "no_US f \<longleftrightarrow> US \<notin> set (f_Category f) \<and> US \<notin> set (f_Search f) \<and> US \<notin> set (f_SortBy f) \<and>
     US \<notin> set (f_Order f)"

lemma raw_list_key_inject:
  assumes "raw_list_key f = raw_list_key g" and "no_US f" and "no_US g"
    and "is_int64 (f_Page f)" "is_int64 (f_Page g)" "is_int64 (f_Limit f)" "is_int64 (f_Limit g)"
  shows "f = g"
proof -
  have inj: "(xs @ US # ys = us @ US # vs) = (xs = us \<and> ys = vs)"
    if "US \<notin> set xs" "US \<notin> set us" for xs us ys vs
    using append_sep_inj [of xs US ys us vs] that by blast
  from assms show ?thesis
    unfolding raw_list_key_def no_US_def
    by (cases f; cases g) (simp add: inj Itoa_no_US Itoa_inject)
qed

lemma hex_digit_inject: "hex_digit m = hex_digit n \<longleftrightarrow> m mod 16 = n mod 16"
proof -
  have "distinct ''0123456789abcdef''" by code_simp
  then show ?thesis unfolding hex_digit_def by (subst nth_eq_iff_index_eq) simp_all
qed

lemma hex_encode_inject: "hex_encode a = hex_encode b \<longleftrightarrow> a = b"
proof
  assume "hex_encode a = hex_encode b"
  then show "a = b"
  proof (induction a arbitrary: b)
    case Nil
    then show ?case by (cases b) (simp_all add: hex_encode_def)
  next
    case (Cons x a)
    then obtain y c where b: "b = y # c" by (cases b) (simp_all add: hex_encode_def)
    let ?m = "of_char x :: nat" and ?n = "of_char y :: nat"
    from Cons.prems b have "hex_digit (?m div 16) = hex_digit (?n div 16)"
      and "hex_digit ?m = hex_digit ?n" and r: "hex_encode a = hex_encode c"
      by (simp_all add: hex_encode_def)
    then have "?m div 16 mod 16 = ?n div 16 mod 16" and l: "?m mod 16 = ?n mod 16"
      by (simp_all add: hex_digit_inject)
    moreover have "?m div 16 < 16" "?n div 16 < 16"
      by (rule less_mult_imp_div_less, use nat_of_char_less_256 in simp)+
    ultimately have "?m div 16 = ?n div 16" by simp
    with l have "?m = ?n" by (metis div_mult_mod_eq)
    then have "x = y" by simp
    with Cons.IH [OF r] b show ?case by simp
  qed
qed simp

lemma newLockToken_inject [simp]: "newLockToken a = newLockToken b \<longleftrightarrow> a = b"
  by (simp add: newLockToken_def hex_encode_inject)

lemma list_key_iff: "generateProductListKey f = generateProductListKey g \<longleftrightarrow>
    Sum256 (raw_list_key (normalize_filters f)) = Sum256 (raw_list_key (normalize_filters g))"
  by (simp add: generateProductListKey_def hex_encode_inject)

subsection \<open>The product cache over any client\<close>

lemma decode_Inr: "decode w un v = Inr x \<longleftrightarrow> (\<exists>j. v = Doc j \<and> un j = Inr x)"
  by (auto simp: decode_def split: payload.splits sum.splits)

text \<open>An action that leaves the cache as it is, for instance a query of the database.\<close>

definition quiet :: "('s \<Rightarrow> 'v) \<Rightarrow> ('s, err, 'a) action \<Rightarrow> bool" where
  "quiet view m \<longleftrightarrow> (\<forall>s. view (snd (m s)) = view s)"

context cache_client
begin

lemma GetProduct_run:
  assumes "pc_client c = C" and "pc_GetProduct c ident s = (r, t)"
  shows "view t = view s"
    and "r = Inr x \<Longrightarrow> (case view s (generateProductKey ident) of None \<Rightarrow> x = None
      | Some v \<Rightarrow> \<exists>j p. v = Doc j \<and> unmarshal_product j = Inr p \<and> x = Some p)"
proof -
  obtain r1 s1 where g: "cc_Get C (generateProductKey ident) s = (r1, s1)" by fastforce
  from get_run [OF g] have v: "view s1 = view s"
    and k: "\<And>v. r1 = Inr v \<Longrightarrow> v = view s (generateProductKey ident)" by auto
  show "view t = view s"
    using assms g v
    by (auto simp: pc_GetProduct_def seq_def split: sum.splits option.splits)
  show "case view s (generateProductKey ident) of None \<Rightarrow> x = None
      | Some v \<Rightarrow> \<exists>j p. v = Doc j \<and> unmarshal_product j = Inr p \<and> x = Some p" if "r = Inr x"
    using assms g k that
    by (auto simp: pc_GetProduct_def seq_def decode_Inr split: sum.splits option.splits)
qed

lemma GetProduct_miss:
  assumes "pc_client c = C" and "view s (generateProductKey ident) = None"
    and "pc_GetProduct c ident s = (r, t)"
  shows "view t = view s \<and> (r = Inr None \<or> (\<exists>e. r = Inl e))"
  using GetProduct_run [OF assms(1,3)] assms(2) by (cases r) auto

lemma SetProduct_view:
  assumes "pc_client c = C"
  shows "view (snd (pc_SetProduct env c ident p s)) \<in>
      {view s, (view s)(generateProductKey ident \<mapsto> Doc (marshal_product p))}"
    and "fst (pc_SetProduct env c ident p s) = Inr u \<Longrightarrow> view (snd (pc_SetProduct env c ident p s)) =
      (view s)(generateProductKey ident \<mapsto> Doc (marshal_product p))"
  using set_err set_ok by (simp_all add: pc_SetProduct_def assms)

lemma GetProductList_run:
  assumes "pc_client c = C" and "pc_GetProductList c f s = (r, t)"
  shows "view t = view s"
    and "r = Inr x \<Longrightarrow> (case view s (generateProductListKey f) of None \<Rightarrow> x = (None, 0)
      | Some v \<Rightarrow> \<exists>j. v = Doc j \<and> unmarshal_list j = Inr x)"
proof -
  obtain r1 s1 where g: "cc_Get C (generateProductListKey f) s = (r1, s1)" by fastforce
  from get_run [OF g] have v: "view s1 = view s"
    and k: "\<And>v. r1 = Inr v \<Longrightarrow> v = view s (generateProductListKey f)" by auto
  show "view t = view s"
    using assms g v
    by (auto simp: pc_GetProductList_def seq_def split: sum.splits option.splits)
  show "case view s (generateProductListKey f) of None \<Rightarrow> x = (None, 0)
      | Some v \<Rightarrow> \<exists>j. v = Doc j \<and> unmarshal_list j = Inr x" if "r = Inr x"
    using assms g k that
    by (auto simp: pc_GetProductList_def seq_def decode_Inr split: sum.splits option.splits)
qed

lemma SetProductList_view:
  assumes "pc_client c = C"
  shows "view (snd (pc_SetProductList env c f ps n s)) \<in>
      {view s, (view s)(generateProductListKey f \<mapsto> Doc (marshal_list ps n))}"
    and "fst (pc_SetProductList env c f ps n s) = Inr u \<Longrightarrow> view (snd (pc_SetProductList env c f ps n s)) =
      (view s)(generateProductListKey f \<mapsto> Doc (marshal_list ps n))"
  using set_err set_ok by (simp_all add: pc_SetProductList_def assms)

lemma InvalidateProductList_view:
  assumes "pc_client c = C" and "InvalidateProductList c s = (Inr u, t)"
  shows "view t = (\<lambda>k. if glob ''product:list:*'' k then None else view s k)"
  using delpat_ok [of "''product:list:*''" s u] assms by (simp add: InvalidateProductList_def)

lemma InvalidateProduct_view:
  assumes "pc_client c = C" and "InvalidateProduct c ident s = (Inr u, t)"
  shows "view t = (view s)(generateProductKey ident := None)"
  using delete_ok [of "generateProductKey ident" s u] assms by (simp add: InvalidateProduct_def)

text \<open>The lock of another worker survives whatever this worker does with its own token.\<close>

definition holds_lock :: "string \<Rightarrow> string \<Rightarrow> 's \<Rightarrow> bool" where
  "holds_lock ident token s \<longleftrightarrow> view s (lock_key ident) = Some (Bytes token)"

lemma holds_lock_view: "view s = view t \<Longrightarrow> holds_lock i k s = holds_lock i k t"
  by (simp add: holds_lock_def)

lemma wait_loop_lock:
  assumes "pc_client c = C" and "quiet view fetch"
    and "\<forall>(g, w) \<in> set rounds. \<forall>s. holds_lock ident k s \<longrightarrow> holds_lock ident k (g s)"
    and "holds_lock ident k s"
  shows "holds_lock ident k (snd (wait_loop c ident fetch rounds s))"
  using assms(3,4)
proof (induction rounds arbitrary: s)
  case Nil
  then show ?case using assms(2) by (simp add: quiet_def holds_lock_def)
next
  case (Cons x rounds)
  obtain g w where x: "x = (g, w)" by fastforce
  from Cons.prems x have g: "holds_lock ident k (g s)" by auto
  obtain r1 s1 where gp: "pc_GetProduct c ident (g s) = (r1, s1)" by fastforce
  then have s1: "holds_lock ident k s1"
    using g GetProduct_run(1) [OF assms(1) gp] by (simp add: holds_lock_def)
  from Cons.prems(1) have "holds_lock ident k (snd (wait_loop c ident fetch rounds s1))"
    using s1 by (intro Cons.IH) auto
  with g s1 gp x assms(2) show ?case
    by (cases w) (auto simp: Let_def quiet_def holds_lock_def split: sum.splits option.splits)
qed

lemma GetProductOrSet_lock:
  assumes "pc_client c = C" and "quiet view fetch" and "k \<noteq> token" and "holds_lock ident k s"
    and "\<forall>(g, w) \<in> set rounds. \<forall>s. holds_lock ident k s \<longrightarrow> holds_lock ident k (g s)"
  shows "holds_lock ident k (snd (GetProductOrSet env c ident token rounds fetch s))"
proof -
  obtain r1 s1 where gp: "pc_GetProduct c ident s = (r1, s1)" by fastforce
  then have s1: "holds_lock ident k s1"
    using assms(4) GetProduct_run(1) [OF assms(1) gp] by (simp add: holds_lock_def)
  obtain r2 s2 where nx: "cc_SetNX C (lock_key ident) (Bytes token) lock_ttl s1 = (r2, s2)"
    by fastforce
  from s1 have held: "view s1 (lock_key ident) \<noteq> None" by (simp add: holds_lock_def)
  then have "view s2 = view s1" using setnx_err [of "lock_key ident" "Bytes token" lock_ttl s1] nx by auto
  then have s2: "holds_lock ident k s2" using s1 by (simp add: holds_lock_def)
  have b: "r2 \<noteq> Inr True"
    using setnx_ok [of "lock_key ident" "Bytes token" lock_ttl s1 True] nx held by auto
  have f: "holds_lock ident k (snd (fetch s2))"
    using s2 assms(2) by (simp add: quiet_def holds_lock_def)
  show ?thesis
    using gp nx s1 b f assms(1) wait_loop_lock [OF assms(1,2,5) s2]
    by (auto simp: GetProductOrSet_def split: sum.splits option.splits)
qed

text \<open>
  The owner's path on a miss: whatever the cache does, the answer is the fetched product;
  when the writes succeed, the product is cached and the lock is gone.
\<close>

lemma fetch_as_owner_run:
  assumes "pc_client c = C" and "fetch s = (Inr p, s1)"
    and "fst (pc_SetProduct env c ident p s1) = Inr u"
    and "fst (cc_DeleteIfEqual C (lock_key ident) (Bytes token)
           (snd (pc_SetProduct env c ident p s1))) = Inr u'"
    and "view s1 (lock_key ident) = Some (Bytes token)"
    and "fetch_as_owner env c ident token fetch s = (r, t)"
  shows "r = Inr p \<and> view t = (view s1)(lock_key ident := None,
    generateProductKey ident \<mapsto> Doc (marshal_product p))"
proof -
  let ?s2 = "snd (pc_SetProduct env c ident p s1)"
  have 2: "view ?s2 = (view s1)(generateProductKey ident \<mapsto> Doc (marshal_product p))"
    by (rule SetProduct_view(2) [OF assms(1,3)])
  then have "view ?s2 (lock_key ident) = Some (Bytes token)" using assms(5) by simp
  with deleq_ok [OF assms(4)]
  have "view (snd (cc_DeleteIfEqual C (lock_key ident) (Bytes token) ?s2)) =
      (view ?s2)(lock_key ident := None)" by simp
  with assms(1,2,6) 2 show ?thesis
    by (auto simp: fetch_as_owner_def Let_def fun_eq_iff)
qed

end

text \<open>
  What \<open>GetProductOrSet\<close> may answer, inside a state whose other part \<open>rest\<close> (the database)
  satisfies \<open>J\<close> throughout: \<open>Q\<close> is a set of products that every fetch answers from and the
  cached detail, if any, belongs to.
\<close>

context framed_client
begin

definition detail_in :: "string \<Rightarrow> product set \<Rightarrow> ('r \<Rightarrow> bool) \<Rightarrow> 's \<Rightarrow> bool" where
  "detail_in ident Q J s \<longleftrightarrow> J (rest s) \<and>
     (\<forall>j p. view s (generateProductKey ident) = Some (Doc j) \<longrightarrow>
        unmarshal_product j = Inr p \<longrightarrow> p \<in> Q)"

lemma rest_GetProduct:
  assumes "pc_client c = C"
  shows "rest (snd (pc_GetProduct c ident s)) = rest s"
proof -
  obtain r1 s1 where g: "cc_Get C (generateProductKey ident) s = (r1, s1)" by fastforce
  with rest_get [of "generateProductKey ident" s] assms show ?thesis
    by (auto simp: pc_GetProduct_def seq_def split: sum.splits option.splits)
qed

lemma detail_in_Set:
  assumes "pc_client c = C" and "detail_in ident Q J s" and "p\<lparr>p_Status := [], p_Version := 0\<rparr> \<in> Q"
  shows "detail_in ident Q J (snd (pc_SetProduct env c ident p s))"
  using SetProduct_view(1) [OF assms(1), of env ident p s] assms
  by (auto simp: detail_in_def pc_SetProduct_def rest_set)

lemma detail_in_lock:
  "detail_in ident Q J s \<Longrightarrow> detail_in ident Q J (snd (cc_SetNX C (lock_key i) v d s))"
  "detail_in ident Q J s \<Longrightarrow> detail_in ident Q J (snd (cc_DeleteIfEqual C (lock_key i) v s))"
  using other_key_setnx [of "lock_key i" "generateProductKey ident"]
    other_key_deleq [of "lock_key i" "generateProductKey ident"]
  by (simp_all add: detail_in_def rest_setnx rest_deleq)

lemma GetProduct_in:
  assumes "pc_client c = C" and "detail_in ident Q J s" and "pc_GetProduct c ident s = (r, t)"
  shows "detail_in ident Q J t \<and> (\<forall>p. r = Inr (Some p) \<longrightarrow> p \<in> Q)"
proof -
  have "view t = view s" by (rule GetProduct_run [OF assms(1,3)])
  moreover have "rest t = rest s" using rest_GetProduct [OF assms(1)] assms(3) by (metis snd_conv)
  ultimately have "detail_in ident Q J t" using assms(2) by (simp add: detail_in_def)
  moreover have "p \<in> Q" if "r = Inr (Some p)" for p
    using GetProduct_run(2) [OF assms(1,3) that] assms(2)
    by (auto simp: detail_in_def split: option.splits)
  ultimately show ?thesis by blast
qed

text \<open>A fetch that answers products of \<open>Q\<close>, keeps \<open>J\<close> and leaves the cache alone.\<close>

definition fetches_in :: "product set \<Rightarrow> ('r \<Rightarrow> bool) \<Rightarrow> ('s, err, product) action \<Rightarrow> bool" where
  "fetches_in Q J fetch \<longleftrightarrow> quiet view fetch \<and> (\<forall>s. J (rest s) \<longrightarrow> J (rest (snd (fetch s))) \<and>
     (\<forall>p. fst (fetch s) = Inr p \<longrightarrow> p \<in> Q))"

lemma fetch_in:
  assumes "fetches_in Q J fetch" and "detail_in ident Q J s" and "fetch s = (r, t)"
  shows "view t = view s \<and> detail_in ident Q J t \<and> (\<forall>p. r = Inr p \<longrightarrow> p \<in> Q)"
proof -
  have v: "view t = view s" using assms(1,3) by (metis fetches_in_def quiet_def snd_conv)
  from assms(2) have "J (rest s)" by (simp add: detail_in_def)
  with assms(1,3) have "J (rest t)" and "\<forall>p. r = Inr p \<longrightarrow> p \<in> Q"
    by (metis fetches_in_def snd_conv, metis fetches_in_def fst_conv)
  with v assms(2) show ?thesis by (simp add: detail_in_def)
qed

lemma wait_loop_in:
  assumes "pc_client c = C" and "fetches_in Q J fetch"
    and "\<forall>(g, w) \<in> set rounds. \<forall>s. detail_in ident Q J s \<longrightarrow> detail_in ident Q J (g s)"
    and "detail_in ident Q J s" and "wait_loop c ident fetch rounds s = (r, t)"
  shows "detail_in ident Q J t \<and> (\<forall>p. r = Inr p \<longrightarrow> p \<in> Q)"
  using assms(3,4,5)
proof (induction rounds arbitrary: s)
  case Nil
  then show ?case using fetch_in [OF assms(2) Nil.prems(2)] by simp
next
  case (Cons x rounds)
  obtain g w where x: "x = (g, w)" by fastforce
  from Cons.prems x have g: "detail_in ident Q J (g s)" by auto
  show ?case
  proof (cases w)
    case Ctx_done
    with Cons.prems x g show ?thesis by (auto simp: Let_def)
  next
    case Timer_fired
    with Cons.prems x show ?thesis using fetch_in [OF assms(2) g] by (simp add: Let_def)
  next
    case Ticked
    obtain r1 s1 where gp: "pc_GetProduct c ident (g s) = (r1, s1)" by fastforce
    from GetProduct_in [OF assms(1) g gp] have s1: "detail_in ident Q J s1"
      and hit: "\<And>p. r1 = Inr (Some p) \<Longrightarrow> p \<in> Q" by auto
    show ?thesis
    proof (cases "\<exists>p. r1 = Inr (Some p)")
      case True
      with Cons.prems x Ticked gp s1 hit show ?thesis by (auto simp: Let_def)
    next
      case False
      with Cons.prems(3) x Ticked gp have "wait_loop c ident fetch rounds s1 = (r, t)"
        by (auto simp: Let_def split: sum.splits option.splits)
      moreover from Cons.prems(1)
      have "\<forall>(g, w) \<in> set rounds. \<forall>s. detail_in ident Q J s \<longrightarrow> detail_in ident Q J (g s)" by auto
      ultimately show ?thesis using s1 by (intro Cons.IH)
    qed
  qed
qed

lemma fetch_as_owner_in:
  assumes "pc_client c = C" and "fetches_in Q J fetch" and "detail_in ident Q J s"
    and "\<forall>p \<in> Q. p\<lparr>p_Status := [], p_Version := 0\<rparr> \<in> Q"
    and "fetch_as_owner env c ident token fetch s = (r, t)"
  shows "detail_in ident Q J t \<and> (\<forall>p. r = Inr p \<longrightarrow> p \<in> Q)"
proof -
  obtain r1 s1 where f: "fetch s = (r1, s1)" by fastforce
  from fetch_in [OF assms(2,3) f] have s1: "detail_in ident Q J s1"
    and q: "\<And>p. r1 = Inr p \<Longrightarrow> p \<in> Q" by auto
  show ?thesis
  proof (cases r1)
    case (Inl e)
    with assms(1,5) f s1 detail_in_lock(2) show ?thesis
      by (auto simp: fetch_as_owner_def Let_def)
  next
    case (Inr p)
    with q assms(4) have "detail_in ident Q J (snd (pc_SetProduct env c ident p s1))"
      by (intro detail_in_Set assms(1) s1) simp
    with assms(1,5) f Inr q detail_in_lock(2) show ?thesis
      by (auto simp: fetch_as_owner_def Let_def)
  qed
qed

lemma GetProductOrSet_in:
  assumes "pc_client c = C" and "fetches_in Q J fetch" and "detail_in ident Q J s"
    and "\<forall>p \<in> Q. p\<lparr>p_Status := [], p_Version := 0\<rparr> \<in> Q"
    and "\<forall>(g, w) \<in> set rounds. \<forall>s. detail_in ident Q J s \<longrightarrow> detail_in ident Q J (g s)"
    and "GetProductOrSet env c ident token rounds fetch s = (r, t)"
  shows "detail_in ident Q J t \<and> (\<forall>p. r = Inr p \<longrightarrow> p \<in> Q)"
proof -
  obtain r1 s1 where gp: "pc_GetProduct c ident s = (r1, s1)" by fastforce
  from GetProduct_in [OF assms(1,3) gp] have s1: "detail_in ident Q J s1"
    and hit: "\<And>p. r1 = Inr (Some p) \<Longrightarrow> p \<in> Q" by auto
  show ?thesis
  proof (cases "\<exists>p. r1 = Inr (Some p)")
    case True
    with assms(6) gp s1 hit show ?thesis by (auto simp: GetProductOrSet_def)
  next
    case False
    obtain r2 s2 where nx: "cc_SetNX C (lock_key ident) (Bytes token) lock_ttl s1 = (r2, s2)"
      by fastforce
    from detail_in_lock(1) [OF s1, of ident "Bytes token" lock_ttl] nx
    have s2: "detail_in ident Q J s2" by simp
    from False assms(1,6) gp nx have R: "(case r2 of Inl e \<Rightarrow> fetch s2
        | Inr acquired \<Rightarrow> if acquired then fetch_as_owner env c ident token fetch s2
             else wait_loop c ident fetch rounds s2) = (r, t)"
      by (auto simp: GetProductOrSet_def split: sum.splits option.splits)
    show ?thesis
    proof (cases r2)
      case (Inl e)
      with R show ?thesis using fetch_in [OF assms(2) s2] by simp
    next
      case (Inr b)
      with R show ?thesis
        using fetch_as_owner_in [OF assms(1,2) s2 assms(4)]
          wait_loop_in [OF assms(1,2,5) s2] by (cases b) auto
    qed
  qed
qed

end

end
