(* ===== verification/Product_Service.thy ===== *)
theory Product_Service
  imports Product_Repo Product_Cache
begin

section \<open>The product service\<close>

text \<open>
  \<open>internal/logic/v1\<close>: the operations behind the public catalog over a \<open>world\<close> of the
  database, its replica and the cache server, cache-aside reads included, and the aggregation of the
  detail page with its soft-failing enrichments. A missing cache or client is \<open>None\<close>, as
  the nil pointers of the source. The replica is a database of its own, which may hold anything.
\<close>

subsection \<open>The world\<close>

record world =
  w_db :: db
  w_replica :: db
  w_vk :: valkey

definition on_db :: "(db, err, 'a) action \<Rightarrow> (world, err, 'a) action" where
  "on_db m w = (case m (w_db w) of (r, d) \<Rightarrow> (r, w\<lparr>w_db := d\<rparr>))"

definition on_replica :: "(db, err, 'a) action \<Rightarrow> (world, err, 'a) action" where
  "on_replica m w = (case m (w_replica w) of (r, d) \<Rightarrow> (r, w\<lparr>w_replica := d\<rparr>))"

definition on_vk :: "(valkey, err, 'a) action \<Rightarrow> (world, err, 'a) action" where
  "on_vk m w = (case m (w_vk w) of (r, v) \<Rightarrow> (r, w\<lparr>w_vk := v\<rparr>))"

definition world_client :: "world CacheClient" where
  "world_client = \<lparr>cc_Get = (\<lambda>k. on_vk (vk_Get k)), cc_Set = (\<lambda>k v d. on_vk (vk_Set k v d)),
     cc_SetNX = (\<lambda>k v d. on_vk (vk_SetNX k v d)), cc_Delete = (\<lambda>k. on_vk (vk_Delete k)),
     cc_DeleteIfEqual = (\<lambda>k v. on_vk (vk_DeleteIfEqual k v)),
     cc_DeleteByPattern = (\<lambda>p. on_vk (vk_DeleteByPattern p))\<rparr>"

definition cached :: "world \<Rightarrow> string \<Rightarrow> payload option" where
  "cached w = vk_view (w_vk w)"

lemma on_vk_simps [simp]:
  "fst (on_vk m w) = fst (m (w_vk w))" "w_vk (snd (on_vk m w)) = snd (m (w_vk w))"
  "w_db (snd (on_vk m w)) = w_db w" "cached (snd (on_vk m w)) = vk_view (snd (m (w_vk w)))"
  by (simp_all add: on_vk_def cached_def split: prod.split)

lemma on_db_simps [simp]:
  "fst (on_db m w) = fst (m (w_db w))" "w_db (snd (on_db m w)) = snd (m (w_db w))"
  "w_vk (snd (on_db m w)) = w_vk w" "cached (snd (on_db m w)) = cached w"
  by (simp_all add: on_db_def cached_def split: prod.split)

lemma on_replica_simps [simp]:
  "fst (on_replica m w) = fst (m (w_replica w))" "w_replica (snd (on_replica m w)) = snd (m (w_replica w))"
  "w_db (snd (on_replica m w)) = w_db w" "w_vk (snd (on_replica m w)) = w_vk w"
  "cached (snd (on_replica m w)) = cached w"
  by (simp_all add: on_replica_def cached_def split: prod.split)

lemma w_replica_apart [simp]:
  "w_replica (snd (on_db m w)) = w_replica w" "w_replica (snd (on_vk n w)) = w_replica w"
  by (simp_all add: on_db_def on_vk_def split: prod.split)

lemma world_client_sel [simp]:
  "cc_Get world_client = (\<lambda>k. on_vk (vk_Get k))"
  "cc_Set world_client = (\<lambda>k v d. on_vk (vk_Set k v d))"
  "cc_SetNX world_client = (\<lambda>k v d. on_vk (vk_SetNX k v d))"
  "cc_Delete world_client = (\<lambda>k. on_vk (vk_Delete k))"
  "cc_DeleteIfEqual world_client = (\<lambda>k v. on_vk (vk_DeleteIfEqual k v))"
  "cc_DeleteByPattern world_client = (\<lambda>p. on_vk (vk_DeleteByPattern p))"
  by (simp_all add: world_client_def)

interpretation served: framed_client world_client cached w_db
proof (unfold_locales, unfold world_client_sel on_vk_simps)
  fix k p and s :: world and v :: payload and d :: int and u :: unit
  show "vk_view (snd (vk_Get k (w_vk s))) = cached s"
    using valkey.get_view [of k "w_vk s"] by (simp add: cached_def)
  show "found = cached s k" if "fst (vk_Get k (w_vk s)) = Inr found" for found
    using valkey.get_value [of k "w_vk s" found] that by (simp add: cached_def)
  show "vk_view (snd (vk_Set k v d (w_vk s))) = (cached s)(k \<mapsto> v)"
    if "fst (vk_Set k v d (w_vk s)) = Inr u"
    using valkey.set_ok [of k v d "w_vk s" u] that by (simp add: cached_def)
  show "vk_view (snd (vk_Set k v d (w_vk s))) \<in> {cached s, (cached s)(k \<mapsto> v)}"
    using valkey.set_err [of k v d "w_vk s"] by (simp add: cached_def)
  show "b = (cached s k = None) \<and> vk_view (snd (vk_SetNX k v d (w_vk s))) =
      (if b then (cached s)(k \<mapsto> v) else cached s)" if "fst (vk_SetNX k v d (w_vk s)) = Inr b" for b
    using valkey.setnx_ok [of k v d "w_vk s" b] that by (simp add: cached_def)
  show "vk_view (snd (vk_SetNX k v d (w_vk s))) = cached s \<or> (cached s k = None \<and>
      vk_view (snd (vk_SetNX k v d (w_vk s))) = (cached s)(k \<mapsto> v))"
    using valkey.setnx_err [of k v d "w_vk s"] by (simp add: cached_def)
  show "vk_view (snd (vk_Delete k (w_vk s))) = (cached s)(k := None)"
    if "fst (vk_Delete k (w_vk s)) = Inr u"
    using valkey.delete_ok [of k "w_vk s" u] that by (simp add: cached_def)
  show "vk_view (snd (vk_Delete k (w_vk s))) \<in> {cached s, (cached s)(k := None)}"
    using valkey.delete_err [of k "w_vk s"] by (simp add: cached_def)
  show "vk_view (snd (vk_DeleteIfEqual k v (w_vk s))) =
      (if cached s k = Some v then (cached s)(k := None) else cached s)"
    if "fst (vk_DeleteIfEqual k v (w_vk s)) = Inr u"
    using valkey.deleq_ok [of k v "w_vk s" u] that by (simp add: cached_def)
  show "vk_view (snd (vk_DeleteIfEqual k v (w_vk s))) \<in>
      {cached s, if cached s k = Some v then (cached s)(k := None) else cached s}"
    using valkey.deleq_err [of k v "w_vk s"] by (auto simp: cached_def split: if_splits)
  show "vk_view (snd (vk_DeleteByPattern p (w_vk s))) = (\<lambda>k. if glob p k then None else cached s k)"
    if "fst (vk_DeleteByPattern p (w_vk s)) = Inr u"
    using valkey.delpat_ok [of p "w_vk s" u] that by (simp add: cached_def fun_eq_iff)
  show "vk_view (snd (vk_DeleteByPattern p (w_vk s))) k = cached s k \<or>
      (glob p k \<and> vk_view (snd (vk_DeleteByPattern p (w_vk s))) k = None)"
    using valkey.delpat_err [of p "w_vk s" k] by (simp add: cached_def)
qed simp_all

subsection \<open>Clients of other services\<close>

record Review =
  rv_ID :: string
  rv_ProductID :: string
  rv_UserID :: string
  rv_Rating :: int
  rv_Title :: string
  rv_Comment :: string
  rv_CreatedAt :: "string option"

record Availability =
  av_Status :: string
  av_AvailableToPromise :: int

definition AvailabilityUnknown :: string where "AvailabilityUnknown = ''unknown''"

subsection \<open>The service\<close>

text \<open>
  The repository behind the service: related products are asked of the pool it was given for
  them, everything else of its first pool, which is always the one on the primary database.
\<close>

datatype db_pool = Primary | Replica

record PostgresProductRepository =
  rp_pool :: db_pool
  rp_related :: db_pool

definition NewPostgresProductRepository :: "db_pool \<Rightarrow> PostgresProductRepository" where
  "NewPostgresProductRepository pool = \<lparr>rp_pool = pool, rp_related = pool\<rparr>"

definition WithRelatedReadPool :: "db_pool option \<Rightarrow> PostgresProductRepository \<Rightarrow> PostgresProductRepository" where
  "WithRelatedReadPool pool r = (case pool of None \<Rightarrow> r | Some p \<Rightarrow> r\<lparr>rp_related := p\<rparr>)"

definition on_pool :: "db_pool \<Rightarrow> (db, err, 'a) action \<Rightarrow> (world, err, 'a) action" where
  "on_pool p m = (case p of Primary \<Rightarrow> on_db m | Replica \<Rightarrow> on_replica m)"

record ProductService =
  sv_repo :: PostgresProductRepository
  sv_cache :: "world ProductCache option"
  sv_reviews :: "(string \<Rightarrow> err + Review list) option"
  sv_availability :: "(string \<Rightarrow> err + Availability) option"

definition DefaultRelatedProductsLimit :: int where "DefaultRelatedProductsLimit = 4"

text \<open>The query behind a listing: the page, then the count.\<close>

definition query_list :: "dbenv \<Rightarrow> ProductFilters \<Rightarrow> (world, err, product list \<times> int) action" where
  "query_list env f = seq (on_db (FindAll env f)) (\<lambda>ps. seq (on_db (Count env f))
     (\<lambda>n. give (ps, n)))"

definition sv_ListProducts :: "dbenv \<Rightarrow> cache_env \<Rightarrow> ProductService \<Rightarrow> ProductFilters \<Rightarrow>
    (world, err, product list \<times> int) action" where
  "sv_ListProducts env cenv sv f = (case sv_cache sv of
       None \<Rightarrow> query_list env f
     | Some c \<Rightarrow> (\<lambda>w. case pc_GetProductList c f w of
           (Inr (Some ps, n), w1) \<Rightarrow> (Inr (ps, n), w1)
         | (_, w1) \<Rightarrow> (case query_list env f w1 of (Inl e, w2) \<Rightarrow> (Inl e, w2)
             | (Inr (ps, n), w2) \<Rightarrow> (Inr (ps, n), snd (pc_SetProductList cenv c f ps n w2)))))"

definition GetProductsByIDs :: "dbenv \<Rightarrow> string list \<Rightarrow> (world, err, product list) action" where
  "GetProductsByIDs env ids = on_db (FindByIDs env ids)"

text \<open>\<open>token\<close> and \<open>rounds\<close>: the lock token drawn and what the polling loop receives.\<close>

definition sv_GetProduct :: "dbenv \<Rightarrow> cache_env \<Rightarrow> ProductService \<Rightarrow> string \<Rightarrow> world rounds \<Rightarrow>
    string \<Rightarrow> (world, err, product) action" where
  "sv_GetProduct env cenv sv token rounds ident =
     on_err (\<lambda>e. if errors_Is e ErrNotFound then ErrProductNotFound else e)
     (case sv_cache sv of None \<Rightarrow> on_db (FindByID env ident)
      | Some c \<Rightarrow> GetProductOrSet cenv c ident token rounds (on_db (FindByID env ident)))"

definition GetRelatedProducts :: "dbenv \<Rightarrow> ProductService \<Rightarrow> string \<Rightarrow> int \<Rightarrow>
    (world, err, product list) action" where
  "GetRelatedProducts env sv productID limit =
     on_pool (rp_related (sv_repo sv)) (FindRelatedProducts env productID limit)"

definition sv_CreateProduct :: "dbenv \<Rightarrow> ProductService \<Rightarrow> CreateProductRequest \<Rightarrow>
    (world, err, product) action" where
  "sv_CreateProduct env sv req =
     (if req_Price req \<le> 0 then raise ErrInvalidPrice
      else let p = zero_product\<lparr>p_Name := req_Name req, p_Description := req_Description req,
             p_Price := req_Price req, p_Category := req_Category req\<rparr> in
        seq (on_db (Create env p)) (\<lambda>ident w.
          (Inr (p\<lparr>p_ID := ident\<rparr>), case sv_cache sv of None \<Rightarrow> w
             | Some c \<Rightarrow> snd (InvalidateProductList c w))))"

subsection \<open>The detail page\<close>

record ProductDetails =
  pd_Product :: product
  pd_RelatedProducts :: "product list option"
  pd_Reviews :: "Review list"
  pd_ReviewsTotal :: int
  pd_ReviewsAverage :: rat
  pd_Availability :: "Availability option"

fun sum_ratings :: "Review list \<Rightarrow> int \<Rightarrow> int" where
  "sum_ratings [] acc = acc"
| "sum_ratings (r # rs) acc = sum_ratings rs (wrap64 (acc + rv_Rating r))"

definition ComputeReviewsSummary :: "Review list \<Rightarrow> int \<times> rat" where
  "ComputeReviewsSummary reviews = (let n = int (length reviews) in
     if n = 0 then (0, 0)
     else (n, fl64 (fl64 (of_int (sum_ratings reviews 0)) / fl64 (of_int n))))"

definition enrichAvailability :: "ProductService \<Rightarrow> string \<Rightarrow> ProductDetails \<Rightarrow> ProductDetails" where
  "enrichAvailability sv ident d = (case sv_availability sv of None \<Rightarrow> d
     | Some fetch \<Rightarrow> (case fetch ident of
         Inl e \<Rightarrow> d\<lparr>pd_Availability := Some \<lparr>av_Status = AvailabilityUnknown,
           av_AvailableToPromise = 0\<rparr>\<rparr>
       | Inr a \<Rightarrow> d\<lparr>pd_Availability := Some a\<rparr>))"

definition add_reviews :: "ProductService \<Rightarrow> string \<Rightarrow> ProductDetails \<Rightarrow> ProductDetails" where
  "add_reviews sv ident d = (case sv_reviews sv of None \<Rightarrow> d
     | Some fetch \<Rightarrow> (case fetch ident of Inl e \<Rightarrow> d
       | Inr reviews \<Rightarrow> d\<lparr>pd_Reviews := reviews,
           pd_ReviewsTotal := fst (ComputeReviewsSummary reviews),
           pd_ReviewsAverage := snd (ComputeReviewsSummary reviews)\<rparr>))"

definition GetProductDetails :: "dbenv \<Rightarrow> cache_env \<Rightarrow> ProductService \<Rightarrow> string \<Rightarrow> world rounds \<Rightarrow>
    string \<Rightarrow> (world, err, ProductDetails) action" where
  "GetProductDetails env cenv sv token rounds ident =
     seq (sv_GetProduct env cenv sv token rounds ident) (\<lambda>p w.
       case GetRelatedProducts env sv ident DefaultRelatedProductsLimit w of (related, w1) \<Rightarrow>
       let d = \<lparr>pd_Product = p,
             pd_RelatedProducts = (case related of Inl e \<Rightarrow> None | Inr ps \<Rightarrow> Some ps),
             pd_Reviews = [], pd_ReviewsTotal = 0, pd_ReviewsAverage = 0, pd_Availability = None\<rparr>
       in (Inr (add_reviews sv ident (enrichAvailability sv ident d)), w1))"

subsection \<open>Reads of the database leave the cache alone and change only its connection\<close>

lemma quiet_on_db [simp]: "quiet cached (on_db m)"
  by (simp add: quiet_def)

lemma public_product_clear [simp]:
  "public_product s r\<lparr>p_Status := [], p_Version := 0\<rparr> = public_product s r"
  by (simp add: public_product_def zero_product_def)

text \<open>The products a healthy database would list, and their number, for some filters.\<close>

definition listing :: "dbenv \<Rightarrow> ProductFilters \<Rightarrow> db \<Rightarrow> err + product list \<times> int" where
  "listing env f d = (case fst (FindAll env f (d\<lparr>faults := []\<rparr>)) of Inl e \<Rightarrow> Inl e
     | Inr ps \<Rightarrow> (case fst (Count env f (d\<lparr>faults := []\<rparr>)) of Inl e \<Rightarrow> Inl e
         | Inr n \<Rightarrow> Inr (ps, n)))"

lemma matching_rows_faults [simp]: "matching_rows env f (s\<lparr>faults := fs\<rparr>) = matching_rows env f s"
  by (simp add: matching_rows_def)

lemma query_list_run:
  assumes "db_inv (w_db w)" and "scan_ok env" and "faults (w_db w) = []"
  shows "query_list env f w = (listing env f (w_db w), w)"
proof -
  have fs: "w_db w\<lparr>faults := []\<rparr> = w_db w" using assms(3) by (cases "w_db w") simp
  have w: "w\<lparr>w_db := w_db w\<rparr> = w" by simp
  show ?thesis
    using FindAll_run [OF assms] Count_run [OF assms(3)]
    by (simp add: query_list_def listing_def seq_def on_db_def fs w)
qed

lemma id_bound:
  assumes "db_inv s"
  shows "int (length (products s)) \<le> 2147483647"
proof -
  have "pr_id ` set (products s) \<subseteq> {1..2147483647}"
    using assms by (auto simp: db_inv_iff row_ok_def is_int4_def)
  then have "card (pr_id ` set (products s)) \<le> card {1..2147483647::int}"
    by (intro card_mono) simp_all
  moreover have "card (pr_id ` set (products s)) = length (products s)"
    using db_inv_distinct_ids [OF assms] by (metis distinct_card length_map set_map)
  ultimately show ?thesis by simp
qed

lemma listing_Inr:
  assumes "db_inv s" and "scan_ok env" and "listing env f s = Inr (ps, n)"
  shows "unmarshal_list (marshal_list ps n) = Inr (Some ps, n)"
proof -
  have inv: "db_inv (s\<lparr>faults := []\<rparr>)" using assms(1) by simp
  from assms(3) have ps: "ps = page_of (nat (page_limit f)) (nat (page_offset f))
       (map (public_product s) (matching_rows env f s))"
    and n: "n = int (length (filter (matches env f s) (products s)))"
    using FindAll_run [OF inv assms(2)] Count_run [of "s\<lparr>faults := []\<rparr>"]
    by (simp_all add: listing_def split: sum.splits if_splits)
  have "int (length (filter (matches env f s) (products s))) \<le> 2147483647"
    using id_bound [OF assms(1)] length_filter_le [of "matches env f s" "products s"] by linarith
  then have "is_int64 n" by (simp add: n is_int64_def min_int64_def max_int64_def)
  moreover have "map (\<lambda>p. p\<lparr>p_Status := [], p_Version := 0\<rparr>) ps = ps"
    by (simp add: ps page_of_map)
  ultimately show ?thesis by (simp add: unmarshal_marshal_list)
qed

text \<open>
  A cache that tells the truth about the listings for the filters \<open>F\<close>: every document under
  one of their keys is what the database would answer.
\<close>

definition truthful :: "dbenv \<Rightarrow> ProductFilters set \<Rightarrow> world \<Rightarrow> bool" where
  "truthful env F w \<longleftrightarrow> (\<forall>f \<in> F. \<forall>j. cached w (generateProductListKey f) = Some (Doc j) \<longrightarrow>
     (\<exists>ps n. unmarshal_list j = Inr (Some ps, n) \<and> listing env f (w_db w) = Inr (ps, n)))"

text \<open>Filters that share a key ask the same question.\<close>

definition keys_separate :: "dbenv \<Rightarrow> ProductFilters set \<Rightarrow> bool" where
  "keys_separate env F \<longleftrightarrow> (\<forall>f \<in> F. \<forall>g \<in> F.
     generateProductListKey f = generateProductListKey g \<longrightarrow> listing env f = listing env g)"

lemma truthful_cong:
  "cached w = cached w' \<Longrightarrow> w_db w = w_db w' \<Longrightarrow> truthful env F w = truthful env F w'"
  by (simp add: truthful_def)

lemma SetProductList_world:
  assumes "pc_client c = world_client"
  shows "w_db (snd (pc_SetProductList cenv c f ps n w)) = w_db w"
    and "cached (snd (pc_SetProductList cenv c f ps n w)) \<in> {cached w,
      (cached w)(generateProductListKey f \<mapsto> Doc (marshal_list ps n))}"
  using served.SetProductList_view(1) [OF assms, of cenv f ps n w]
    served.rest_set [of "generateProductListKey f" "Doc (marshal_list ps n)"]
  by (simp_all add: pc_SetProductList_def assms)

lemma truthful_Set:
  assumes "truthful env F w" and "keys_separate env F" and "f \<in> F"
    and "pc_client c = world_client" and "db_inv (w_db w)" and "scan_ok env"
    and "listing env f (w_db w) = Inr (ps, n)"
  shows "truthful env F (snd (pc_SetProductList cenv c f ps n w))"
proof -
  let ?w' = "snd (pc_SetProductList cenv c f ps n w)"
  have db: "w_db ?w' = w_db w" by (rule SetProductList_world [OF assms(4)])
  from SetProductList_world(2) [OF assms(4), of cenv f ps n w]
  consider "cached ?w' = cached w"
    | "cached ?w' = (cached w)(generateProductListKey f \<mapsto> Doc (marshal_list ps n))" by auto
  then show ?thesis
  proof cases
    case 1
    with assms(1) db show ?thesis using truthful_cong by blast
  next
    case 2
    have "\<exists>qs m. unmarshal_list j = Inr (Some qs, m) \<and> listing env g (w_db w) = Inr (qs, m)"
      if g: "g \<in> F" and j: "cached ?w' (generateProductListKey g) = Some (Doc j)" for g j
    proof (cases "generateProductListKey g = generateProductListKey f")
      case True
      with assms(2,3) g have "listing env g = listing env f"
        unfolding keys_separate_def by blast
      moreover from True 2 j have "j = marshal_list ps n" by simp
      ultimately show ?thesis
        using assms(7) listing_Inr [OF assms(5,6,7)] by (intro exI [of _ ps] exI [of _ n]) simp
    next
      case False
      with 2 j have "cached w (generateProductListKey g) = Some (Doc j)" by simp
      with assms(1) g show ?thesis by (simp add: truthful_def)
    qed
    then show ?thesis by (simp add: truthful_def db)
  qed
qed

lemma GetProductList_world:
  assumes "pc_client c = world_client" and "pc_GetProductList c f w = (r, w1)"
  shows "w_db w1 = w_db w" and "cached w1 = cached w"
proof -
  show "cached w1 = cached w" by (rule served.GetProductList_run [OF assms])
  obtain r1 v1 where g: "on_vk (vk_Get (generateProductListKey f)) w = (r1, v1)" by fastforce
  then have "w_db v1 = w_db w" by (metis on_vk_simps(3) snd_conv)
  with assms g show "w_db w1 = w_db w"
    by (auto simp: pc_GetProductList_def seq_def split: sum.splits option.splits)
qed

lemma truthful_hit:
  assumes "pc_client c = world_client" and "truthful env F w" and "f \<in> F"
    and "pc_GetProductList c f w = (Inr (Some ps, n), w1)"
  shows "listing env f (w_db w) = Inr (ps, n)"
proof -
  from served.GetProductList_run(2) [OF assms(1,4) refl]
  obtain j where "cached w (generateProductListKey f) = Some (Doc j)"
    and "unmarshal_list j = Inr (Some ps, n)"
    by (auto split: option.splits)
  with assms(2,3) show ?thesis by (force simp: truthful_def)
qed

lemma sv_ListProducts_truthful:
  assumes "db_inv (w_db w)" and "scan_ok env" and "faults (w_db w) = []"
    and "sv_cache sv = Some c" and "pc_client c = world_client"
    and "keys_separate env F" and "truthful env F w" and "f \<in> F"
    and "sv_ListProducts env cenv sv f w = (r, w')"
  shows "r = listing env f (w_db w) \<and> w_db w' = w_db w \<and> truthful env F w'"
proof -
  obtain r1 w1 where g: "pc_GetProductList c f w = (r1, w1)" by fastforce
  note w1 = GetProductList_world [OF assms(5) g]
  have t1: "truthful env F w1" using assms(7) w1 truthful_cong by metis
  show ?thesis
  proof (cases "\<exists>ps n. r1 = Inr (Some ps, n)")
    case True
    then obtain ps n where r1: "r1 = Inr (Some ps, n)" by blast
    with truthful_hit [OF assms(5,7,8)] g have "listing env f (w_db w) = Inr (ps, n)" by simp
    with assms(4,9) g r1 w1 t1 show ?thesis by (auto simp: sv_ListProducts_def)
  next
    case False
    have q: "query_list env f w1 = (listing env f (w_db w), w1)"
      using query_list_run [of w1 env f] assms(1-3) w1 by simp
    show ?thesis
    proof (cases "listing env f (w_db w)")
      case (Inl e)
      with False assms(4,9) g q w1 t1 show ?thesis
        by (auto simp: sv_ListProducts_def split: sum.splits option.splits)
    next
      case (Inr x)
      obtain ps n where x: "x = (ps, n)" by fastforce
      have "listing env f (w_db w1) = Inr (ps, n)" using Inr x w1 by simp
      from truthful_Set [OF t1 assms(6,8,5) _ assms(2) this] assms(1) w1
      have "truthful env F (snd (pc_SetProductList cenv c f ps n w1))" by simp
      with False assms(4,9) g q Inr x w1 SetProductList_world(1) [OF assms(5)] show ?thesis
        by (auto simp: sv_ListProducts_def split: sum.splits option.splits)
    qed
  qed
qed

end
