(* ===== verification/Price_Server.thy ===== *)
theory Price_Server
  imports Product_Service
begin

section \<open>The price authority of checkout\<close>

text \<open>
  \<open>internal/grpc/v1/server.go\<close>: the gRPC method \<open>BatchGetCurrentPrices\<close> over any reader of
  the catalog (the interface \<open>CatalogReader\<close>, here the locale \<open>catalog_reader\<close>), and its
  interpretation on the product service, which reads the database and never the cache.
\<close>

datatype rpc_code = InvalidArgument | Internal

text \<open>A response, or \<open>status.Error(code, message)\<close>.\<close>

type_synonym 'a rpc = "(rpc_code \<times> string) + 'a"

record CurrentPrice =
  cp_SkuId :: string
  cp_Name :: string
  cp_PriceMinor :: int
  cp_Currency :: string
  cp_Sellable :: bool

definition maxPriceBatch :: nat where "maxPriceBatch = 200"

definition defaultCurrency :: string where "defaultCurrency = ''USD''"

definition current_price :: "product \<Rightarrow> CurrentPrice" where
  "current_price p = \<lparr>cp_SkuId = p_ID p, cp_Name = p_Name p,
     cp_PriceMinor = minor_units (p_Price p), cp_Currency = defaultCurrency, cp_Sellable = True\<rparr>"

text \<open>What the response says of a product at a price in cents.\<close>

definition price_quote :: "string \<Rightarrow> string \<Rightarrow> int \<Rightarrow> CurrentPrice" where
  "price_quote sku name cents = \<lparr>cp_SkuId = sku, cp_Name = name, cp_PriceMinor = cents,
     cp_Currency = ''USD'', cp_Sellable = True\<rparr>"

definition BatchGetCurrentPrices :: "(string list \<Rightarrow> ('s, err, product list) action) \<Rightarrow>
    string list \<Rightarrow> 's \<Rightarrow> CurrentPrice list rpc \<times> 's" where
  "BatchGetCurrentPrices svc sku_ids s =
     (if length sku_ids = 0 then (Inl (InvalidArgument, ''sku_ids is required''), s)
      else if maxPriceBatch < length sku_ids
      then (Inl (InvalidArgument, ''too many sku_ids in one call''), s)
      else (case svc sku_ids s of
          (Inl e, s') \<Rightarrow> (Inl (Internal, ''get current prices failed''), s')
        | (Inr ps, s') \<Rightarrow> (Inr (map current_price ps), s')))"

subsection \<open>Any reader of the catalog\<close>

text \<open>
  What the server relies on: in a good state, asked for ids it accepts, the reader answers a
  set of products, each once, whose prices are doubles of storable amounts of cents.
\<close>

locale catalog_reader =
  fixes svc :: "string list \<Rightarrow> ('s, err, product list) action"
    and good :: "'s \<Rightarrow> bool" and accepts :: "string list \<Rightarrow> bool"
    and stock :: "'s \<Rightarrow> (product \<times> int) set" and names :: "string list \<Rightarrow> string \<Rightarrow> bool"
  assumes svc_good: "good s \<Longrightarrow> accepts ids \<Longrightarrow> \<exists>ps. svc ids s = (Inr ps, s) \<and>
      distinct (map p_ID ps) \<and> set ps = fst ` {x \<in> stock s. names ids (p_ID (fst x))}"
    and stock_cents: "good s \<Longrightarrow> (p, c) \<in> stock s \<Longrightarrow>
      p_Price p = price_of_cents c \<and> 0 \<le> c \<and> c \<le> max_cents"
begin

lemma prices_exact:
  assumes "good s" and "accepts ids" and "ids \<noteq> []" and "length ids \<le> maxPriceBatch"
  shows "\<exists>out. BatchGetCurrentPrices svc ids s = (Inr out, s) \<and> distinct (map cp_SkuId out) \<and>
    set out = (\<lambda>(p, c). price_quote (p_ID p) (p_Name p) c) `
      {x \<in> stock s. names ids (p_ID (fst x))}"
proof -
  from svc_good [OF assms(1,2)] obtain ps where ps: "svc ids s = (Inr ps, s)"
    "distinct (map p_ID ps)" "set ps = fst ` {x \<in> stock s. names ids (p_ID (fst x))}" by blast
  have c: "current_price (fst x) = (case x of (p, c) \<Rightarrow> price_quote (p_ID p) (p_Name p) c)"
    if "x \<in> stock s" for x
    using stock_cents [OF assms(1), of "fst x" "snd x"] that
    by (simp add: current_price_def price_quote_def defaultCurrency_def minor_units_price_of_cents
        case_prod_unfold)
  have "cp_SkuId \<circ> current_price = p_ID" by (simp add: fun_eq_iff current_price_def)
  then have "distinct (map cp_SkuId (map current_price ps))" using ps(2) by simp
  moreover have "set (map current_price ps) = (\<lambda>(p, c). price_quote (p_ID p) (p_Name p) c) `
      {x \<in> stock s. names ids (p_ID (fst x))}"
    unfolding set_map ps(3) image_image using c by (intro image_cong) auto
  moreover have "BatchGetCurrentPrices svc ids s = (Inr (map current_price ps), s)"
    using assms(3,4) ps(1) by (simp add: BatchGetCurrentPrices_def)
  ultimately show ?thesis by blast
qed

end

subsection \<open>The product service is such a reader\<close>

definition healthy :: "dbenv \<Rightarrow> world \<Rightarrow> bool" where
  "healthy env w \<longleftrightarrow> db_inv (w_db w) \<and> scan_ok env \<and> int4_arg_ok env \<and> faults (w_db w) = []"

definition readable :: "string list \<Rightarrow> bool" where
  "readable ids \<longleftrightarrow> (\<forall>x \<in> set ids. \<forall>n. Atoi x = Some n \<longrightarrow> is_int4 n)"

definition priced_rows :: "world \<Rightarrow> (product \<times> int) set" where
  "priced_rows w = (\<lambda>r. (public_product (w_db w) r, pr_price r)) ` set (products (w_db w))"

definition names_sku :: "string list \<Rightarrow> string \<Rightarrow> bool" where
  "names_sku ids sku \<longleftrightarrow> (\<exists>x \<in> set ids. \<exists>n. Atoi x = Some n \<and> sku = Itoa n)"

lemma names_sku_Itoa [simp]: "is_int64 i \<Longrightarrow> names_sku ids (Itoa i) \<longleftrightarrow> (\<exists>x \<in> set ids. Atoi x = Some i)"
  unfolding names_sku_def by (metis Atoi_Itoa option.inject Atoi_range Itoa_inject)

interpretation prices: catalog_reader "GetProductsByIDs env" "healthy env" readable priced_rows
  names_sku for env
proof
  fix s ids
  assume h: "healthy env s" and r: "readable ids"
  from h have inv: "db_inv (w_db s)" by (simp add: healthy_def)
  from h r FindByIDs_answer [of "w_db s" env ids] obtain ps where
    ps: "FindByIDs env ids (w_db s) = (Inr ps, w_db s)" "distinct (map p_ID ps)"
      "set ps = public_product (w_db s) `
        {r \<in> set (products (w_db s)). \<exists>x \<in> set ids. Atoi x = Some (pr_id r)}"
    by (auto simp: healthy_def readable_def)
  have "names_sku ids (p_ID (public_product (w_db s) r)) \<longleftrightarrow> (\<exists>x \<in> set ids. Atoi x = Some (pr_id r))"
    if "r \<in> set (products (w_db s))" for r
    using inv that by (simp add: public_product_def db_inv_iff row_ok_def is_int4_is_int64)
  then have "set ps = fst ` {x \<in> priced_rows s. names_sku ids (p_ID (fst x))}"
    unfolding ps(3) priced_rows_def image_filter image_image
    by (intro image_cong Collect_cong) auto
  with ps show "\<exists>ps. GetProductsByIDs env ids s = (Inr ps, s) \<and> distinct (map p_ID ps) \<and>
      set ps = fst ` {x \<in> priced_rows s. names_sku ids (p_ID (fst x))}"
    by (auto simp: GetProductsByIDs_def on_db_def)
next
  fix s p c
  assume "healthy env s" and "(p, c) \<in> priced_rows s"
  then show "p_Price p = price_of_cents c \<and> 0 \<le> c \<and> c \<le> max_cents"
    by (auto simp: healthy_def priced_rows_def public_product_def db_inv_iff row_ok_def)
qed

subsection \<open>Properties\<close>

text \<open>
  C19. The price authority quotes exact cents: for 1 to 200 readable ids over a healthy
  database, the response has one price for each stored product among them, of any status and
  marked sellable, whose minor units are the stored cents to the cent, whatever the cache
  holds; unknown ids are left out.
\<close>

theorem BatchGetCurrentPrices_exact:
  assumes "db_inv (w_db w)" and "scan_ok env" and "int4_arg_ok env" and "faults (w_db w) = []"
    and "ids \<noteq> []" and "length ids \<le> 200"
    and "\<forall>x \<in> set ids. \<forall>n. Atoi x = Some n \<longrightarrow> is_int4 n"
  shows "\<exists>out. BatchGetCurrentPrices (GetProductsByIDs env) ids w = (Inr out, w) \<and>
     distinct (map cp_SkuId out) \<and>
     set out = (\<lambda>r. \<lparr>cp_SkuId = Itoa (pr_id r), cp_Name = pr_name r, cp_PriceMinor = pr_price r,
         cp_Currency = ''USD'', cp_Sellable = True\<rparr>) `
       {r \<in> set (products (w_db w)). \<exists>x \<in> set ids. Atoi x = Some (pr_id r)}"
proof -
  have h: "healthy env w" and r: "readable ids"
    using assms by (simp_all add: healthy_def readable_def)
  have "names_sku ids (Itoa (pr_id r)) \<longleftrightarrow> (\<exists>x \<in> set ids. Atoi x = Some (pr_id r))"
    if "r \<in> set (products (w_db w))" for r
    using assms(1) that by (simp add: db_inv_iff row_ok_def is_int4_is_int64)
  then have "(\<lambda>(p, c). price_quote (p_ID p) (p_Name p) c) `
        {x \<in> priced_rows w. names_sku ids (p_ID (fst x))} =
      (\<lambda>r. price_quote (Itoa (pr_id r)) (pr_name r) (pr_price r)) `
       {r \<in> set (products (w_db w)). \<exists>x \<in> set ids. Atoi x = Some (pr_id r)}"
    unfolding priced_rows_def image_filter image_image
    by (intro image_cong Collect_cong) (auto simp: public_product_def)
  with prices.prices_exact [OF h r assms(5)] assms(6) show ?thesis
    by (simp add: maxPriceBatch_def price_quote_def)
qed

text \<open>
  The batch is bounded: an empty request and one of more than 200 ids are refused as
  invalid before the database is asked, and any failure below is an opaque internal error.
\<close>

theorem BatchGetCurrentPrices_refusals:
  "(ids = [] \<or> 200 < length ids \<longrightarrow>
      (\<exists>m. BatchGetCurrentPrices svc ids s = (Inl (InvalidArgument, m), s))) \<and>
   (ids \<noteq> [] \<and> length ids \<le> 200 \<longrightarrow> (\<forall>e t. svc ids s = (Inl e, t) \<longrightarrow>
      BatchGetCurrentPrices svc ids s = (Inl (Internal, ''get current prices failed''), t)))"
  by (simp add: BatchGetCurrentPrices_def maxPriceBatch_def)

theorem BatchGetCurrentPrices_exact_witness:
  "\<forall>r v. \<exists>out. BatchGetCurrentPrices (GetProductsByIDs std_env) [''3'', ''x'']
      \<lparr>w_db = sample_db, w_replica = r, w_vk = v\<rparr> = (Inr out, \<lparr>w_db = sample_db, w_replica = r, w_vk = v\<rparr>) \<and>
    set out = {\<lparr>cp_SkuId = ''3'', cp_Name = ''Cable'', cp_PriceMinor = 500, cp_Currency = ''USD'',
      cp_Sellable = True\<rparr>}"
proof (intro allI)
  fix r v
  let ?w = "\<lparr>w_db = sample_db, w_replica = r, w_vk = v\<rparr>"
  have A: "Atoi ''3'' = Some 3" "Atoi ''x'' = None" "Itoa 3 = ''3''" by code_simp+
  then have "\<forall>x \<in> set [''3'', ''x'']. \<forall>n. Atoi x = Some n \<longrightarrow> is_int4 n" by (simp add: is_int4_def)
  note e = BatchGetCurrentPrices_exact [OF _ std_scan_ok std_int4_arg_ok _ _ _ this, of ?w]
  have "{r \<in> set (products (w_db ?w)). \<exists>x \<in> set [''3'', ''x'']. Atoi x = Some (pr_id r)} =
      {sample_row 3 ''Cable'' 500 (Some 1) StatusDraft 1}" using A by auto
  with e A show "\<exists>out. BatchGetCurrentPrices (GetProductsByIDs std_env) [''3'', ''x''] ?w = (Inr out, ?w) \<and>
    set out = {\<lparr>cp_SkuId = ''3'', cp_Name = ''Cable'', cp_PriceMinor = 500, cp_Currency = ''USD'',
      cp_Sellable = True\<rparr>}"
    by (simp add: sample_db_inv) blast
qed

theorem BatchGetCurrentPrices_refusals_witness:
  "\<forall>w r v. (\<exists>m. BatchGetCurrentPrices (GetProductsByIDs std_env) (replicate 201 ''1'') w =
      (Inl (InvalidArgument, m), w)) \<and>
   BatchGetCurrentPrices (GetProductsByIDs std_env) [''1'']
      \<lparr>w_db = sample_db\<lparr>faults := [Lost]\<rparr>, w_replica = r, w_vk = v\<rparr> =
     (Inl (Internal, ''get current prices failed''), \<lparr>w_db = sample_db, w_replica = r, w_vk = v\<rparr>)"
proof (intro allI)
  fix w r v
  have "sample_db\<lparr>faults := []\<rparr> = sample_db" by (simp add: sample_db_def migrated_db_def)
  moreover have "Atoi ''1'' = Some 1" by code_simp
  ultimately have "GetProductsByIDs std_env [''1''] \<lparr>w_db = sample_db\<lparr>faults := [Lost]\<rparr>, w_replica = r, w_vk = v\<rparr> =
      (Inl DriverErr, \<lparr>w_db = sample_db, w_replica = r, w_vk = v\<rparr>)"
    by (simp add: GetProductsByIDs_def on_db_def FindByIDs_def query_def stmt_def
        List.map_filter_def)
  with BatchGetCurrentPrices_refusals [of "[''1'']" "GetProductsByIDs std_env"]
    BatchGetCurrentPrices_refusals [of "replicate 201 ''1''" "GetProductsByIDs std_env" w]
  show "(\<exists>m. BatchGetCurrentPrices (GetProductsByIDs std_env) (replicate 201 ''1'') w =
      (Inl (InvalidArgument, m), w)) \<and>
    BatchGetCurrentPrices (GetProductsByIDs std_env) [''1'']
      \<lparr>w_db = sample_db\<lparr>faults := [Lost]\<rparr>, w_replica = r, w_vk = v\<rparr> =
     (Inl (Internal, ''get current prices failed''), \<lparr>w_db = sample_db, w_replica = r, w_vk = v\<rparr>)"
    by simp
qed

end
