(* ===== verification/Service_Spec.thy ===== *)
theory Service_Spec
  imports Product_Service
begin

section \<open>What the public catalog can rely on\<close>

text \<open>
  The properties of the cache and of the service: cached listings are transparent when keys
  separate queries (and when they do, and where they do not), details come from the database,
  an unavailable cache degrades to the database, locks are released by their owner only,
  entries live as long as their TTL allows, and the detail page never fails because an
  enrichment does.
\<close>

subsection \<open>Keys\<close>

lemma or_default_eq:
  "or_default a d = or_default b d \<longleftrightarrow> a = b \<or> (a = [] \<and> b = d) \<or> (a = d \<and> b = [])"
  by (auto simp: or_default_def)

text \<open>Filters whose texts are not the placeholders of the key and do not contain the separator.\<close>

definition plain_filters :: "ProductFilters \<Rightarrow> bool" where
  "plain_filters f \<longleftrightarrow> no_US f \<and> f_Category f \<noteq> ''all'' \<and> f_Search f \<noteq> ''none'' \<and>
     is_int64 (f_Page f) \<and> is_int64 (f_Limit f)"

lemma plain_normalize:
  "plain_filters f \<Longrightarrow> no_US (normalize_filters f) \<and> is_int64 (f_Page (normalize_filters f)) \<and>
     is_int64 (f_Limit (normalize_filters f))"
  by (simp add: plain_filters_def no_US_def normalize_filters_def or_default_def US_def is_int64_def
      min_int64_def max_int64_def)

lemma page_offset_0:
  assumes "f_Page f \<in> {0, 1}" and "is_int64 (f_Limit f)" and "0 \<le> page_limit f"
  shows "page_offset f = 0"
proof -
  have l: "is_int64 (page_limit f)" "is_int64 (- page_limit f)" "is_int64 (-1)" "is_int64 0"
    using assms(2,3) by (auto simp: page_limit_def is_int64_def min_int64_def max_int64_def)
  with assms(1,3) show ?thesis by (auto simp: page_offset_def Let_def)
qed

lemma listing_cong:
  assumes "plain_filters f" and "plain_filters g" and "normalize_filters f = normalize_filters g"
  shows "listing env f = listing env g"
proof -
  from assms have c: "f_Category f = f_Category g" and s: "f_Search f = f_Search g"
    by (auto simp: plain_filters_def normalize_filters_def or_default_eq)
  from assms(3) have "or_default (f_SortBy f) ''created_at'' = or_default (f_SortBy g) ''created_at''"
    and "or_default (f_Order f) ''desc'' = or_default (f_Order g) ''desc''"
    and "(if f_Page f = 0 then 1 else f_Page f) = (if f_Page g = 0 then 1 else f_Page g)"
    and "(if f_Limit f = 0 then 20 else f_Limit f) = (if f_Limit g = 0 then 20 else f_Limit g)"
    by (simp_all add: normalize_filters_def)
  note n = this
  have lim: "page_limit f = page_limit g" using n(4) by (simp add: page_limit_def)
  have col: "sort_column_of (f_SortBy f) = sort_column_of (f_SortBy g)"
    using n(1) by (auto simp: or_default_eq sort_column_of_def)
  have "\<not> ascending ''desc''" "\<not> ascending []" by code_simp+
  then have asc: "ascending (f_Order f) = ascending (f_Order g)"
    using n(2) by (auto simp: or_default_eq)
  have le: "row_le env f = row_le env g" by (simp add: row_le_def [abs_def] col asc)
  have m: "matches env f = matches env g" by (simp add: matches_def [abs_def] c s)
  have rows: "matching_rows env f d = matching_rows env g d" for d
    by (simp add: matching_rows_def le m)
  have off: "page_offset f = page_offset g" if "0 \<le> page_limit f"
  proof (cases "f_Page f = f_Page g")
    case True
    then show ?thesis by (simp add: page_offset_def lim)
  next
    case False
    with n(3) have "f_Page f \<in> {0, 1}" "f_Page g \<in> {0, 1}" by (auto split: if_splits)
    with that assms(1,2) lim show ?thesis by (simp add: page_offset_0 plain_filters_def)
  qed
  have "FindAll env f = FindAll env g"
    using off by (cases "page_limit f < 0") (simp_all add: FindAll_def limit_offset_def lim rows)
  moreover have "Count env f = Count env g" by (simp add: Count_def m)
  ultimately show ?thesis by (intro ext) (simp only: listing_def)
qed

text \<open>
  C40. Cache keys of listings separate queries: when the digest tells the raw keys of some
  filters apart and no text of theirs contains the separator or is a placeholder, two of them
  share a cache key only if they ask the database the same question.
\<close>

theorem list_keys_separate:
  assumes "\<forall>f \<in> F. plain_filters f"
    and "inj_on (Sum256) ((\<lambda>f. raw_list_key (normalize_filters f)) ` F)"
  shows "keys_separate env F"
  unfolding keys_separate_def
proof (intro ballI impI)
  fix f g assume F: "f \<in> F" "g \<in> F"
    and k: "generateProductListKey f = generateProductListKey g"
  from k assms(2) F have "raw_list_key (normalize_filters f) = raw_list_key (normalize_filters g)"
    unfolding list_key_iff by (auto dest: inj_onD)
  with F assms(1) plain_normalize have "normalize_filters f = normalize_filters g"
    by (intro raw_list_key_inject) blast+
  with F assms(1) show "listing env f = listing env g" by (intro listing_cong) blast+
qed


text \<open>
  Where the keys do not separate: the category \<open>all\<close> shares its key with no category at
  all, so a cached unfiltered listing is served for \<open>category=all\<close>, whatever the database
  holds under that name.
\<close>

theorem category_all_served_unfiltered:
  assumes "sv_cache sv = Some c" and "pc_client c = world_client" and "vk_faults (w_vk w) = []"
    and "f_Category f = []" and "is_int64 n"
    and "cached w (generateProductListKey f) = Some (Doc (marshal_list ps n))"
  shows "fst (sv_ListProducts env cenv sv (f\<lparr>f_Category := ''all''\<rparr>) w) =
     Inr (map (\<lambda>p. p\<lparr>p_Status := [], p_Version := 0\<rparr>) ps, n)"
proof -
  let ?g = "f\<lparr>f_Category := ''all''\<rparr>"
  have "normalize_filters ?g = normalize_filters f" using assms(4) by (simp add: normalize_filters_def or_default_def)
  then have k: "generateProductListKey ?g = generateProductListKey f"
    by (simp add: generateProductListKey_def)
  have g: "fst (vk_Get (generateProductListKey f) (w_vk w)) = Inr (Some (Doc (marshal_list ps n)))"
    using assms(3,6) by (simp add: vk_Get_def command_def cached_def)
  then obtain v where "vk_Get (generateProductListKey f) (w_vk w) =
      (Inr (Some (Doc (marshal_list ps n))), v)" by (metis prod.collapse)
  then show ?thesis
    using assms(1,2,5)
    by (simp add: sv_ListProducts_def pc_GetProductList_def seq_def on_vk_def k decode_def
        unmarshal_marshal_list)
qed

subsection \<open>Details\<close>

text \<open>A set of products that contains every state an ACTIVE row with this id can have.\<close>

definition admits :: "dbenv \<Rightarrow> string \<Rightarrow> product set \<Rightarrow> db \<Rightarrow> bool" where
  "admits env ident Q d \<longleftrightarrow> db_inv d \<and> (\<forall>r \<in> set (products d). int4in env ident = Some (pr_id r) \<longrightarrow>
     pr_status r = StatusActive \<longrightarrow> public_product d r \<in> Q)"

lemma admits_faults [simp]: "admits env ident Q (d\<lparr>faults := fs\<rparr>) = admits env ident Q d"
  by (simp add: admits_def)

lemma FindByID_admits:
  assumes "scan_ok env" and "admits env ident Q d" and "FindByID env ident d = (r, t)"
  shows "admits env ident Q t \<and> (\<forall>p. r = Inr p \<longrightarrow> p \<in> Q)"
proof -
  from assms(2) have inv: "db_inv d" "db_inv (d\<lparr>faults := []\<rparr>)" by (simp_all add: admits_def)
  from FindByID_outcome [OF inv(1) assms(1,3)] obtain fs where t: "t = d\<lparr>faults := fs\<rparr>"
    and r: "r \<in> {Inl DriverErr, fst (FindByID env ident (d\<lparr>faults := []\<rparr>))}" by blast
  have "p \<in> Q" if "r = Inr p" for p
    using that r FindByID_run [OF inv(2) assms(1), of ident] assms(2)
    by (auto simp: admits_def split: option.splits dest!: find_Some_set)
  with t assms(2) show ?thesis by simp
qed

text \<open>What a cached detail may be: a document of \<open>Q\<close>.\<close>

definition detail_admitted :: "dbenv \<Rightarrow> string \<Rightarrow> product set \<Rightarrow> world \<Rightarrow> bool" where
  "detail_admitted env ident Q w \<longleftrightarrow> admits env ident Q (w_db w) \<and>
     (\<forall>j p. cached w (generateProductKey ident) = Some (Doc j) \<longrightarrow>
        unmarshal_product j = Inr p \<longrightarrow> p \<in> Q)"

lemma detail_admitted_served:
  "detail_admitted env ident Q = served.detail_in ident Q (admits env ident Q)"
  by (simp add: fun_eq_iff detail_admitted_def served.detail_in_def)

lemma GetProduct_admitted:
  assumes "scan_ok env" and "sv_cache sv = Some c" and "pc_client c = world_client"
    and "detail_admitted env ident Q w"
    and "\<forall>p \<in> Q. p_Status p = [] \<and> p_Version p = 0"
    and "\<forall>(g, ev) \<in> set rounds. \<forall>w. detail_admitted env ident Q w \<longrightarrow> detail_admitted env ident Q (g w)"
    and "sv_GetProduct env cenv sv token rounds ident w = (r, w')"
  shows "detail_admitted env ident Q w' \<and> (\<forall>p. r = Inr p \<longrightarrow> p \<in> Q)"
proof -
  have f: "served.fetches_in Q (admits env ident Q) (on_db (FindByID env ident))"
  proof -
    have "admits env ident Q (snd (FindByID env ident d)) \<and>
        (\<forall>p. fst (FindByID env ident d) = Inr p \<longrightarrow> p \<in> Q)" if "admits env ident Q d" for d
      using FindByID_admits [OF assms(1) that surjective_pairing] .
    then show ?thesis by (simp add: served.fetches_in_def)
  qed
  have q: "\<forall>p \<in> Q. p\<lparr>p_Status := [], p_Version := 0\<rparr> \<in> Q"
  proof
    fix p assume "p \<in> Q"
    moreover from this assms(5) have "p\<lparr>p_Status := [], p_Version := 0\<rparr> = p"
      by (cases p) auto
    ultimately show "p\<lparr>p_Status := [], p_Version := 0\<rparr> \<in> Q" by simp
  qed
  obtain r0 where g: "GetProductOrSet cenv c ident token rounds (on_db (FindByID env ident)) w = (r0, w')"
    and r0: "\<And>p. r = Inr p \<Longrightarrow> r0 = Inr p"
    using assms(2,7) by (auto simp: sv_GetProduct_def on_err_def split: prod.splits sum.splits)
  from served.GetProductOrSet_in [OF assms(3) f _ q _ g] assms(4,6) r0
  show ?thesis unfolding detail_admitted_served by blast
qed

text \<open>
  A detail is never invented: let \<open>Q\<close> contain what the ACTIVE row with this id is in every
  database that occurs while the request runs, and what the cache held when it began. Then
  the detail read answers a product of \<open>Q\<close> or an error, under any faults of both servers,
  any moves of other workers between its polls, and any expiry.
\<close>

theorem GetProduct_from_database:
  assumes "scan_ok env" and "sv_cache sv = Some c" and "pc_client c = world_client"
    and "detail_admitted env ident Q w"
    and "\<forall>p \<in> Q. p_Status p = [] \<and> p_Version p = 0"
    and "\<forall>(g, ev) \<in> set rounds. \<forall>w. detail_admitted env ident Q w \<longrightarrow> detail_admitted env ident Q (g w)"
    and "sv_GetProduct env cenv sv token rounds ident w = (r, w')"
  shows "detail_admitted env ident Q w' \<and> (\<forall>p. r = Inr p \<longrightarrow> p \<in> Q)"
  using assms by (rule GetProduct_admitted)

text \<open>
  C33. An unavailable cache degrades to the database: when neither the read nor the lock
  reaches the cache server, the detail read answers what the database answers, at once.
\<close>

theorem GetProduct_fails_open:
  assumes "sv_cache sv = Some c" and "pc_client c = world_client"
    and "vk_faults (w_vk w) = Lost # Lost # fs"
  shows "fst (sv_GetProduct env cenv sv token rounds ident w) =
     (case fst (FindByID env ident (w_db w)) of Inr p \<Rightarrow> Inr p
      | Inl e \<Rightarrow> Inl (if errors_Is e ErrNotFound then ErrProductNotFound else e))"
proof -
  let ?k = "generateProductKey ident"
  obtain v1 where 1: "vk_Get ?k (w_vk w) = (Inl CacheErr, v1)" and v1: "vk_faults v1 = Lost # fs"
    using assms(3) by (simp add: vk_Get_def command_def recordCacheGet_def)
  have 2: "vk_SetNX (lock_key ident) (Bytes token) lock_ttl v1 = (Inl CacheErr, v1\<lparr>vk_faults := fs\<rparr>)"
    using v1 by (simp add: vk_SetNX_def command_def)
  have "GetProductOrSet cenv c ident token rounds (on_db (FindByID env ident)) w =
      on_db (FindByID env ident) (w\<lparr>w_vk := v1\<lparr>vk_faults := fs\<rparr>\<rparr>)"
    using 1 2 assms(2)
    by (simp add: GetProductOrSet_def pc_GetProduct_def seq_def on_vk_def)
  then show ?thesis
    using assms(1)
    by (simp add: sv_GetProduct_def on_err_def on_db_def split: prod.split sum.split)
qed


subsection \<open>Time to live\<close>

lemma jitter_bounds:
  assumes "draw_ok env" and "0 < d" and "d + d div 10 \<le> max_int64"
  shows "d \<le> jitter env d \<and> jitter env d \<le> d + d div 10"
proof -
  let ?x = "draw env (d div 10 + 1)"
  have "0 < d div 10 + 1" using assms(2) by (simp add: add_nonneg_pos)
  then have "0 \<le> ?x \<and> ?x < d div 10 + 1" using assms(1) unfolding draw_ok_def by blast
  moreover from this assms(2,3) have "is_int64 (d + ?x)"
    by (simp add: is_int64_def min_int64_def)
  ultimately show ?thesis using assms(2) by (simp add: jitter_def)
qed

lemma SetProduct_lookup:
  assumes "pc_client c = valkey_client" and "vk_faults s = []" and "pc_SetProduct env c ident p s = (r, t)"
  shows "r = Inr ()" and "lookup_in now (vk_store t) (generateProductKey ident) =
    (if live now (new_entry s (Doc (marshal_product p)) (jitter env (pc_ttlDetail c)))
     then Some (new_entry s (Doc (marshal_product p)) (jitter env (pc_ttlDetail c))) else None)"
  using assms by (auto simp: pc_SetProduct_def vk_Set_def command_def store_def lookup_in_Cons)

text \<open>
  C35. Staleness is bounded: a cached detail is served for at least the configured TTL and
  for at most a tenth more, whatever the jitter drew; after that the read is a miss.
\<close>

theorem detail_ttl_window:
  assumes "pc_client c = valkey_client" and "draw_ok env" and "vk_faults s = []"
    and "0 < pc_ttlDetail c" and "pc_ttlDetail c + pc_ttlDetail c div 10 \<le> max_int64"
    and "t = (snd (pc_SetProduct env c ident p s))\<lparr>vk_now := vk_now s + d, vk_faults := []\<rparr>"
  shows "(d < pc_ttlDetail c \<longrightarrow>
       fst (pc_GetProduct c ident t) = Inr (Some (p\<lparr>p_Status := [], p_Version := 0\<rparr>))) \<and>
     (pc_ttlDetail c + pc_ttlDetail c div 10 \<le> d \<longrightarrow> fst (pc_GetProduct c ident t) = Inr None)"
proof -
  let ?k = "generateProductKey ident" and ?j = "jitter env (pc_ttlDetail c)"
  let ?e = "new_entry s (Doc (marshal_product p)) ?j"
  note jb = jitter_bounds [OF assms(2,4,5)]
  then have lv: "live (vk_now s + d) ?e = (d < ?j)"
    using assms(4) by (simp add: live_def new_entry_def deadline_def)
  have "vk_view t ?k = (if d < ?j then Some (Doc (marshal_product p)) else None)"
    using SetProduct_lookup(2) [OF assms(1,3) surjective_pairing, of "vk_now s + d" env ident p] lv
    by (simp add: assms(6) vk_view_def lookup_def)
  then have g: "fst (vk_Get ?k t) = Inr (if d < ?j then Some (Doc (marshal_product p)) else None)"
    by (simp add: vk_Get_def command_def assms(6))
  then obtain v where "vk_Get ?k t = (Inr (if d < ?j then Some (Doc (marshal_product p)) else None), v)"
    by (metis prod.collapse)
  then have "fst (pc_GetProduct c ident t) =
      Inr (if d < ?j then Some (p\<lparr>p_Status := [], p_Version := 0\<rparr>) else None)"
    by (simp add: pc_GetProduct_def seq_def assms(1) decode_def)
  with jb show ?thesis by auto
qed

subsection \<open>Invalidation\<close>

lemma command_healthy: "vk_faults s = [] \<Longrightarrow> command q s = q s"
  by (simp add: command_def)

lemma collect_healthy:
  "vk_faults s = [] \<Longrightarrow> \<exists>b' t. collect b vs s = (Inr b', t) \<and> vk_faults t = []"
proof (induction b vs arbitrary: s rule: collect.induct)
  case (1 b)
  then show ?case by simp
next
  case (2 b v vs)
  then show ?case
    by (simp add: Let_def seq_def unlink_def command_healthy remove_keys_def)
qed

lemma scan_loop_healthy:
  "vk_faults s = [] \<Longrightarrow> \<exists>t. scan_loop b ps s = (Inr (), t) \<and> vk_faults t = []"
proof (induction b ps arbitrary: s rule: scan_loop.induct)
  case (1 b)
  then show ?case by (simp add: unlink_def command_healthy remove_keys_def)
next
  case (2 b p ps)
  from collect_healthy [OF 2(2), of b p] obtain b' t where
    c: "collect b p s = (Inr b', t)" "vk_faults t = []" by blast
  from 2(1) [OF c(2)] c(1) 2(2) show ?case by (simp add: seq_def command_healthy)
qed

lemma InvalidateProductList_healthy:
  assumes "pc_client c = world_client" and "vk_faults (w_vk w) = []"
  shows "\<exists>w'. InvalidateProductList c w = (Inr (), w') \<and> w_db w' = w_db w \<and>
    vk_faults (w_vk w') = []"
proof -
  obtain t where "vk_DeleteByPattern ''product:list:*'' (w_vk w) = (Inr (), t)" "vk_faults t = []"
    using scan_loop_healthy [OF assms(2)] unfolding vk_DeleteByPattern_def by blast
  then show ?thesis by (simp add: InvalidateProductList_def assms(1) on_vk_def)
qed

lemma truthful_no_lists:
  "(\<And>f. f \<in> F \<Longrightarrow> cached w (generateProductListKey f) = None) \<Longrightarrow> truthful env F w"
  by (simp add: truthful_def)

text \<open>
  A creation shows at once: when it succeeds and the cache server is reachable, every
  cached listing is gone, so the cache is truthful for all filters whatever it held before;
  cached details whose id does not begin with \<open>list:\<close> and all locks stay.
\<close>

theorem CreateProduct_invalidates:
  assumes "sv_cache sv = Some c" and "pc_client c = world_client" and "vk_faults (w_vk w) = []"
    and "sv_CreateProduct env sv req w = (Inr p, w')"
  shows "truthful env UNIV w' \<and>
     (\<forall>ident. (\<nexists>x. ident = ''list:'' @ x) \<longrightarrow>
        cached w' (generateProductKey ident) = cached w (generateProductKey ident)) \<and>
     (\<forall>ident. cached w' (lock_key ident) = cached w (lock_key ident))"
proof -
  from assms(1,4) obtain ident w1 where
    w1: "on_db (Create env (zero_product\<lparr>p_Name := req_Name req, p_Description := req_Description req,
      p_Price := req_Price req, p_Category := req_Category req\<rparr>)) w = (Inr ident, w1)"
    and w': "w' = snd (InvalidateProductList c w1)"
    by (auto simp: sv_CreateProduct_def Let_def seq_def split: if_splits prod.splits sum.splits)
  have c1: "cached w1 = cached w" "w_vk w1 = w_vk w"
    using w1 by (metis on_db_simps(4) snd_conv, metis on_db_simps(3) snd_conv)
  from InvalidateProductList_healthy [OF assms(2), of w1] assms(3) c1
  obtain u where "InvalidateProductList c w1 = (Inr (), u)" by auto
  with w' have inv: "InvalidateProductList c w1 = (Inr (), w')" by simp
  have "cached w' = (\<lambda>k. if glob ''product:list:*'' k then None else cached w k)"
    by (rule served.InvalidateProductList_view [OF assms(2) inv, unfolded c1(1)])
  then show ?thesis
    by (auto simp: glob_product_key simp del: glob.simps intro!: truthful_no_lists)
qed

text \<open>
  Validation comes first: a creation whose price is not positive is refused, and neither
  the database nor the cache is touched.
\<close>

theorem CreateProduct_needs_price:
  assumes "req_Price req \<le> 0"
  shows "sv_CreateProduct env sv req w = (Inl ErrInvalidPrice, w)"
  using assms by (simp add: sv_CreateProduct_def)

text \<open>
  A detail key can meet a list key: the detail read of the id \<open>list:\<close> followed by the
  digest of a cached listing finds the listing under its key, decodes none of its fields, and
  answers the empty product instead of "not found".
\<close>

theorem list_id_reads_empty_product:
  assumes "pc_client c = valkey_client" and "vk_faults s = []"
    and "vk_view s (generateProductListKey f) = Some (Doc (marshal_list ps n))"
  shows "fst (pc_GetProduct c (''list:'' @ hex_encode (Sum256 (raw_list_key (normalize_filters f)))) s) =
     Inr (Some zero_product)"
proof -
  let ?id = "''list:'' @ hex_encode (Sum256 (raw_list_key (normalize_filters f)))"
  have k: "generateProductKey ?id = generateProductListKey f"
    by (simp add: generateProductKey_def generateProductListKey_def)
  have "fst (vk_Get (generateProductKey ?id) s) = Inr (Some (Doc (marshal_list ps n)))"
    unfolding k using assms(2,3) by (simp add: vk_Get_def command_def)
  then obtain v where "vk_Get (generateProductKey ?id) s = (Inr (Some (Doc (marshal_list ps n))), v)"
    by (metis prod.collapse)
  moreover have "unmarshal_product (marshal_list ps n) = Inr zero_product"
    by (simp add: marshal_list_def set_product_field_def Let_def ascii_lower_def)
  ultimately show ?thesis by (simp add: pc_GetProduct_def seq_def assms(1) decode_def)
qed

subsection \<open>The detail page\<close>

text \<open>
  C36. The detail page fails only when the product does: whatever the review and inventory
  clients answer, the page is there exactly when the product read succeeds, with that
  product; failed reviews read as none and failed availability as unknown.
\<close>

theorem GetProductDetails_soft_fails:
  shows "case sv_GetProduct env cenv sv token rounds ident w of
      (Inl e, w1) \<Rightarrow> GetProductDetails env cenv sv token rounds ident w = (Inl e, w1)
    | (Inr p, w1) \<Rightarrow> \<exists>d w2. GetProductDetails env cenv sv token rounds ident w = (Inr d, w2) \<and>
        pd_Product d = p \<and>
        (sv_reviews sv = None \<or> (\<exists>fetch e. sv_reviews sv = Some fetch \<and> fetch ident = Inl e) \<longrightarrow>
           pd_Reviews d = [] \<and> pd_ReviewsTotal d = 0 \<and> pd_ReviewsAverage d = 0) \<and>
        (\<forall>fetch e. sv_availability sv = Some fetch \<longrightarrow> fetch ident = Inl e \<longrightarrow>
           map_option av_Status (pd_Availability d) = Some AvailabilityUnknown)"
  by (auto simp: GetProductDetails_def seq_def add_reviews_def enrichAvailability_def Let_def
      split: prod.split sum.split option.split)

lemma sum_ratings_eq:
  assumes "\<forall>r \<in> set rs. 0 \<le> rv_Rating r \<and> rv_Rating r \<le> M" and "0 \<le> acc"
    and "acc + int (length rs) * M \<le> max_int64"
  shows "sum_ratings rs acc = acc + sum_list (map rv_Rating rs)"
  using assms
proof (induction rs arbitrary: acc)
  case Nil
  then show ?case by simp
next
  case (Cons r rs)
  have "0 \<le> M" using Cons.prems(1) by (meson list.set_intros(1) order_trans)
  then have m: "0 \<le> int (length rs) * M" by simp
  have r: "0 \<le> rv_Rating r" "rv_Rating r \<le> M" using Cons.prems(1) by auto
  have len: "acc + M + int (length rs) * M \<le> max_int64"
    using Cons.prems(3) by (simp add: algebra_simps)
  then have "acc + rv_Rating r \<le> max_int64" using r m by linarith
  then have "is_int64 (acc + rv_Rating r)"
    using r Cons.prems(2) by (simp add: is_int64_def min_int64_def)
  moreover have "sum_ratings rs (acc + rv_Rating r) = acc + rv_Rating r + sum_list (map rv_Rating rs)"
    using Cons.prems r len by (intro Cons.IH) auto
  ultimately show ?case by simp
qed

lemma sum_ratings_between:
  assumes "\<forall>r \<in> set rs. lo \<le> rv_Rating r \<and> rv_Rating r \<le> hi"
  shows "int (length rs) * lo \<le> sum_list (map rv_Rating rs) \<and>
    sum_list (map rv_Rating rs) \<le> int (length rs) * hi"
  using assms by (induction rs) (auto simp: algebra_simps)

text \<open>
  The average of a review summary stays within the ratings: with ratings between \<open>lo\<close>
  and \<open>hi\<close> and no more reviews than a double counts exactly, the rounded average is between
  them too, and the total is the number of reviews.
\<close>

theorem reviews_average_bounds:
  assumes "reviews \<noteq> []" and "0 \<le> lo" and "\<forall>r \<in> set reviews. lo \<le> rv_Rating r \<and> rv_Rating r \<le> hi"
    and "int (length reviews) * hi < 2 ^ 53" and "int (length reviews) < 2 ^ 53" and "hi < 2 ^ 53"
  shows "fst (ComputeReviewsSummary reviews) = int (length reviews) \<and>
     of_int lo \<le> snd (ComputeReviewsSummary reviews) \<and>
     snd (ComputeReviewsSummary reviews) \<le> of_int hi"
proof -
  let ?n = "int (length reviews)" and ?s = "sum_list (map rv_Rating reviews)"
  have n: "0 < ?n" using assms(1) by simp
  have b: "?n * lo \<le> ?s" "?s \<le> ?n * hi" using sum_ratings_between [OF assms(3)] by auto
  have s0: "0 \<le> ?s" using b(1) n assms(2) by (meson mult_nonneg_nonneg less_imp_le order_trans)
  have s53: "?s < 2 ^ 53" using b(2) assms(4) by linarith
  have lh: "lo \<le> hi" using assms(1,3) by (cases reviews) auto
  have "sum_ratings reviews 0 = ?s"
  proof -
    have "\<forall>r \<in> set reviews. 0 \<le> rv_Rating r \<and> rv_Rating r \<le> hi" using assms(2,3) by force
    moreover have "0 + ?n * hi \<le> max_int64" using assms(4) by (simp add: max_int64_def)
    ultimately show ?thesis using sum_ratings_eq [of reviews hi 0] by simp
  qed
  then have avg: "snd (ComputeReviewsSummary reviews) = fl64 (of_int ?s / of_int ?n)"
    using n fl64_of_int [OF s0 s53] fl64_of_int [of ?n] assms(5)
    by (simp add: ComputeReviewsSummary_def Let_def)
  have q: "of_int lo \<le> (of_int ?s / of_int ?n :: rat)" "(of_int ?s / of_int ?n :: rat) \<le> of_int hi"
  proof -
    have "(of_int (?n * lo) :: rat) \<le> of_int ?s" "(of_int ?s :: rat) \<le> of_int (?n * hi)"
      using b by (simp_all only: of_int_le_iff)
    then show "of_int lo \<le> (of_int ?s / of_int ?n :: rat)" "(of_int ?s / of_int ?n :: rat) \<le> of_int hi"
      using n by (simp_all add: pos_le_divide_eq pos_divide_le_eq mult.commute)
  qed
  have "of_int lo \<le> fl64 (of_int ?s / of_int ?n)"
    using assms(2,6) lh by (intro fl64_ge_int q) simp_all
  moreover have "fl64 (of_int ?s / of_int ?n) \<le> of_int hi"
    using s0 assms(6) by (intro fl64_le_int q) simp_all
  moreover have "fst (ComputeReviewsSummary reviews) = ?n"
    by (simp add: ComputeReviewsSummary_def Let_def)
  ultimately show ?thesis by (simp add: avg)
qed

subsection \<open>The properties at a concrete catalog\<close>

definition sample_cenv :: cache_env where
  "sample_cenv = \<lparr>draw = (\<lambda>n. n - 1)\<rparr>"

definition empty_vk :: valkey where
  "empty_vk = \<lparr>vk_store = [], vk_now = 0, vk_faults = [], vk_script = [], vk_hits = 0,
     vk_misses = 0, vk_errors = 0\<rparr>"

definition holding :: "string \<Rightarrow> payload \<Rightarrow> valkey" where
  "holding k v = empty_vk\<lparr>vk_store := [(k, \<lparr>ve_value = v, ve_expires = None\<rparr>)]\<rparr>"

definition sample_world :: world where
  "sample_world = \<lparr>w_db = sample_db, w_replica = sample_db, w_vk = empty_vk\<rparr>"

definition sample_cache :: "'s CacheClient \<Rightarrow> 's ProductCache" where
  "sample_cache C = \<lparr>pc_client = C, pc_ttlList = 300000000000, pc_ttlDetail = 600000000000\<rparr>"

definition sample_service :: ProductService where
  "sample_service = \<lparr>sv_repo = NewPostgresProductRepository Primary, sv_cache = Some (sample_cache world_client), sv_reviews = None,
     sv_availability = None\<rparr>"

lemma sample_sel [simp]:
  "w_db sample_world = sample_db" "w_vk sample_world = empty_vk"
  "pc_client (sample_cache C) = C" "pc_ttlDetail (sample_cache C) = 600000000000"
  "sv_cache sample_service = Some (sample_cache world_client)"
  "sv_reviews sample_service = None" "sv_availability sample_service = None"
  "vk_faults empty_vk = []" "vk_now empty_vk = 0" "vk_faults (holding k v) = []"
  by (simp_all add: sample_world_def sample_cache_def sample_service_def empty_vk_def holding_def)

lemma view_empty [simp]: "vk_view empty_vk k = None" "cached sample_world k = None"
  by (simp_all add: vk_view_def lookup_def lookup_in_def empty_vk_def cached_def sample_world_def)

lemma view_holding [simp]: "vk_view (holding k v) k' = (if k' = k then Some v else None)"
  by (simp add: vk_view_def lookup_def lookup_in_def holding_def live_def empty_vk_def)

lemma cached_holding [simp]:
  "cached (sample_world\<lparr>w_vk := holding k v\<rparr>) k' = (if k' = k then Some v else None)"
  by (simp add: cached_def)

lemma sample_draw_ok [simp]: "draw_ok sample_cenv"
  by (simp add: draw_ok_def sample_cenv_def)

lemma sample_plain: "\<forall>f \<in> {sample_filters, sample_filters\<lparr>f_Page := 0\<rparr>}. plain_filters f"
  by (simp add: plain_filters_def no_US_def sample_filters_def US_def is_int64_def min_int64_def
      max_int64_def)

lemma sample_separate: "keys_separate std_env {sample_filters}"
  by (simp add: keys_separate_def)

theorem list_keys_separate_witness:
  "keys_separate std_env {sample_filters, sample_filters\<lparr>f_Page := 0\<rparr>}"
  by (rule list_keys_separate [OF sample_plain]) (simp add: normalize_filters_def sample_filters_def)


theorem category_all_served_unfiltered_witness:
  "fst (sv_ListProducts std_env sample_cenv sample_service (sample_filters\<lparr>f_Category := ''all''\<rparr>)
     (sample_world\<lparr>w_vk := holding (generateProductListKey sample_filters)
        (Doc (marshal_list [zero_product] 1))\<rparr>)) = Inr ([zero_product], 1)"
proof -
  have z: "zero_product\<lparr>p_Status := [], p_Version := 0\<rparr> = zero_product"
    by (simp add: zero_product_def)
  show ?thesis
    by (subst category_all_served_unfiltered [where c = "sample_cache world_client" and n = 1
          and ps = "[zero_product]"])
      (simp_all add: sample_filters_def is_int64_def min_int64_def max_int64_def z)
qed

theorem GetProduct_from_database_witness:
  "\<exists>r w'. sv_GetProduct std_env sample_cenv sample_service ''t'' [(\<lambda>w. w, Ticked)] ''1'' sample_world =
     (r, w') \<and> (\<forall>p. r = Inr p \<longrightarrow>
       p = public_product sample_db (sample_row 1 ''Mouse'' 1999 (Some 1) StatusActive 2))"
proof -
  let ?p = "public_product sample_db (sample_row 1 ''Mouse'' 1999 (Some 1) StatusActive 2)"
  obtain r w' where run: "sv_GetProduct std_env sample_cenv sample_service ''t'' [(\<lambda>w. w, Ticked)]
      ''1'' sample_world = (r, w')" by fastforce
  have a: "detail_admitted std_env ''1'' {?p} sample_world"
    by (simp add: detail_admitted_def admits_def sample_db_inv)
  have "\<forall>p \<in> {?p}. p_Status p = [] \<and> p_Version p = 0"
    by (simp add: public_product_def zero_product_def)
  from GetProduct_from_database [OF std_scan_ok _ _ a this _ run, of "sample_cache world_client"] run
  show ?thesis by auto
qed

theorem GetProduct_fails_open_witness:
  "fst (sv_GetProduct std_env sample_cenv sample_service ''t'' [] ''x''
     (sample_world\<lparr>w_vk := empty_vk\<lparr>vk_faults := [Lost, Lost]\<rparr>\<rparr>)) =
   (case fst (FindByID std_env ''x'' sample_db) of Inr p \<Rightarrow> Inr p
      | Inl e \<Rightarrow> Inl (if errors_Is e ErrNotFound then ErrProductNotFound else e))"
  using GetProduct_fails_open [of sample_service "sample_cache world_client"
      "sample_world\<lparr>w_vk := empty_vk\<lparr>vk_faults := [Lost, Lost]\<rparr>\<rparr>" "[]" std_env sample_cenv "''t''" "[]" "''x''"]
  by simp


theorem detail_ttl_window_witness:
  "let s = snd (pc_SetProduct sample_cenv (sample_cache valkey_client) ''1'' zero_product empty_vk) in
   fst (pc_GetProduct (sample_cache valkey_client) ''1'' (s\<lparr>vk_now := 599999999999, vk_faults := []\<rparr>)) =
     Inr (Some zero_product) \<and>
   fst (pc_GetProduct (sample_cache valkey_client) ''1'' (s\<lparr>vk_now := 660000000000, vk_faults := []\<rparr>)) =
     Inr None"
proof -
  note w = detail_ttl_window [where c = "sample_cache valkey_client" and env = sample_cenv
      and s = empty_vk and ident = "''1''" and p = zero_product, OF _ sample_draw_ok _ _ _ refl]
  have z: "zero_product\<lparr>p_Status := [], p_Version := 0\<rparr> = zero_product"
    by (simp add: zero_product_def)
  show ?thesis
    using w [of 599999999999] w [of 660000000000] by (simp add: Let_def max_int64_def z)
qed

lemma sample_Create:
  "fst (Create std_env (zero_product\<lparr>p_Name := ''Desk'', p_Price := price_of_cents 1500\<rparr>) sample_db) =
     Inr ''5''"
proof -
  have n: "numeric2 std_env (price_of_cents 1500) = Some 1500"
    using std_numeric2_ok by (simp add: numeric2_ok_def max_cents_def)
  have i: "Itoa 5 = ''5''" by code_simp
  show ?thesis
    by (simp add: Create_def seq_def insert_product_def convert_params_def n i Let_def
        rune_count_def stmt_def is_int4_def zero_product_def)
qed

theorem CreateProduct_invalidates_witness:
  "\<exists>w'. fst (sv_CreateProduct std_env sample_service \<lparr>req_Name = ''Desk'',
      req_Price = price_of_cents 1500, req_Description = [], req_Category = []\<rparr>
      (sample_world\<lparr>w_vk := holding (generateProductListKey sample_filters) (Bytes [])\<rparr>)) =
      Inr (zero_product\<lparr>p_ID := ''5'', p_Name := ''Desk'', p_Price := price_of_cents 1500\<rparr>) \<and>
    truthful std_env UNIV w'"
proof -
  let ?req = "\<lparr>req_Name = ''Desk'', req_Price = price_of_cents 1500, req_Description = [],
      req_Category = []\<rparr>"
  let ?w = "sample_world\<lparr>w_vk := holding (generateProductListKey sample_filters) (Bytes [])\<rparr>"
  let ?p = "zero_product\<lparr>p_ID := ''5'', p_Name := ''Desk'', p_Price := price_of_cents 1500\<rparr>"
  have pos: "\<not> price_of_cents 1500 \<le> 0" by code_simp
  obtain d where "Create std_env (zero_product\<lparr>p_Name := ''Desk'', p_Price := price_of_cents 1500\<rparr>)
      sample_db = (Inr ''5'', d)" using sample_Create by (metis prod.collapse)
  moreover have "zero_product\<lparr>p_Name := ''Desk'', p_Description := [], p_Price := q, p_Category := []\<rparr> =
      zero_product\<lparr>p_Name := ''Desk'', p_Price := q\<rparr>" for q by (simp add: zero_product_def)
  ultimately have f: "fst (sv_CreateProduct std_env sample_service ?req ?w) = Inr ?p"
    using pos by (simp add: sv_CreateProduct_def Let_def seq_def on_db_def)
  then obtain w' where "sv_CreateProduct std_env sample_service ?req ?w = (Inr ?p, w')"
    by (metis prod.collapse)
  from CreateProduct_invalidates [OF _ _ _ this, of "sample_cache world_client"] f
  show ?thesis by auto
qed

theorem CreateProduct_needs_price_witness:
  "sv_CreateProduct std_env sample_service \<lparr>req_Name = ''Gift'', req_Price = 0, req_Description = [],
     req_Category = []\<rparr> sample_world = (Inl ErrInvalidPrice, sample_world)"
  by (rule CreateProduct_needs_price) simp

theorem list_id_reads_empty_product_witness:
  "fst (pc_GetProduct (sample_cache valkey_client)
     (''list:'' @ hex_encode (Sum256 (raw_list_key (normalize_filters sample_filters))))
     (holding (generateProductListKey sample_filters) (Doc (marshal_list [] 0)))) =
   Inr (Some zero_product)"
  using list_id_reads_empty_product [of "sample_cache valkey_client"
      "holding (generateProductListKey sample_filters) (Doc (marshal_list [] 0))"
      sample_filters "[]" 0]
  by simp

theorem GetProductDetails_soft_fails_witness:
  "\<exists>p d. fst (sv_GetProduct std_env sample_cenv (sample_service\<lparr>sv_cache := None,
       sv_availability := Some (\<lambda>i. Inl RpcErr)\<rparr>) ''t'' [] ''1'' sample_world) = Inr p \<and>
     fst (GetProductDetails std_env sample_cenv (sample_service\<lparr>sv_cache := None,
       sv_availability := Some (\<lambda>i. Inl RpcErr)\<rparr>) ''t'' [] ''1'' sample_world) = Inr d \<and>
     pd_Product d = p \<and> pd_Reviews d = [] \<and>
     map_option av_Status (pd_Availability d) = Some AvailabilityUnknown"
proof -
  let ?sv = "sample_service\<lparr>sv_cache := None, sv_availability := Some (\<lambda>i. Inl RpcErr)\<rparr>"
  have "fst (FindByID std_env ''1'' sample_db) =
      Inr (public_product sample_db (sample_row 1 ''Mouse'' 1999 (Some 1) StatusActive 2))"
    using FindByID_run [OF sample_db_inv std_scan_ok, of "''1''"] by simp
  then obtain p d where "FindByID std_env ''1'' sample_db = (Inr p, d)" by (metis prod.collapse)
  then have g: "sv_GetProduct std_env sample_cenv ?sv ''t'' [] ''1'' sample_world =
      (Inr p, sample_world\<lparr>w_db := d\<rparr>)"
    by (simp add: sv_GetProduct_def on_err_def on_db_def)
  from GetProductDetails_soft_fails [of std_env sample_cenv ?sv "''t''" "[]" "''1''" sample_world] g
  show ?thesis by auto
qed

definition rating :: "int \<Rightarrow> Review" where
  "rating n = \<lparr>rv_ID = [], rv_ProductID = [], rv_UserID = [], rv_Rating = n, rv_Title = [],
     rv_Comment = [], rv_CreatedAt = None\<rparr>"

theorem reviews_average_bounds_witness:
  "fst (ComputeReviewsSummary [rating 4, rating 5, rating 5]) = 3 \<and>
   4 \<le> snd (ComputeReviewsSummary [rating 4, rating 5, rating 5]) \<and>
   snd (ComputeReviewsSummary [rating 4, rating 5, rating 5]) \<le> 5"
  using reviews_average_bounds [of "[rating 4, rating 5, rating 5]" 4 5] by (simp add: rating_def)

end
