(* ===== verification/Downstream_Clients.thy ===== *)
theory Downstream_Clients
  imports Service_Spec
begin

section \<open>The clients of the review and inventory services\<close>

text \<open>
  \<open>internal/web/v1/review_client.go\<close> and \<open>inventory_client.go\<close>: the two gRPC clients behind
  the enrichments of the detail page. The remote calls are parameters; the messages are
  records of the fields whose getters the source calls.
\<close>

record review_proto =
  pb_Id :: string
  pb_ProductId :: string
  pb_UserId :: string
  pb_Rating :: int
  pb_Title :: string
  pb_Comment :: string
  pb_CreatedAt :: string

text \<open>The enumeration \<open>inventory.v1.AvailabilityStatus\<close>; a proto enum is open.\<close>

datatype availability_status = STATUS_UNSPECIFIED | STATUS_IN_STOCK | STATUS_LOW_STOCK
  | STATUS_OUT_OF_STOCK | STATUS_UNKNOWN | STATUS_OTHER int

record availability_proto =
  pb_SkuId :: string
  pb_Status :: availability_status
  pb_AvailableToPromise :: int

definition reviewFromProto :: "review_proto \<Rightarrow> Review" where
  "reviewFromProto r = \<lparr>rv_ID = pb_Id r, rv_ProductID = pb_ProductId r, rv_UserID = pb_UserId r,
     rv_Rating = pb_Rating r, rv_Title = pb_Title r, rv_Comment = pb_Comment r,
     rv_CreatedAt = (if pb_CreatedAt r \<noteq> [] then Some (pb_CreatedAt r) else None)\<rparr>"

definition GetProductReviews ::
  "(string \<Rightarrow> err + review_proto list) \<Rightarrow> string \<Rightarrow> err + Review list" where
  "GetProductReviews rpc productID = (case rpc productID of
     Inl e \<Rightarrow> Inl (Wrapf ''call review service'' e)
   | Inr protoReviews \<Rightarrow> Inr (map reviewFromProto protoReviews))"

definition availabilityStatusString :: "availability_status \<Rightarrow> string" where
  "availabilityStatusString s = (case s of STATUS_IN_STOCK \<Rightarrow> ''in_stock''
     | STATUS_LOW_STOCK \<Rightarrow> ''low_stock'' | STATUS_OUT_OF_STOCK \<Rightarrow> ''out_of_stock''
     | STATUS_UNKNOWN \<Rightarrow> AvailabilityUnknown | STATUS_UNSPECIFIED \<Rightarrow> AvailabilityUnknown
     | STATUS_OTHER _ \<Rightarrow> AvailabilityUnknown)"

text \<open>The loop over the answer: the first entry for the SKU, or unknown.\<close>

fun pick_sku :: "string \<Rightarrow> availability_proto list \<Rightarrow> Availability" where
  "pick_sku skuID [] = \<lparr>av_Status = AvailabilityUnknown, av_AvailableToPromise = 0\<rparr>"
| "pick_sku skuID (a # as) = (if pb_SkuId a = skuID
     then \<lparr>av_Status = availabilityStatusString (pb_Status a),
       av_AvailableToPromise = pb_AvailableToPromise a\<rparr>
     else pick_sku skuID as)"

definition GetAvailability ::
  "(string list \<Rightarrow> err + availability_proto list) \<Rightarrow> string \<Rightarrow> err + Availability" where
  "GetAvailability rpc skuID = (case rpc [skuID] of
     Inl e \<Rightarrow> Inl (Wrapf ''call inventory service'' e)
   | Inr as \<Rightarrow> Inr (pick_sku skuID as))"

lemma pick_sku_cases:
  "pick_sku sku as = \<lparr>av_Status = AvailabilityUnknown, av_AvailableToPromise = 0\<rparr> \<and>
     (\<forall>a \<in> set as. pb_SkuId a \<noteq> sku) \<or>
   (\<exists>a \<in> set as. pb_SkuId a = sku \<and> pick_sku sku as =
      \<lparr>av_Status = availabilityStatusString (pb_Status a),
        av_AvailableToPromise = pb_AvailableToPromise a\<rparr>)"
  by (induction as) auto

lemma availabilityStatusString_in_stock [simp]:
  "availabilityStatusString s = ''in_stock'' \<longleftrightarrow> s = STATUS_IN_STOCK"
  by (simp add: availabilityStatusString_def AvailabilityUnknown_def split: availability_status.split)

lemma availabilityStatusString_range:
  "availabilityStatusString s \<in> {''in_stock'', ''low_stock'', ''out_of_stock'', ''unknown''}"
  by (simp add: availabilityStatusString_def AvailabilityUnknown_def split: availability_status.split)

lemma GetProductDetails_availability:
  assumes "sv_availability sv = Some fetch"
    and "GetProductDetails env cenv sv token rounds ident w = (Inr d, w')"
  shows "pd_Availability d = Some (case fetch ident of
    Inl e \<Rightarrow> \<lparr>av_Status = AvailabilityUnknown, av_AvailableToPromise = 0\<rparr> | Inr a \<Rightarrow> a)"
  using assms
  by (auto simp: GetProductDetails_def seq_def add_reviews_def enrichAvailability_def Let_def
      split: prod.splits sum.splits option.splits)

lemma details_when_found:
  "sv_GetProduct env cenv sv token rounds ident w = (Inr p, w1) \<Longrightarrow>
     \<exists>d w2. GetProductDetails env cenv sv token rounds ident w = (Inr d, w2)"
  by (cases "GetRelatedProducts env sv ident DefaultRelatedProductsLimit w1")
    (simp add: GetProductDetails_def seq_def)

text \<open>
  The availability of a detail page is always one of the four documented values, and it
  says \<open>in_stock\<close> only when the inventory service answered for this very SKU that it is in
  stock; a failed call or a SKU it does not track reads as unknown.
\<close>

theorem availability_status_sound:
  assumes "sv_availability sv = Some (GetAvailability rpc)"
    and "GetProductDetails env cenv sv token rounds ident w = (Inr d, w')"
  shows "\<exists>a. pd_Availability d = Some a \<and>
     av_Status a \<in> {''in_stock'', ''low_stock'', ''out_of_stock'', ''unknown''} \<and>
     (av_Status a = ''in_stock'' \<longrightarrow> (\<exists>as m. rpc [ident] = Inr as \<and> m \<in> set as \<and>
        pb_SkuId m = ident \<and> pb_Status m = STATUS_IN_STOCK \<and>
        av_AvailableToPromise a = pb_AvailableToPromise m)) \<and>
     ((\<exists>e. rpc [ident] = Inl e) \<or> (\<exists>as. rpc [ident] = Inr as \<and> ident \<notin> pb_SkuId ` set as) \<longrightarrow>
        av_Status a = ''unknown'')"
proof (cases "rpc [ident]")
  case (Inl e)
  with GetProductDetails_availability [OF assms] show ?thesis
    by (simp add: GetAvailability_def AvailabilityUnknown_def)
next
  case (Inr as)
  with GetProductDetails_availability [OF assms]
  have a: "pd_Availability d = Some (pick_sku ident as)" by (simp add: GetAvailability_def)
  from pick_sku_cases [of ident as] show ?thesis
  proof
    assume "pick_sku ident as = \<lparr>av_Status = AvailabilityUnknown, av_AvailableToPromise = 0\<rparr> \<and>
       (\<forall>a \<in> set as. pb_SkuId a \<noteq> ident)"
    with a show ?thesis by (simp add: AvailabilityUnknown_def)
  next
    assume "\<exists>m \<in> set as. pb_SkuId m = ident \<and> pick_sku ident as =
      \<lparr>av_Status = availabilityStatusString (pb_Status m),
        av_AvailableToPromise = pb_AvailableToPromise m\<rparr>"
    then obtain m where "m \<in> set as" "pb_SkuId m = ident" "pick_sku ident as =
      \<lparr>av_Status = availabilityStatusString (pb_Status m),
        av_AvailableToPromise = pb_AvailableToPromise m\<rparr>" by blast
    with a Inr availabilityStatusString_range [of "pb_Status m"] show ?thesis
      by (intro exI [of _ "pick_sku ident as"]) auto
  qed
qed

theorem availability_status_sound_witness:
  "\<exists>d a. fst (GetProductDetails std_env sample_cenv (sample_service\<lparr>sv_cache := None,
       sv_availability := Some (GetAvailability (\<lambda>skus. Inr [\<lparr>pb_SkuId = ''2'',
         pb_Status = STATUS_IN_STOCK, pb_AvailableToPromise = 7\<rparr>]))\<rparr>) ''t'' [] ''1'' sample_world) =
       Inr d \<and> pd_Availability d = Some a \<and> av_Status a = ''unknown''"
proof -
  let ?rpc = "\<lambda>skus :: string list. Inr [\<lparr>pb_SkuId = ''2'', pb_Status = STATUS_IN_STOCK,
      pb_AvailableToPromise = 7\<rparr>] :: err + availability_proto list"
  let ?sv = "sample_service\<lparr>sv_cache := None, sv_availability := Some (GetAvailability ?rpc)\<rparr>"
  have "fst (FindByID std_env ''1'' sample_db) =
      Inr (public_product sample_db (sample_row 1 ''Mouse'' 1999 (Some 1) StatusActive 2))"
    using FindByID_run [OF sample_db_inv std_scan_ok, of "''1''"] by simp
  then obtain p d where "FindByID std_env ''1'' sample_db = (Inr p, d)" by (metis prod.collapse)
  then have "sv_GetProduct std_env sample_cenv ?sv ''t'' [] ''1'' sample_world =
      (Inr p, sample_world\<lparr>w_db := d\<rparr>)"
    by (simp add: sv_GetProduct_def on_err_def on_db_def)
  then obtain x w' where g: "GetProductDetails std_env sample_cenv ?sv ''t'' [] ''1'' sample_world =
      (Inr x, w')"
    using details_when_found by blast
  from availability_status_sound [OF _ g, of ?rpc] g show ?thesis by auto
qed

end
