(* ===== verification/Http_Public.thy ===== *)
theory Http_Public
  imports Service_Spec
begin

section \<open>HTTP: requests, replies and the public handlers\<close>

text \<open>
  What the handlers of \<open>internal/web/v1\<close> share, and \<open>handler.go\<close>, the anonymous catalog. A
  request is what the handlers ask gin for; a reply is the status and the body, or the error
  envelope of \<open>httpx.RespondError\<close>. The validator behind the \<open>binding\<close> tags and
  \<open>httpx.ParsePage\<close> and \<open>httpx.Offset\<close> are third-party code: the record \<open>web_env\<close>.
\<close>

record request =
  rq_query :: "string \<Rightarrow> string"
  rq_param :: string
  rq_body :: "json option"
  rq_length :: int
  rq_user :: "string option"
  rq_header :: "string \<Rightarrow> string"

datatype code = CodeNotFound | CodeValidation | CodeConflict | CodeInternal | Code string

text \<open>\<open>Panicked\<close>: the handler panicked; the recovery middleware answers 500.\<close>

datatype 'b reply = Answer int 'b | Failure int code string | Panicked

text \<open>The arguments of \<open>httpx.NewPaginated\<close>.\<close>

record 'a Paginated =
  pg_items :: "'a list"
  pg_page :: int
  pg_page_size :: int
  pg_total :: int

definition NewPaginated :: "'a list \<times> int \<Rightarrow> int \<Rightarrow> int \<Rightarrow> 'a Paginated" where
  "NewPaginated found page pageSize = \<lparr>pg_items = fst found, pg_page = page,
     pg_page_size = pageSize, pg_total = snd found\<rparr>"

subsection \<open>Binding a JSON body\<close>

datatype rule = Required | Max int | Min int

record web_env =
  valid_text :: "rule list \<Rightarrow> string \<Rightarrow> bool"
  valid_num :: "rule list \<Rightarrow> rat \<Rightarrow> bool"
  bind_text :: "request \<Rightarrow> string"
  ParsePage :: "request \<Rightarrow> int \<times> int"
  Offset :: "int \<Rightarrow> int \<Rightarrow> int"

text \<open>The documented rules: \<open>required\<close> refuses the zero value, \<open>max\<close> and \<open>min\<close> bound.\<close>

definition validator_ok :: "web_env \<Rightarrow> bool" where
  "validator_ok we \<longleftrightarrow>
     (\<forall>rs t. valid_text we rs t \<longleftrightarrow> (Required \<in> set rs \<longrightarrow> t \<noteq> []) \<and>
        (\<forall>n. Max n \<in> set rs \<longrightarrow> int (rune_count t) \<le> n) \<and>
        (\<forall>n. Min n \<in> set rs \<longrightarrow> n \<le> int (rune_count t))) \<and>
     (\<forall>rs q. valid_num we rs q \<longleftrightarrow> (Required \<in> set rs \<longrightarrow> q \<noteq> 0) \<and>
        (\<forall>n. Max n \<in> set rs \<longrightarrow> q \<le> of_int n) \<and> (\<forall>n. Min n \<in> set rs \<longrightarrow> of_int n \<le> q))"

text \<open>\<open>encoding/json\<close> into a struct: one setter for each tagged field.\<close>

type_synonym 'a field_table = "(string \<times> (json \<Rightarrow> 'a \<Rightarrow> err + 'a)) list"

definition text_field :: "(string \<Rightarrow> 'a \<Rightarrow> 'a) \<Rightarrow> json \<Rightarrow> 'a \<Rightarrow> err + 'a" where
  "text_field upd j r = into_string j upd r"

text \<open>A number too large for a \<open>float64\<close> is an error; others are rounded to the nearest.\<close>

definition float_field :: "(rat \<Rightarrow> 'a \<Rightarrow> 'a) \<Rightarrow> json \<Rightarrow> 'a \<Rightarrow> err + 'a" where
  "float_field upd j r = (case j of
       JNum q \<Rightarrow> if \<bar>q\<bar> < 2 ^ 1024 - 2 ^ 970 then Inr (upd (fl64 q) r) else Inl JsonErr
     | JNull \<Rightarrow> Inr r | _ \<Rightarrow> Inl JsonErr)"

definition int64_field :: "(int \<Rightarrow> 'a \<Rightarrow> 'a) \<Rightarrow> json \<Rightarrow> 'a \<Rightarrow> err + 'a" where
  "int64_field upd j r = (case j of
       JNum q \<Rightarrow> if of_int \<lfloor>q\<rfloor> = q \<and> is_int64 \<lfloor>q\<rfloor> then Inr (upd \<lfloor>q\<rfloor> r) else Inl JsonErr
     | JNull \<Rightarrow> Inr r | _ \<Rightarrow> Inl JsonErr)"

fun decode_fields :: "'a field_table \<Rightarrow> (string \<times> json) list \<Rightarrow> 'a \<Rightarrow> err + 'a" where
  "decode_fields tbl [] r = Inr r"
| "decode_fields tbl ((k, j) # kvs) r = (case map_of tbl (to_lower k) of
       None \<Rightarrow> decode_fields tbl kvs r
     | Some setter \<Rightarrow> (case setter j r of Inl e \<Rightarrow> Inl e | Inr r' \<Rightarrow> decode_fields tbl kvs r'))"

text \<open>\<open>c.ShouldBindJSON(&body)\<close>: decode into the zero value, then validate.\<close>

definition ShouldBindJSON :: "'a field_table \<Rightarrow> ('a \<Rightarrow> bool) \<Rightarrow> 'a \<Rightarrow> json option \<Rightarrow> err + 'a" where
  "ShouldBindJSON tbl valid zero body = (case body of
       Some (JObj kvs) \<Rightarrow> (case decode_fields tbl kvs zero of Inl e \<Rightarrow> Inl e
         | Inr r \<Rightarrow> if valid r then Inr r else Inl ErrInvalidInput)
     | Some JNull \<Rightarrow> if valid zero then Inr zero else Inl ErrInvalidInput
     | _ \<Rightarrow> Inl JsonErr)"

subsection \<open>The public handlers\<close>

text \<open>\<open>if v := c.Query(name); v != "" { if n, err := strconv.Atoi(v); err == nil { ... } }\<close>\<close>

definition int_query :: "request \<Rightarrow> string \<Rightarrow> int \<Rightarrow> int" where
  "int_query rq name d = (if rq_query rq name \<noteq> []
     then (case Atoi (rq_query rq name) of Some n \<Rightarrow> n | None \<Rightarrow> d) else d)"

definition list_filters :: "request \<Rightarrow> ProductFilters" where
  "list_filters rq = \<lparr>f_Category = rq_query rq ''category'', f_Search = rq_query rq ''search'',
     f_SortBy = rq_query rq ''sort'', f_Order = rq_query rq ''order'',
     f_Page = int_query rq ''page'' 0, f_Limit = int_query rq ''limit'' 0\<rparr>"

definition internal_error :: "'b reply" where
  "internal_error = Failure 500 CodeInternal ''Internal server error''"

definition http_ListProducts :: "dbenv \<Rightarrow> cache_env \<Rightarrow> ProductService \<Rightarrow> request \<Rightarrow> world \<Rightarrow>
    product Paginated reply \<times> world" where
  "http_ListProducts env cenv sv rq w = (let filters = list_filters rq in
     case sv_ListProducts env cenv sv filters w of
       (Inl e, w') \<Rightarrow> (internal_error, w')
     | (Inr found, w') \<Rightarrow>
         let page = (if f_Page filters < 1 then 1 else f_Page filters);
             pageSize = (if f_Limit filters < 1 then 20 else f_Limit filters)
         in (Answer 200 (NewPaginated found page pageSize), w'))"

definition product_failure :: "err \<Rightarrow> 'b reply" where
  "product_failure e = (if errors_Is e ErrProductNotFound
     then Failure 404 CodeNotFound ''Product not found'' else internal_error)"

definition http_GetProduct :: "dbenv \<Rightarrow> cache_env \<Rightarrow> ProductService \<Rightarrow> string \<Rightarrow> world rounds \<Rightarrow>
    request \<Rightarrow> world \<Rightarrow> product reply \<times> world" where
  "http_GetProduct env cenv sv token rounds rq w =
     (case sv_GetProduct env cenv sv token rounds (rq_param rq) w of
        (Inl e, w') \<Rightarrow> (product_failure e, w') | (Inr p, w') \<Rightarrow> (Answer 200 p, w'))"

definition create_fields :: "CreateProductRequest field_table" where
  "create_fields = [(''name'', text_field (\<lambda>v. req_Name_update (\<lambda>_. v))),
     (''price'', float_field (\<lambda>v. req_Price_update (\<lambda>_. v))),
     (''description'', text_field (\<lambda>v. req_Description_update (\<lambda>_. v))),
     (''category'', text_field (\<lambda>v. req_Category_update (\<lambda>_. v)))]"

definition valid_create :: "web_env \<Rightarrow> CreateProductRequest \<Rightarrow> bool" where
  "valid_create we r \<longleftrightarrow> valid_text we [Required] (req_Name r) \<and>
     valid_num we [Required, Min 0] (req_Price r)"

definition zero_create :: CreateProductRequest where
  "zero_create = \<lparr>req_Name = [], req_Price = 0, req_Description = [], req_Category = []\<rparr>"

definition create_failure :: "err \<Rightarrow> 'b reply" where
  "create_failure e = (if errors_Is e ErrInvalidPrice
       then Failure 400 CodeValidation ''Invalid price''
     else if errors_Is e ErrInsufficientStock
       then Failure 400 CodeValidation ''Insufficient stock''
     else internal_error)"

definition http_CreateProduct :: "dbenv \<Rightarrow> web_env \<Rightarrow> ProductService \<Rightarrow> request \<Rightarrow> world \<Rightarrow>
    product reply \<times> world" where
  "http_CreateProduct env we sv rq w =
     (case ShouldBindJSON create_fields (valid_create we) zero_create (rq_body rq) of
        Inl e \<Rightarrow> (Failure 400 CodeValidation (bind_text we rq), w)
      | Inr req \<Rightarrow> (case sv_CreateProduct env sv req w of
          (Inl e, w') \<Rightarrow> (create_failure e, w') | (Inr p, w') \<Rightarrow> (Answer 201 p, w')))"

text \<open>The \<open>gin.H\<close> of the detail page: \<open>availability\<close> only when there is one.\<close>

datatype detail_part = P_product product | P_reviews "Review list" | P_summary int rat
  | P_related "product list option" | P_availability Availability

definition details_response :: "ProductDetails \<Rightarrow> (string \<times> detail_part) list" where
  "details_response d = [(''product'', P_product (pd_Product d)),
     (''reviews'', P_reviews (pd_Reviews d)),
     (''reviews_summary'', P_summary (pd_ReviewsTotal d) (pd_ReviewsAverage d)),
     (''related_products'', P_related (pd_RelatedProducts d))] @
     (case pd_Availability d of None \<Rightarrow> [] | Some a \<Rightarrow> [(''availability'', P_availability a)])"

definition http_GetProductDetails :: "dbenv \<Rightarrow> cache_env \<Rightarrow> ProductService \<Rightarrow> string \<Rightarrow>
    world rounds \<Rightarrow> request \<Rightarrow> world \<Rightarrow> (string \<times> detail_part) list reply \<times> world" where
  "http_GetProductDetails env cenv sv token rounds rq w =
     (case GetProductDetails env cenv sv token rounds (rq_param rq) w of
        (Inl e, w') \<Rightarrow> (product_failure e, w')
      | (Inr d, w') \<Rightarrow> (Answer 200 (details_response d), w'))"

end
