(* ===== verification/Public_Spec.thy ===== *)
theory Public_Spec
  imports Http_Public Service_Spec
begin

section \<open>What a public listing says over HTTP\<close>

text \<open>
  The envelope of \<open>ProductHandler.ListProducts\<close> against the rows it carries, through the
  handler, the service, the cache and the database.
\<close>

text \<open>The page and the size the handler puts into the envelope.\<close>

definition shown_page :: "ProductFilters \<Rightarrow> int" where
  "shown_page f = (if f_Page f < 1 then 1 else f_Page f)"

text \<open>The window the database applies, when its arithmetic stays within 64 bits.\<close>

lemma page_offset_exact:
  assumes "is_int64 (f_Page f - 1)" and "is_int64 ((f_Page f - 1) * page_limit f)"
    and "0 < page_limit f"
  shows "page_offset f = (shown_page f - 1) * page_limit f"
proof -
  have "page_offset f = (let k = (f_Page f - 1) * page_limit f in if k < 0 then 0 else k)"
    by (simp add: page_offset_def assms)
  also have "\<dots> = (shown_page f - 1) * page_limit f"
  proof (cases "f_Page f < 1")
    case True
    then have "(f_Page f - 1) * page_limit f < 0" using assms(3) by (simp add: mult_less_0_iff)
    with True show ?thesis by (simp add: shown_page_def Let_def)
  next
    case False
    then have "0 \<le> (f_Page f - 1) * page_limit f" using assms(3) by simp
    with False show ?thesis by (simp add: shown_page_def Let_def)
  qed
  finally show ?thesis .
qed

text \<open>A service whose listings can be trusted: without a cache, or with a truthful one.\<close>

definition lists_truly :: "dbenv \<Rightarrow> ProductService \<Rightarrow> ProductFilters \<Rightarrow> world \<Rightarrow> bool" where
  "lists_truly env sv f w \<longleftrightarrow> db_inv (w_db w) \<and> faults (w_db w) = [] \<and>
     (\<forall>c. sv_cache sv = Some c \<longrightarrow> pc_client c = world_client \<and>
       (\<exists>F. f \<in> F \<and> keys_separate env F \<and> truthful env F w))"

lemma lists_truly_listing:
  assumes "lists_truly env sv f w" and "scan_ok env"
  shows "\<exists>w'. sv_ListProducts env cenv sv f w = (listing env f (w_db w), w') \<and> w_db w' = w_db w"
proof (cases "sv_cache sv")
  case None
  with assms show ?thesis
    by (simp add: lists_truly_def sv_ListProducts_def query_list_run)
next
  case (Some c)
  with assms(1) obtain F where F: "pc_client c = world_client" "f \<in> F" "keys_separate env F"
    "truthful env F w" by (auto simp: lists_truly_def)
  obtain r w' where s: "sv_ListProducts env cenv sv f w = (r, w')" by fastforce
  with sv_ListProducts_truthful [OF _ assms(2) _ Some F(1,3,4,2) s] assms(1) show ?thesis
    by (simp add: lists_truly_def)
qed

lemma listing_window:
  assumes "db_inv d" and "scan_ok env"
  shows "listing env f d = (if page_limit f < 0 then Inl (PgError ''2201W'')
     else Inr (page_of (nat (page_limit f)) (nat (page_offset f))
         (map (public_product d) (matching_rows env f d)),
       int (length (matching_rows env f d))))"
proof -
  have "public_product (d\<lparr>faults := []\<rparr>) = public_product d" by (rule ext) simp
  moreover have "matches env f (d\<lparr>faults := []\<rparr>) = matches env f d" by (rule ext) simp
  moreover have "db_inv (d\<lparr>faults := []\<rparr>)" using assms(1) by simp
  ultimately show ?thesis
    using FindAll_run [of "d\<lparr>faults := []\<rparr>" env f] Count_run [of "d\<lparr>faults := []\<rparr>" env f]
      length_matching_rows [OF assms(2), of f d] assms(2)
    by (simp add: listing_def)
qed

text \<open>
  C15. The envelope of a public listing tells the truth about the rows in it: for a healthy
  database and a service without a cache or with a truthful one, the reply to any query is 200
  with exactly the window of the ordered matching ACTIVE products that its page and page size
  name, and their number as the total; except that a negative limit is answered by an opaque
  500, because it reaches the database unclamped. The page and limit must not be so large that
  their product leaves 64 bits.
\<close>

theorem public_listing_envelope:
  assumes "f = list_filters rq" and "lists_truly env sv f w" and "scan_ok env"
    and "is_int64 (f_Page f - 1)" and "is_int64 ((f_Page f - 1) * page_limit f)"
  shows "\<exists>rows w'. w_db w' = w_db w \<and>
     mset rows = mset (filter (matches env f (w_db w)) (products (w_db w))) \<and>
     (sort_column_of (f_SortBy f) \<noteq> By_name \<longrightarrow> sorted_wrt (row_le env f) rows) \<and>
     http_ListProducts env cenv sv rq w =
       (if f_Limit f < 0 then Failure 500 CodeInternal ''Internal server error''
        else Answer 200 \<lparr>pg_items = page_of (nat (page_limit f))
             (nat ((shown_page f - 1) * page_limit f)) (map (public_product (w_db w)) rows),
           pg_page = shown_page f, pg_page_size = page_limit f, pg_total = int (length rows)\<rparr>, w')"
proof -
  let ?d = "w_db w" and ?rows = "matching_rows env f (w_db w)"
  have inv: "db_inv ?d" using assms(2) by (simp add: lists_truly_def)
  obtain w' where s: "sv_ListProducts env cenv sv f w = (listing env f ?d, w')" "w_db w' = ?d"
    using lists_truly_listing [OF assms(2,3)] by blast
  have l: "page_limit f < 0 \<longleftrightarrow> f_Limit f < 0" by (simp add: page_limit_def)
  have "http_ListProducts env cenv sv rq w =
       (if f_Limit f < 0 then internal_error
        else Answer 200 \<lparr>pg_items = page_of (nat (page_limit f))
             (nat ((shown_page f - 1) * page_limit f)) (map (public_product ?d) ?rows),
           pg_page = shown_page f, pg_page_size = page_limit f, pg_total = int (length ?rows)\<rparr>, w')"
  proof (cases "f_Limit f < 0")
    case True
    with s l show ?thesis
      by (simp add: http_ListProducts_def assms(1) [symmetric] Let_def listing_window [OF inv assms(3)])
  next
    case False
    then have pos: "0 < page_limit f" by (simp add: page_limit_def)
    have "(if f_Limit f < 1 then 20 else f_Limit f) = page_limit f"
      using False by (auto simp: page_limit_def)
    then show ?thesis
      using s l False page_offset_exact [OF assms(4,5) pos]
      by (simp add: http_ListProducts_def assms(1) [symmetric] Let_def NewPaginated_def
          listing_window [OF inv assms(3)] shown_page_def)
  qed
  moreover have "mset ?rows = mset (filter (matches env f ?d) (products ?d))"
    using assms(3) by (simp add: matching_rows_def scan_ok_def)
  ultimately show ?thesis
    using s(2) sorted_matching_rows [of f env ?d] by (intro exI [of _ ?rows] exI [of _ w'])
      (simp add: internal_error_def)
qed

text \<open>The second page, of one product, of the listing by price.\<close>

definition second_page :: request where
  "second_page = \<lparr>rq_query = (\<lambda>_. [])(''sort'' := ''price'', ''order'' := ''asc'',
     ''page'' := ''2'', ''limit'' := ''1''), rq_param = [], rq_body = None, rq_length = 0,
     rq_user = None, rq_header = (\<lambda>k. [])\<rparr>"

lemma second_page_filters:
  "list_filters second_page = \<lparr>f_Category = [], f_Search = [], f_SortBy = ''price'',
     f_Order = ''asc'', f_Page = 2, f_Limit = 1\<rparr>"
proof -
  have "Atoi ''2'' = Some 2" "Atoi ''1'' = Some 1" by code_simp+
  then show ?thesis by (simp add: list_filters_def second_page_def int_query_def)
qed

theorem public_listing_envelope_witness:
  "\<exists>rows w'. length rows = 2 \<and>
     http_ListProducts std_env sample_cenv (sample_service\<lparr>sv_cache := None\<rparr>) second_page sample_world =
       (Answer 200 \<lparr>pg_items = page_of 1 1 (map (public_product sample_db) rows), pg_page = 2,
          pg_page_size = 1, pg_total = 2\<rparr>, w')"
proof -
  let ?f = "list_filters second_page"
  have f: "filter (matches std_env ?f sample_db) (products sample_db) =
     [sample_row 1 ''Mouse'' 1999 (Some 1) StatusActive 2,
      sample_row 2 ''Keyboard'' 4950 (Some 1) StatusActive 1]"
    by (simp add: matches_def second_page_filters)
  have s: "shown_page ?f = 2" "page_limit ?f = 1" "f_Limit ?f = 1" "f_Page ?f = 2"
    by (simp_all add: second_page_filters shown_page_def page_limit_def)
  have "lists_truly std_env (sample_service\<lparr>sv_cache := None\<rparr>) ?f sample_world"
    by (simp add: lists_truly_def sample_db_inv)
  from public_listing_envelope [OF refl this std_scan_ok, of sample_cenv] obtain rows w' where
    m: "mset rows = mset (filter (matches std_env ?f sample_db) (products sample_db))"
    and h: "http_ListProducts std_env sample_cenv (sample_service\<lparr>sv_cache := None\<rparr>) second_page
        sample_world = (Answer 200 \<lparr>pg_items = page_of 1 1 (map (public_product sample_db) rows),
          pg_page = 2, pg_page_size = 1, pg_total = int (length rows)\<rparr>, w')"
    by (auto simp: s is_int64_def min_int64_def max_int64_def)
  have "length rows = 2" using mset_eq_length [OF m] unfolding f by simp
  with h show ?thesis by (intro exI [of _ rows] exI [of _ w']) simp
qed

end
