(* ===== verification/Admin_Repo.thy ===== *)
theory Admin_Repo
  imports Product_Repo
begin

section \<open>The operator's repository: privileged writes with their audit\<close>

text \<open>
  \<open>internal/core/repository/catalog_admin_repository.go\<close>. Every writer is one transaction
  body handed to \<open>begin_func\<close>; the body is written statement by statement, with the guard
  and the error of every early return. The row locks of \<open>FOR UPDATE\<close> are what makes a
  body run alone, which is how it is modelled here; \<open>Row_Locks\<close> takes the bodies apart and
  interleaves them.
\<close>

subsection \<open>Rows as the operator sees them\<close>

record AdminProduct =
  ap_ID :: string
  ap_Name :: string
  ap_Price :: rat
  ap_Description :: string
  ap_Category :: string
  ap_Status :: string
  ap_Version :: int

text \<open>\<open>adminProductColumns\<close> and its scan, which no stored row fails.\<close>

definition admin_product :: "db \<Rightarrow> prow \<Rightarrow> AdminProduct" where
  "admin_product s r = \<lparr>ap_ID = Itoa (pr_id r), ap_Name = pr_name r,
     ap_Price = price_of_cents (pr_price r),
     ap_Description = coalesce (pr_description r) [],
     ap_Category = coalesce (category_name s r) [],
     ap_Status = pr_status r, ap_Version = pr_version r\<rparr>"

definition scanAdminProduct :: "db \<Rightarrow> prow \<Rightarrow> err + AdminProduct" where
  "scanAdminProduct s r = Inr (admin_product s r)"

text \<open>\<open>SELECT ... FROM products p LEFT JOIN categories c ... WHERE p.id = $1\<close>\<close>

definition select_product ::
  "dbenv \<Rightarrow> (db \<Rightarrow> prow \<Rightarrow> err + 'a) \<Rightarrow> string \<Rightarrow> (db, err, 'a) action" where
  "select_product env scan ident = query (\<lambda>s. with_int4 env ident (\<lambda>n.
     first_row (scan s) (filter (\<lambda>r. pr_id r = n) (scan_order env (products s)))))"

text \<open>\<open>errors.Is(err, pgx.ErrNoRows)\<close> answers \<open>ErrNotFound\<close>; other errors are wrapped.\<close>

definition no_rows_or :: "string \<Rightarrow> err \<Rightarrow> err" where
  "no_rows_or m e = (if errors_Is e ErrNoRows then ErrNotFound else Wrapf m e)"

definition unique_or :: "string \<Rightarrow> string \<Rightarrow> string \<Rightarrow> err \<Rightarrow> err" where
  "unique_or what name m e = (if isUniqueViolation e
     then Wrapf (what @ quote name @ '' exists'') ErrConflict else Wrapf m e)"

subsection \<open>Reads\<close>

definition newest_first :: "prow \<Rightarrow> prow \<Rightarrow> bool" where
  "newest_first a b \<longleftrightarrow> pr_created_at b < pr_created_at a \<or>
     (pr_created_at a = pr_created_at b \<and> pr_id b \<le> pr_id a)"

definition status_filter :: "string \<Rightarrow> prow \<Rightarrow> bool" where
  "status_filter status r \<longleftrightarrow> (status \<noteq> [] \<longrightarrow> pr_status r = status)"

definition admin_rows :: "dbenv \<Rightarrow> string \<Rightarrow> db \<Rightarrow> prow list" where
  "admin_rows env status s =
     sort_by newest_first (filter (status_filter status) (scan_order env (products s)))"

definition ListProducts ::
  "dbenv \<Rightarrow> string \<Rightarrow> int \<Rightarrow> int \<Rightarrow> (db, err, AdminProduct list \<times> int) action" where
  "ListProducts env status limit offset =
     seq (on_err (Wrapf ''count products'')
       (query (\<lambda>s. Inr (int (length (filter (status_filter status) (products s)))))))
     (\<lambda>total. seq (on_err (Wrapf ''list products'')
       (query (\<lambda>s. limit_offset limit offset (scan_rows (scanAdminProduct s))
         (admin_rows env status s))))
     (\<lambda>items. give (items, total)))"

definition GetProduct :: "dbenv \<Rightarrow> string \<Rightarrow> (db, err, AdminProduct) action" where
  "GetProduct env ident = on_err (no_rows_or (''get product '' @ ident))
     (select_product env scanAdminProduct ident)"

subsection \<open>Product commands\<close>

record CreateProductInput =
  ci_Name :: string
  ci_Price :: rat
  ci_Description :: string
  ci_Category :: string
  ci_ActorSub :: string
  ci_RequestID :: string

definition create_audit :: "CreateProductInput \<Rightarrow> int \<Rightarrow> AuditEntry" where
  "create_audit i n = \<lparr>TargetType = ''product'', TargetID = n, Action = ''CREATE'',
     ActorSub = ci_ActorSub i, Reason = [],
     ChangedFields = [(''category'', JStr (ci_Category i)), (''name'', JStr (ci_Name i)),
       (''price'', JNum (ci_Price i))],
     VersionBefore = None, VersionAfter = Some 1, RequestID = ci_RequestID i\<rparr>"

definition create_product_tx :: "dbenv \<Rightarrow> CreateProductInput \<Rightarrow> (db, err, AdminProduct) action" where
  "create_product_tx env i =
     seq (on_err (unique_or ''a product named '' (ci_Name i) ''insert product'')
       (stmt (insert_product env (ci_Name i) (ci_Description i) (ci_Price i) (ci_Category i)
         StatusDraft)))
     (\<lambda>n. seq (insertAudit (create_audit i n))
     (\<lambda>_. on_err (Wrapf ''read back product'') (select_product env scanAdminProduct (Itoa n))))"

definition CreateProduct :: "dbenv \<Rightarrow> CreateProductInput \<Rightarrow> (db, err, AdminProduct) action" where
  "CreateProduct env i = begin_func (create_product_tx env i)"

record UpdateProductInput =
  ui_ID :: string
  ui_Name :: string
  ui_Price :: rat
  ui_Description :: string
  ui_Category :: string
  ui_ExpectedVersion :: int
  ui_ActorSub :: string
  ui_Reason :: string
  ui_RequestID :: string

text \<open>One entry of \<open>changed\<close>: the field when it differs (JSON objects list keys in order).\<close>

definition diff_field :: "string \<Rightarrow> ('a \<Rightarrow> json) \<Rightarrow> 'a \<Rightarrow> 'a \<Rightarrow> (string \<times> json) list" where
  "diff_field key j before after = (if before \<noteq> after
     then [(key, JObj [(''after'', j after), (''before'', j before)])] else [])"

definition update_changed :: "AdminProduct \<Rightarrow> UpdateProductInput \<Rightarrow> (string \<times> json) list" where
  "update_changed before i =
     diff_field ''category'' JStr (ap_Category before) (ui_Category i) @
     diff_field ''description'' JStr (ap_Description before) (ui_Description i) @
     diff_field ''name'' JStr (ap_Name before) (ui_Name i) @
     diff_field ''price'' JNum (ap_Price before) (ui_Price i)"

text \<open>\<open>id, _ := strconv.Atoi(in.ID)\<close>: zero when the text is no Go integer.\<close>

definition audit_target :: "string \<Rightarrow> int" where
  "audit_target ident = (case Atoi ident of None \<Rightarrow> 0 | Some n \<Rightarrow> n)"

definition update_audit :: "UpdateProductInput \<Rightarrow> AdminProduct \<Rightarrow> AuditEntry" where
  "update_audit i before = \<lparr>TargetType = ''product'', TargetID = audit_target (ui_ID i),
     Action = ''UPDATE'', ActorSub = ui_ActorSub i, Reason = ui_Reason i,
     ChangedFields = update_changed before i,
     VersionBefore = Some (ap_Version before),
     VersionAfter = Some (wrap64 (ap_Version before + 1)), RequestID = ui_RequestID i\<rparr>"

definition update_row :: "UpdateProductInput \<Rightarrow> int \<Rightarrow> int option \<Rightarrow> int \<Rightarrow> prow \<Rightarrow> prow" where
  "update_row i c cid tm r = r\<lparr>pr_name := ui_Name i, pr_description := Some (ui_Description i),
     pr_price := c, pr_category_id := cid, pr_version := pr_version r + 1, pr_updated_at := tm\<rparr>"

definition update_stmt :: "dbenv \<Rightarrow> UpdateProductInput \<Rightarrow> (db, err, nat) action" where
  "update_stmt env i s = (case convert_params env (ui_Name i) (ui_Price i) of
       Inl e \<Rightarrow> (Inl e, s)
     | Inr c \<Rightarrow> (case int4in env (ui_ID i) of None \<Rightarrow> (Inl (PgError ''22P02''), s)
       | Some n \<Rightarrow> update_products (\<lambda>r. pr_id r = n \<and> pr_version r = ui_ExpectedVersion i)
           (update_row i c (category_id_of s (ui_Category i)) (clock s)) s))"

definition update_product_tx :: "dbenv \<Rightarrow> UpdateProductInput \<Rightarrow> (db, err, AdminProduct) action" where
  "update_product_tx env i =
     seq (on_err (no_rows_or ''read product for update'')
       (select_product env scanAdminProduct (ui_ID i)))
     (\<lambda>before. if ap_Version before \<noteq> ui_ExpectedVersion i
        then raise (Wrapf (''have version '' @ Itoa (ap_Version before) @ '', sent '' @
          Itoa (ui_ExpectedVersion i)) ErrVersionConflict)
        else seq (on_err (unique_or ''a product named '' (ui_Name i) ''update product'')
          (stmt (update_stmt env i)))
     (\<lambda>affected. if affected = 0 then raise ErrVersionConflict
        else seq (insertAudit (update_audit i before))
     (\<lambda>_. on_err (Wrapf ''read back product'')
        (select_product env scanAdminProduct (ui_ID i)))))"

definition UpdateProduct :: "dbenv \<Rightarrow> UpdateProductInput \<Rightarrow> (db, err, AdminProduct) action" where
  "UpdateProduct env i = begin_func (update_product_tx env i)"

record TransitionInput =
  ti_ID :: string
  ti_Action :: string
  ti_ActorSub :: string
  ti_Reason :: string
  ti_RequestID :: string

definition scan_state :: "db \<Rightarrow> prow \<Rightarrow> err + (string \<times> int)" where
  "scan_state s r = Inr (pr_status r, pr_version r)"

definition transition_audit ::
  "TransitionInput \<Rightarrow> string \<Rightarrow> string \<Rightarrow> int \<Rightarrow> AuditEntry" where
  "transition_audit i current nxt v = \<lparr>TargetType = ''product'',
     TargetID = audit_target (ti_ID i), Action = ti_Action i, ActorSub = ti_ActorSub i,
     Reason = ti_Reason i,
     ChangedFields = [(''status'', JObj [(''after'', JStr nxt), (''before'', JStr current)])],
     VersionBefore = Some v, VersionAfter = Some (wrap64 (v + 1)), RequestID = ti_RequestID i\<rparr>"

definition move_row :: "string \<Rightarrow> int \<Rightarrow> prow \<Rightarrow> prow" where
  "move_row nxt tm r = r\<lparr>pr_status := nxt, pr_version := pr_version r + 1, pr_updated_at := tm\<rparr>"

definition transition_stmt :: "dbenv \<Rightarrow> string \<Rightarrow> string \<Rightarrow> (db, err, nat) action" where
  "transition_stmt env ident nxt s = (case int4in env ident of
       None \<Rightarrow> (Inl (PgError ''22P02''), s)
     | Some n \<Rightarrow> update_products (\<lambda>r. pr_id r = n) (move_row nxt (clock s)) s)"

definition apply_transition ::
  "dbenv \<Rightarrow> TransitionInput \<Rightarrow> string \<Rightarrow> int \<Rightarrow> (db, err, AdminProduct) action" where
  "apply_transition env i current version =
     (case NextStatus current (ti_Action i) of Inl e \<Rightarrow> raise e
      | Inr nxt \<Rightarrow> seq (on_err (Wrapf ''apply transition'') (stmt (transition_stmt env (ti_ID i) nxt)))
     (\<lambda>_. seq (insertAudit (transition_audit i current nxt version))
     (\<lambda>_. on_err (Wrapf ''read back product'')
        (select_product env scanAdminProduct (ti_ID i)))))"

definition transition_tx :: "dbenv \<Rightarrow> TransitionInput \<Rightarrow> (db, err, AdminProduct) action" where
  "transition_tx env i =
     seq (on_err (no_rows_or ''read product for transition'')
       (select_product env scan_state (ti_ID i)))
     (\<lambda>row. apply_transition env i (fst row) (snd row))"

definition Transition :: "dbenv \<Rightarrow> TransitionInput \<Rightarrow> (db, err, AdminProduct) action" where
  "Transition env i = begin_func (transition_tx env i)"

subsection \<open>Categories\<close>

definition scan_category :: "crow \<Rightarrow> category" where
  "scan_category r = \<lparr>c_ID = cr_id r, c_Name = cr_name r,
     c_Description = coalesce (cr_description r) [], c_CreatedAt = cr_created_at r,
     c_UpdatedAt = cr_updated_at r\<rparr>"

definition by_name_le :: "dbenv \<Rightarrow> crow \<Rightarrow> crow \<Rightarrow> bool" where
  "by_name_le env a b = name_le env (cr_name a) (cr_name b)"

definition ListCategories :: "dbenv \<Rightarrow> int \<Rightarrow> int \<Rightarrow> (db, err, category list \<times> int) action" where
  "ListCategories env limit offset =
     seq (on_err (Wrapf ''count categories'') (query (\<lambda>s. Inr (int (length (categories s))))))
     (\<lambda>total. seq (on_err (Wrapf ''list categories'')
       (query (\<lambda>s. limit_offset limit offset (\<lambda>rows. Inr (map scan_category rows))
         (sort_by (by_name_le env) (categories s)))))
     (\<lambda>out. give (out, total)))"

definition category_audit ::
  "string \<Rightarrow> int \<Rightarrow> string \<Rightarrow> string \<Rightarrow> (string \<times> json) list \<Rightarrow> AuditEntry" where
  "category_audit action cid actorSub requestID changed = \<lparr>TargetType = ''category'',
     TargetID = cid, Action = action, ActorSub = actorSub, Reason = [], ChangedFields = changed,
     VersionBefore = None, VersionAfter = None, RequestID = requestID\<rparr>"

definition create_category_tx ::
  "string \<Rightarrow> string \<Rightarrow> string \<Rightarrow> string \<Rightarrow> (db, err, category) action" where
  "create_category_tx name desc actorSub requestID =
     seq (on_err (unique_or ''category '' name ''insert category'')
       (stmt (insert_category name desc)))
     (\<lambda>row. seq (insertAudit (category_audit ''CREATE'' (cr_id row) actorSub requestID
        [(''description'', JStr desc), (''name'', JStr name)]))
     (\<lambda>_. give (scan_category row)))"

definition CreateCategory ::
  "string \<Rightarrow> string \<Rightarrow> string \<Rightarrow> string \<Rightarrow> (db, err, category) action" where
  "CreateCategory name desc actorSub requestID =
     begin_func (create_category_tx name desc actorSub requestID)"

definition select_category :: "dbenv \<Rightarrow> int \<Rightarrow> (db, err, crow) action" where
  "select_category env cid = query (\<lambda>s. if \<not> int4_arg env cid then Inl (PgError ''22003'')
     else first_row Inr (filter (\<lambda>r. cr_id r = cid) (categories s)))"

definition category_changed :: "crow \<Rightarrow> string \<Rightarrow> string \<Rightarrow> (string \<times> json) list" where
  "category_changed before name desc =
     diff_field ''description'' JStr (coalesce (cr_description before) []) desc @
     diff_field ''name'' JStr (cr_name before) name"

definition update_category_tx ::
  "dbenv \<Rightarrow> int \<Rightarrow> string \<Rightarrow> string \<Rightarrow> string \<Rightarrow> string \<Rightarrow> (db, err, category) action" where
  "update_category_tx env cid name desc actorSub requestID =
     seq (on_err (no_rows_or ''read category for update'') (select_category env cid))
     (\<lambda>before. seq (on_err (unique_or ''category '' name ''update category'')
        (stmt (update_category_row cid name desc)))
     (\<lambda>row. seq (insertAudit (category_audit ''UPDATE'' cid actorSub requestID
        (category_changed before name desc)))
     (\<lambda>_. give (scan_category row))))"

definition UpdateCategory ::
  "dbenv \<Rightarrow> int \<Rightarrow> string \<Rightarrow> string \<Rightarrow> string \<Rightarrow> string \<Rightarrow> (db, err, category) action" where
  "UpdateCategory env cid name desc actorSub requestID =
     begin_func (update_category_tx env cid name desc actorSub requestID)"

subsection \<open>The audit history\<close>

record AuditRow =
  au_ID :: int
  au_Action :: string
  au_ActorSub :: string
  au_Reason :: string
  au_ChangedFields :: "(string \<times> json) list"
  au_VersionBefore :: "int option"
  au_VersionAfter :: "int option"
  au_CreatedAt :: int

text \<open>\<open>json.Unmarshal(raw, &a.ChangedFields)\<close>, its error ignored.\<close>

fun unmarshal_changed :: "json option \<Rightarrow> (string \<times> json) list" where
  "unmarshal_changed (Some (JObj kvs)) = kvs"
| "unmarshal_changed _ = []"

definition scan_audit :: "arow \<Rightarrow> AuditRow" where
  "scan_audit a = \<lparr>au_ID = ar_id a, au_Action = ar_action a, au_ActorSub = ar_actor_sub a,
     au_Reason = coalesce (ar_reason a) [],
     au_ChangedFields = unmarshal_changed (ar_changed_fields a),
     au_VersionBefore = ar_version_before a, au_VersionAfter = ar_version_after a,
     au_CreatedAt = ar_created_at a\<rparr>"

definition audit_newest_first :: "arow \<Rightarrow> arow \<Rightarrow> bool" where
  "audit_newest_first a b \<longleftrightarrow> ar_created_at b < ar_created_at a \<or>
     (ar_created_at a = ar_created_at b \<and> ar_id b \<le> ar_id a)"

definition ListAudit ::
  "dbenv \<Rightarrow> string \<Rightarrow> int \<Rightarrow> int \<Rightarrow> (db, err, AuditRow list) action" where
  "ListAudit env targetType targetID limit =
     on_err (Wrapf (''list audit for '' @ targetType @ CHR '' '' # Itoa targetID))
     (query (\<lambda>s. if \<not> int4_arg env targetID then Inl (PgError ''22003'')
       else limit_offset limit 0 (\<lambda>rows. Inr (map scan_audit rows))
         (sort_by audit_newest_first
           (filter (\<lambda>a. ar_target_type a = targetType \<and> ar_target_id a = targetID) (audits s)))))"

end
