(* ===== verification/Audit_Trail.thy ===== *)
theory Audit_Trail
  imports Admin_Repo
begin

section \<open>What a privileged write does, and the trail it leaves\<close>

text \<open>
  The effect of each transaction of \<open>Admin_Repo\<close> on the tables, the abstract steps
  (\<open>catalog_step\<close>) the transactions refine, the histories of operator commands with
  arbitrary faults, and the audit trail: for every product the audit rows number its
  versions without a gap and replay its lifecycle.
\<close>

text \<open>The row \<open>insertAudit\<close> stores for an entry.\<close>

definition audit_of :: "AuditEntry \<Rightarrow> int \<Rightarrow> int \<Rightarrow> arow" where
  "audit_of e aid tm = audit_row e (changed_json e) aid tm"

lemma audit_of_sel [simp]:
  "ar_id (audit_of e i tm) = i" "ar_target_type (audit_of e i tm) = TargetType e"
  "ar_target_id (audit_of e i tm) = TargetID e" "ar_action (audit_of e i tm) = Action e"
  "ar_version_before (audit_of e i tm) = VersionBefore e"
  "ar_version_after (audit_of e i tm) = VersionAfter e"
  "ar_actor_sub (audit_of e i tm) = ActorSub e"
  "ar_request_id (audit_of e i tm) = nullif_empty (RequestID e)"
  "ar_changed_fields (audit_of e i tm) = changed_json e"
  "ar_created_at (audit_of e i tm) = tm"
  by (simp_all add: audit_of_def)

subsection \<open>Statements that succeeded\<close>

lemma admin_product_cong:
  "categories s = categories t \<Longrightarrow> admin_product s = admin_product t"
  by (simp add: admin_product_def fun_eq_iff category_name_cong [of s t])

lemma admin_product_faults [simp]: "admin_product (s\<lparr>faults := fs\<rparr>) = admin_product s"
  by (rule admin_product_cong) simp

lemma admin_product_sel [simp]:
  "ap_ID (admin_product s r) = Itoa (pr_id r)" "ap_Name (admin_product s r) = pr_name r"
  "ap_Price (admin_product s r) = price_of_cents (pr_price r)"
  "ap_Status (admin_product s r) = pr_status r" "ap_Version (admin_product s r) = pr_version r"
  by (simp_all add: admin_product_def)

lemma category_id_of_cong:
  "categories s = categories t \<Longrightarrow> category_id_of s n = category_id_of t n"
  by (simp add: category_id_of_def)

lemma select_product_InrD:
  assumes "scan_ok env" and "select_product env scan ident s = (Inr v, t)"
  obtains fs n r where "t = s\<lparr>faults := fs\<rparr>" "int4in env ident = Some n"
    "r \<in> set (products s)" "pr_id r = n" "scan t r = Inr v"
proof -
  obtain fs where t: "t = s\<lparr>faults := fs\<rparr>"
    and w: "with_int4 env ident (\<lambda>n. first_row (scan t)
      (filter (\<lambda>r. pr_id r = n) (scan_order env (products t)))) = Inr v"
    using assms(2) unfolding select_product_def by (blast dest: query_InrD)
  from w obtain n where n: "int4in env ident = Some n"
    and f: "first_row (scan t) (filter (\<lambda>r. pr_id r = n) (scan_order env (products t))) = Inr v"
    by (auto simp: with_int4_def split: option.splits)
  from f obtain r rs where "filter (\<lambda>r. pr_id r = n) (scan_order env (products t)) = r # rs"
    and sc: "scan t r = Inr v"
    by (auto simp: first_row_def split: list.splits)
  then have "r \<in> set (filter (\<lambda>r. pr_id r = n) (scan_order env (products t)))" by simp
  then have "r \<in> set (products s)" "pr_id r = n"
    using set_scan_order [OF assms(1)] t by auto
  with that t n sc show ?thesis by blast
qed

lemma insertAudit_InrD:
  assumes "insertAudit e s = (Inr u, t)"
  shows "products t = products s \<and> categories t = categories s \<and> clock t = clock s \<and>
    audits t = audits s @ [audit_of e (next_aid s) (clock s)] \<and>
    is_int4 (TargetID e) \<and> (TargetType e = ''product'' \<or> TargetType e = ''category'') \<and>
    next_pid t = next_pid s \<and> next_cid t = next_cid s \<and> next_aid t = next_aid s + 1"
  using assms unfolding insertAudit_def audit_of_def
  by (auto simp: insert_audit_row_def Let_def split: if_splits dest!: stmt_InrD)

lemma update_products_InrD:
  assumes "update_products P f s = (Inr k, t)"
  shows "t = s\<lparr>products := map (\<lambda>r. if P r then f r else r) (products s)\<rparr> \<and>
    k = length (filter P (products s)) \<and> distinct (map pr_name (products t)) \<and>
    (\<forall>r \<in> set (products t). 0 \<le> pr_price r \<and> pr_version r \<le> max_int64)"
  using assms by (auto simp: update_products_def Let_def list_all_iff split: if_splits)

lemma update_category_row_InrD:
  assumes "update_category_row cid name desc s = (Inr row, t)"
  shows "t = s\<lparr>categories := map (\<lambda>r. if cr_id r = cid
       then retitle name desc (clock s) r else r) (categories s)\<rparr>"
    and "distinct (map cr_name (categories t))"
    and "cr_id row = cid" and "cr_name row = name" and "row \<in> set (categories t)"
proof -
  define rows where "rows = map (\<lambda>r. if cr_id r = cid
       then retitle name desc (clock s) r else r) (categories s)"
  have u: "distinct (map cr_name rows) \<and> find (\<lambda>r. cr_id r = cid) rows = Some row \<and>
      t = s\<lparr>categories := rows\<rparr>"
    using assms unfolding update_category_row_def Let_def rows_def [symmetric]
    by (simp split: if_splits option.splits)
  then show "t = s\<lparr>categories := map (\<lambda>r. if cr_id r = cid
       then retitle name desc (clock s) r else r) (categories s)\<rparr>"
    by (simp add: rows_def)
  from u show "distinct (map cr_name (categories t))" by simp
  from u have "find (\<lambda>r. cr_id r = cid) rows = Some row" by simp
  from find_Some_set [OF this] have row: "row \<in> set rows" "cr_id row = cid" by simp_all
  then show "cr_id row = cid" "row \<in> set (categories t)" using u by simp_all
  from row(1) obtain x where "row = (if cr_id x = cid then retitle name desc (clock s) x else x)"
    unfolding rows_def set_map by (rule imageE)
  with row(2) show "cr_name row = name" by (cases "cr_id x = cid") simp_all
qed

subsection \<open>The effect of each transaction\<close>

lemma create_product_tx_effect:
  assumes "create_product_tx env i s = (Inr p, t)" and "scan_ok env"
  obtains c r where "convert_params env (ci_Name i) (ci_Price i) = Inr c" "0 \<le> c"
    "r = product_row (next_pid s) (ci_Name i) (ci_Description i) c
       (category_id_of s (ci_Category i)) StatusDraft (clock s)"
    "products t = products s @ [r]" "categories t = categories s"
    "ci_Name i \<notin> set (map pr_name (products s))" "is_int4 (next_pid s)"
    "audits t = audits s @ [audit_of (create_audit i (next_pid s)) (next_aid s) (clock s)]"
    "clock t = clock s"
proof -
  obtain s1 s2 n u where 1: "stmt (insert_product env (ci_Name i) (ci_Description i) (ci_Price i)
      (ci_Category i) StatusDraft) s = (Inr n, s1)"
    and 2: "insertAudit (create_audit i n) s1 = (Inr u, s2)"
    and 3: "select_product env scanAdminProduct (Itoa n) s2 = (Inr p, t)"
    using assms(1) by (auto simp: create_product_tx_def seq_Inr_iff)
  from 1 obtain fs where "insert_product env (ci_Name i) (ci_Description i) (ci_Price i)
      (ci_Category i) StatusDraft (s\<lparr>faults := fs\<rparr>) = (Inr n, s1)" by (blast dest: stmt_InrD)
  then obtain c where c: "convert_params env (ci_Name i) (ci_Price i) = Inr c" "0 \<le> c"
    and new: "ci_Name i \<notin> set (map pr_name (products s))" "is_int4 (next_pid s)"
    and n: "n = next_pid s"
    and s1: "products s1 = products s @ [product_row (next_pid s) (ci_Name i) (ci_Description i) c
       (category_id_of s (ci_Category i)) StatusDraft (clock s)]"
      "categories s1 = categories s" "audits s1 = audits s" "clock s1 = clock s"
      "next_aid s1 = next_aid s"
    by (auto simp: insert_product_def Let_def category_id_of_def split: sum.splits if_splits)
  from 3 obtain fs' where "t = s2\<lparr>faults := fs'\<rparr>"
    by (elim select_product_InrD [OF assms(2)])
  with insertAudit_InrD [OF 2] s1 n c new that show ?thesis by auto
qed

lemma update_product_tx_effect:
  assumes "update_product_tx env i s = (Inr p, t)" and "scan_ok env"
  obtains n r c where "int4in env (ui_ID i) = Some n" "r \<in> set (products s)" "pr_id r = n"
    "pr_version r = ui_ExpectedVersion i"
    "convert_params env (ui_Name i) (ui_Price i) = Inr c"
    "products t = map (\<lambda>x. if pr_id x = n \<and> pr_version x = ui_ExpectedVersion i
       then update_row i c (category_id_of s (ui_Category i)) (clock s) x else x) (products s)"
    "categories t = categories s" "distinct (map pr_name (products t))"
    "\<forall>x \<in> set (products t). 0 \<le> pr_price x \<and> pr_version x \<le> max_int64"
    "audits t = audits s @
       [audit_of (update_audit i (admin_product s r)) (next_aid s) (clock s)]"
    "clock t = clock s" "p \<in> admin_product t ` {x \<in> set (products t). pr_id x = n}"
    "is_int4 (audit_target (ui_ID i))"
proof -
  obtain b s1 s2 s3 k u where 1: "select_product env scanAdminProduct (ui_ID i) s = (Inr b, s1)"
    and ver: "ap_Version b = ui_ExpectedVersion i"
    and 2: "stmt (update_stmt env i) s1 = (Inr k, s2)"
    and 3: "insertAudit (update_audit i b) s2 = (Inr u, s3)"
    and 4: "select_product env scanAdminProduct (ui_ID i) s3 = (Inr p, t)"
    using assms(1) by (auto simp: update_product_tx_def seq_Inr_iff split: if_splits)
  from select_product_InrD [OF assms(2) 1] obtain fs n r where s1: "s1 = s\<lparr>faults := fs\<rparr>"
    and n: "int4in env (ui_ID i) = Some n" and r: "r \<in> set (products s)" "pr_id r = n"
    and "scanAdminProduct s1 r = Inr b"
    by blast
  then have b: "b = admin_product s r" by (simp add: scanAdminProduct_def)
  from 2 obtain fs' where "update_stmt env i (s\<lparr>faults := fs'\<rparr>) = (Inr k, s2)"
    using s1 by (auto dest: stmt_InrD)
  then obtain c where c: "convert_params env (ui_Name i) (ui_Price i) = Inr c"
    and up: "update_products (\<lambda>x. pr_id x = n \<and> pr_version x = ui_ExpectedVersion i)
       (update_row i c (category_id_of s (ui_Category i)) (clock s)) (s\<lparr>faults := fs'\<rparr>) = (Inr k, s2)"
    using n by (auto simp: update_stmt_def category_id_of_def split: sum.splits)
  from 4 obtain fs'' x where t: "t = s3\<lparr>faults := fs''\<rparr>" and x: "x \<in> set (products s3)"
    "pr_id x = n" "p = admin_product t x"
    using n by (elim select_product_InrD [OF assms(2)]) (auto simp: scanAdminProduct_def)
  from that [OF n r] ver b c update_products_InrD [OF up] insertAudit_InrD [OF 3] t x
  show ?thesis by (auto simp: update_audit_def)
qed

lemma transition_tx_effect:
  assumes "transition_tx env i s = (Inr p, t)" and "scan_ok env"
  obtains n r nxt where "int4in env (ti_ID i) = Some n" "r \<in> set (products s)" "pr_id r = n"
    "NextStatus (pr_status r) (ti_Action i) = Inr nxt"
    "products t = map (\<lambda>x. if pr_id x = n then move_row nxt (clock s) x else x) (products s)"
    "categories t = categories s" "distinct (map pr_name (products t))"
    "\<forall>x \<in> set (products t). 0 \<le> pr_price x \<and> pr_version x \<le> max_int64"
    "audits t = audits s @
       [audit_of (transition_audit i (pr_status r) nxt (pr_version r)) (next_aid s) (clock s)]"
    "clock t = clock s" "p \<in> admin_product t ` {x \<in> set (products t). pr_id x = n}"
    "is_int4 (audit_target (ti_ID i))"
proof -
  obtain cv s1 where 1: "select_product env scan_state (ti_ID i) s = (Inr cv, s1)"
    and ap: "apply_transition env i (fst cv) (snd cv) s1 = (Inr p, t)"
    using assms(1) by (auto simp: transition_tx_def seq_Inr_iff)
  obtain cur ver where cv: "cv = (cur, ver)" by fastforce
  from ap obtain nxt s2 s3 k u where
    nxt: "NextStatus cur (ti_Action i) = Inr nxt"
    and 2: "stmt (transition_stmt env (ti_ID i) nxt) s1 = (Inr k, s2)"
    and 3: "insertAudit (transition_audit i cur nxt ver) s2 = (Inr u, s3)"
    and 4: "select_product env scanAdminProduct (ti_ID i) s3 = (Inr p, t)"
    by (auto simp: apply_transition_def cv seq_Inr_iff split: sum.splits)
  from select_product_InrD [OF assms(2) 1] obtain fs n r where s1: "s1 = s\<lparr>faults := fs\<rparr>"
    and n: "int4in env (ti_ID i) = Some n" and r: "r \<in> set (products s)" "pr_id r = n"
    and "scan_state s1 r = Inr cv"
    by blast
  then have cur: "cur = pr_status r" "ver = pr_version r" by (simp_all add: scan_state_def cv)
  from 2 obtain fs' where "transition_stmt env (ti_ID i) nxt (s\<lparr>faults := fs'\<rparr>) = (Inr k, s2)"
    using s1 by (auto dest: stmt_InrD)
  then have up: "update_products (\<lambda>x. pr_id x = n) (move_row nxt (clock s)) (s\<lparr>faults := fs'\<rparr>) =
      (Inr k, s2)"
    using n by (simp add: transition_stmt_def)
  from 4 obtain fs'' x where t: "t = s3\<lparr>faults := fs''\<rparr>" and x: "x \<in> set (products s3)"
    "pr_id x = n" "p = admin_product t x"
    using n by (elim select_product_InrD [OF assms(2)]) (auto simp: scanAdminProduct_def)
  from that [OF n r] nxt cur update_products_InrD [OF up] insertAudit_InrD [OF 3] t x
  show ?thesis by (auto simp: transition_audit_def)
qed

lemma create_category_tx_effect:
  assumes "create_category_tx name desc actorSub requestID s = (Inr cat, t)"
  obtains row where "cr_id row = next_cid s" "cr_name row = name"
    "name \<notin> set (map cr_name (categories s))" "products t = products s"
    "categories t = categories s @ [row]" "cat = scan_category row"
    "audits t = audits s @ [audit_of (category_audit ''CREATE'' (next_cid s) actorSub requestID
       [(''description'', JStr desc), (''name'', JStr name)]) (next_aid s) (clock s)]"
    "clock t = clock s"
proof -
  obtain row s1 u where 1: "stmt (insert_category name desc) s = (Inr row, s1)"
    and 2: "insertAudit (category_audit ''CREATE'' (cr_id row) actorSub requestID
        [(''description'', JStr desc), (''name'', JStr name)]) s1 = (Inr u, t)"
    and cat: "cat = scan_category row"
    using assms by (auto simp: create_category_tx_def seq_Inr_iff)
  from 1 have "name \<notin> set (map cr_name (categories s))" "cr_id row = next_cid s"
    "cr_name row = name" "products s1 = products s" "categories s1 = categories s @ [row]"
    "audits s1 = audits s" "clock s1 = clock s" "next_aid s1 = next_aid s"
    by (auto simp: insert_category_def Let_def split: if_splits dest!: stmt_InrD)
  with insertAudit_InrD [OF 2] cat that show ?thesis by auto
qed

lemma update_category_tx_effect:
  assumes "update_category_tx env cid name desc actorSub requestID s = (Inr cat, t)"
  obtains before row where "before \<in> set (categories s)" "cr_id before = cid"
    "cr_id row = cid" "cr_name row = name" "products t = products s"
    "categories t = map (\<lambda>r. if cr_id r = cid
       then retitle name desc (clock s) r else r) (categories s)"
    "distinct (map cr_name (categories t))" "cat = scan_category row"
    "audits t = audits s @ [audit_of (category_audit ''UPDATE'' cid actorSub requestID
       (category_changed before name desc)) (next_aid s) (clock s)]"
    "clock t = clock s"
proof -
  obtain before s1 row s2 u where 0: "select_category env cid s = (Inr before, s1)"
    and 1: "stmt (update_category_row cid name desc) s1 = (Inr row, s2)"
    and 2: "insertAudit (category_audit ''UPDATE'' cid actorSub requestID
        (category_changed before name desc)) s2 = (Inr u, t)"
    and cat: "cat = scan_category row"
    using assms by (auto simp: update_category_tx_def seq_Inr_iff)
  from 0 obtain fs where s1: "s1 = s\<lparr>faults := fs\<rparr>"
    and f: "first_row Inr (filter (\<lambda>r. cr_id r = cid) (categories s)) = Inr before"
    by (auto simp: select_category_def split: if_splits dest!: query_InrD)
  from f obtain rest where "filter (\<lambda>r. cr_id r = cid) (categories s) = before # rest"
    by (auto simp: first_row_def split: list.splits)
  then have "before \<in> set (filter (\<lambda>r. cr_id r = cid) (categories s))" by simp
  then have "before \<in> set (categories s)" "cr_id before = cid" by auto
  moreover from 1 obtain fs' where
    up: "update_category_row cid name desc (s\<lparr>faults := fs'\<rparr>) = (Inr row, s2)"
    using s1 by (auto dest: stmt_InrD)
  note row = update_category_row_InrD [OF up]
  have "categories s2 = map (\<lambda>r. if cr_id r = cid
       then retitle name desc (clock s) r else r) (categories s)"
    and "products s2 = products s" "audits s2 = audits s" "clock s2 = clock s"
    "next_aid s2 = next_aid s"
    by (simp_all add: row(1))
  moreover note insertAudit_InrD [OF 2] row(2)
  ultimately show ?thesis
    by (intro that [of before row]) (simp_all add: row(3,4) cat del: map_eq_conv)
qed

subsection \<open>The abstract catalog\<close>

text \<open>
  What the writers promise, on the tables alone: one change to one target and one audit row
  that describes it. \<open>catalog_step d n a d'\<close>: the target \<open>n\<close> changed and \<open>a\<close> was logged.
\<close>

definition replace_row :: "prow \<Rightarrow> prow list \<Rightarrow> prow list" where
  "replace_row r' rows = map (\<lambda>x. if pr_id x = pr_id r' then r' else x) rows"

inductive catalog_step :: "tables \<Rightarrow> int \<Rightarrow> arow \<Rightarrow> tables \<Rightarrow> bool" where
  step_create: "pr_id r \<notin> pr_id ` set (t_products d) \<Longrightarrow> pr_name r \<notin> pr_name ` set (t_products d) \<Longrightarrow>
    pr_status r = StatusDraft \<Longrightarrow> pr_version r = 1 \<Longrightarrow> ar_target_type a = ''product'' \<Longrightarrow>
    ar_target_id a = pr_id r \<Longrightarrow> ar_action a = ''CREATE'' \<Longrightarrow>
    ar_version_before a = None \<Longrightarrow> ar_version_after a = Some 1 \<Longrightarrow>
    catalog_step d (pr_id r) a
      (d\<lparr>t_products := t_products d @ [r], t_audits := t_audits d @ [a]\<rparr>)"
| step_edit: "r \<in> set (t_products d) \<Longrightarrow> pr_id r' = pr_id r \<Longrightarrow> pr_status r' = pr_status r \<Longrightarrow>
    pr_version r' = pr_version r + 1 \<Longrightarrow> ar_target_type a = ''product'' \<Longrightarrow>
    ar_action a = ''UPDATE'' \<Longrightarrow> ar_version_before a = Some (pr_version r) \<Longrightarrow>
    ar_version_after a = Some (pr_version r') \<Longrightarrow>
    catalog_step d (pr_id r) a
      (d\<lparr>t_products := replace_row r' (t_products d), t_audits := t_audits d @ [a]\<rparr>)"
| step_move: "r \<in> set (t_products d) \<Longrightarrow> r' = move_row nxt tm r \<Longrightarrow>
    lifecycle_edge (pr_status r) (ar_action a) nxt \<Longrightarrow> ar_target_type a = ''product'' \<Longrightarrow>
    ar_version_before a = Some (pr_version r) \<Longrightarrow> ar_version_after a = Some (pr_version r') \<Longrightarrow>
    catalog_step d (pr_id r) a
      (d\<lparr>t_products := replace_row r' (t_products d), t_audits := t_audits d @ [a]\<rparr>)"
| step_category: "ar_target_type a = ''category'' \<Longrightarrow> ar_target_id a = n \<Longrightarrow>
    cr_id ` set cs = insert n (cr_id ` set (t_categories d)) \<Longrightarrow> distinct (map cr_name cs) \<Longrightarrow>
    catalog_step d n a (d\<lparr>t_categories := cs, t_audits := t_audits d @ [a]\<rparr>)"

text \<open>The commands of an operator, and what one does to the database.\<close>

datatype admin_cmd =
    Do_create CreateProductInput
  | Do_update UpdateProductInput
  | Do_transition TransitionInput
  | Do_create_category string string string string
  | Do_update_category int string string string string

definition outcome :: "(err + 'a) \<times> db \<Rightarrow> err option \<times> db" where
  "outcome x = (case x of (Inl e, s) \<Rightarrow> (Some e, s) | (Inr _, s) \<Rightarrow> (None, s))"

fun run_cmd :: "dbenv \<Rightarrow> admin_cmd \<Rightarrow> db \<Rightarrow> err option \<times> db" where
  "run_cmd env (Do_create i) s = outcome (CreateProduct env i s)"
| "run_cmd env (Do_update i) s = outcome (UpdateProduct env i s)"
| "run_cmd env (Do_transition i) s = outcome (Transition env i s)"
| "run_cmd env (Do_create_category n d a q) s = outcome (CreateCategory n d a q s)"
| "run_cmd env (Do_update_category c n d a q) s = outcome (UpdateCategory env c n d a q s)"

text \<open>The text of the product id is a number to Go exactly as it is to Postgres.\<close>

fun plain_id :: "dbenv \<Rightarrow> admin_cmd \<Rightarrow> bool" where
  "plain_id env (Do_update i) = (Atoi (ui_ID i) = int4in env (ui_ID i))"
| "plain_id env (Do_transition i) = (Atoi (ti_ID i) = int4in env (ti_ID i))"
| "plain_id env _ = True"

lemma outcome_iff:
  "outcome x = (r, t) \<longleftrightarrow> (\<exists>e. x = (Inl e, t) \<and> r = Some e) \<or> (\<exists>v. x = (Inr v, t) \<and> r = None)"
  by (cases x; cases "fst x") (auto simp: outcome_def)

lemma snd_outcome [simp]: "snd (outcome x) = snd x"
  by (cases x; cases "fst x") (simp_all add: outcome_def)

subsection \<open>The transactions refine the abstract steps\<close>

text \<open>Rows replaced where id and version match are the row replaced by id.\<close>

lemma replace_by_id:
  assumes "distinct (map pr_id rows)" and "r \<in> set rows" and "P r"
    and "\<And>x. pr_id (f x) = pr_id x"
  shows "map (\<lambda>x. if pr_id x = pr_id r \<and> P x then f x else x) rows = replace_row (f r) rows"
  unfolding replace_row_def
proof (rule map_cong [OF refl])
  fix x assume x: "x \<in> set rows"
  show "(if pr_id x = pr_id r \<and> P x then f x else x) = (if pr_id x = pr_id (f r) then f r else x)"
  proof (cases "pr_id x = pr_id r")
    case True
    with assms x have "x = r" by (meson distinct_map inj_onD)
    with assms show ?thesis by simp
  next
    case False
    with assms show ?thesis by simp
  qed
qed

lemma replace_row_one:
  assumes "distinct (map pr_id rows)" and "r \<in> set rows" and "\<And>x. pr_id (f x) = pr_id x"
  shows "map (\<lambda>x. if pr_id x = pr_id r then f x else x) rows = replace_row (f r) rows"
  using replace_by_id [of rows r "\<lambda>_. True" f] assms by simp

lemma tables_eqI:
  assumes "products t = ps" and "categories t = cs" and "audits t = as"
  shows "tables_of t = \<lparr>t_products = ps, t_categories = cs, t_audits = as\<rparr>"
  using assms by (simp add: tables_of_def)

lemma version_step: "row_ok r \<Longrightarrow> pr_version r + 1 \<le> max_int64 \<Longrightarrow>
    wrap64 (pr_version r + 1) = pr_version r + 1"
  by (intro wrap64_id) (simp add: row_ok_def is_int64_def min_int64_def)

lemma create_refines:
  assumes "create_product_tx env i s = (Inr p, t)" and "scan_ok env" and "db_inv s"
  shows "\<exists>n a. catalog_step (tables_of s) n a (tables_of t) \<and> ar_target_id a = n"
proof -
  from assms(1,2) obtain c r where r: "r = product_row (next_pid s) (ci_Name i)
      (ci_Description i) c (category_id_of s (ci_Category i)) StatusDraft (clock s)"
    and t: "products t = products s @ [r]" "categories t = categories s"
      "audits t = audits s @ [audit_of (create_audit i (next_pid s)) (next_aid s) (clock s)]"
    and new: "ci_Name i \<notin> set (map pr_name (products s))"
    by (rule create_product_tx_effect)
  let ?a = "audit_of (create_audit i (next_pid s)) (next_aid s) (clock s)"
  have "catalog_step (tables_of s) (pr_id r) ?a (tables_of s\<lparr>t_products := products s @ [r],
      t_audits := audits s @ [?a]\<rparr>)"
    using step_create [of r "tables_of s" ?a] assms(3) new
    by (force simp: r tables_of_def create_audit_def db_inv_iff)
  moreover have "tables_of t = tables_of s\<lparr>t_products := products s @ [r],
      t_audits := audits s @ [?a]\<rparr>"
    using t by (simp add: tables_of_def)
  moreover have "ar_target_id ?a = pr_id r" by (simp add: create_audit_def r)
  ultimately show ?thesis by (intro exI [of _ "pr_id r"] exI [of _ ?a]) simp
qed

lemma update_refines:
  assumes "update_product_tx env i s = (Inr p, t)" and "scan_ok env" and "db_inv s"
  shows "\<exists>n a. catalog_step (tables_of s) n a (tables_of t) \<and>
    int4in env (ui_ID i) = Some n \<and> ar_target_id a = audit_target (ui_ID i)"
proof -
  from assms(1,2) obtain n r c where n: "int4in env (ui_ID i) = Some n"
    and r: "r \<in> set (products s)" "pr_id r = n" "pr_version r = ui_ExpectedVersion i"
    and t: "products t = map (\<lambda>x. if pr_id x = n \<and> pr_version x = ui_ExpectedVersion i
       then update_row i c (category_id_of s (ui_Category i)) (clock s) x else x) (products s)"
      "categories t = categories s"
      "audits t = audits s @
         [audit_of (update_audit i (admin_product s r)) (next_aid s) (clock s)]"
    and ok: "\<forall>x \<in> set (products t). 0 \<le> pr_price x \<and> pr_version x \<le> max_int64"
    by (rule update_product_tx_effect)
  let ?a = "audit_of (update_audit i (admin_product s r)) (next_aid s) (clock s)"
  define r' where "r' = update_row i c (category_id_of s (ui_Category i)) (clock s) r"
  have r': "pr_id r' = pr_id r" "pr_status r' = pr_status r" "pr_version r' = pr_version r + 1"
    by (simp_all add: r'_def update_row_def)
  have rows: "products t = replace_row r' (products s)"
    unfolding t(1) r(2) [symmetric] r'_def
    by (rule replace_by_id [where P = "\<lambda>x. pr_version x = ui_ExpectedVersion i",
          OF db_inv_distinct_ids [OF assms(3)] r(1,3)]) (simp add: update_row_def)
  have "r' \<in> set (products t)" using r(1) r' by (auto simp: rows replace_row_def image_iff)
  with ok r' have "pr_version r + 1 \<le> max_int64" by auto
  then have v: "wrap64 (pr_version r + 1) = pr_version r + 1"
    by (rule version_step [OF db_inv_row [OF assms(3) r(1)]])
  have "catalog_step (tables_of s) (pr_id r) ?a (tables_of s\<lparr>t_products :=
      replace_row r' (t_products (tables_of s)), t_audits := t_audits (tables_of s) @ [?a]\<rparr>)"
    using r(1) r' by (intro step_edit) (simp_all add: tables_of_def update_audit_def v)
  moreover have "tables_of t = tables_of s\<lparr>t_products := replace_row r' (t_products (tables_of s)),
      t_audits := t_audits (tables_of s) @ [?a]\<rparr>"
    using t(2,3) rows by (simp add: tables_of_def)
  moreover have "ar_target_id ?a = audit_target (ui_ID i)" by (simp add: update_audit_def)
  ultimately show ?thesis using n r(2) by auto
qed

lemma transition_refines:
  assumes "transition_tx env i s = (Inr p, t)" and "scan_ok env" and "db_inv s"
  shows "\<exists>n a. catalog_step (tables_of s) n a (tables_of t) \<and>
    int4in env (ti_ID i) = Some n \<and> ar_target_id a = audit_target (ti_ID i)"
proof -
  from assms(1,2) obtain n r nxt where n: "int4in env (ti_ID i) = Some n"
    and r: "r \<in> set (products s)" "pr_id r = n"
    and nxt: "NextStatus (pr_status r) (ti_Action i) = Inr nxt"
    and t: "products t = map (\<lambda>x. if pr_id x = n then move_row nxt (clock s) x else x) (products s)"
      "categories t = categories s"
      "audits t = audits s @ [audit_of (transition_audit i (pr_status r) nxt (pr_version r))
         (next_aid s) (clock s)]"
    and ok: "\<forall>x \<in> set (products t). 0 \<le> pr_price x \<and> pr_version x \<le> max_int64"
    by (rule transition_tx_effect)
  let ?a = "audit_of (transition_audit i (pr_status r) nxt (pr_version r)) (next_aid s) (clock s)"
  let ?r' = "move_row nxt (clock s) r"
  have r': "pr_id ?r' = pr_id r" "pr_version ?r' = pr_version r + 1"
    by (simp_all add: move_row_def)
  have rows: "products t = replace_row ?r' (products s)"
    unfolding t(1) r(2) [symmetric]
    by (rule replace_row_one [OF db_inv_distinct_ids [OF assms(3)] r(1)]) (simp add: move_row_def)
  have "?r' \<in> set (products t)" using r(1) r' by (auto simp: rows replace_row_def image_iff)
  with ok r' have "pr_version r + 1 \<le> max_int64" by auto
  then have v: "wrap64 (pr_version r + 1) = pr_version r + 1"
    by (rule version_step [OF db_inv_row [OF assms(3) r(1)]])
  have "catalog_step (tables_of s) (pr_id r) ?a (tables_of s\<lparr>t_products :=
      replace_row ?r' (t_products (tables_of s)), t_audits := t_audits (tables_of s) @ [?a]\<rparr>)"
    using r(1) r' nxt
    by (intro step_move [OF _ refl])
       (simp_all add: tables_of_def transition_audit_def v NextStatus_edge)
  moreover have "tables_of t = tables_of s\<lparr>t_products := replace_row ?r' (t_products (tables_of s)),
      t_audits := t_audits (tables_of s) @ [?a]\<rparr>"
    using t(2,3) rows by (simp add: tables_of_def)
  moreover have "ar_target_id ?a = audit_target (ti_ID i)" by (simp add: transition_audit_def)
  ultimately show ?thesis using n r(2) by auto
qed

end
