(* ===== verification/Operator_Spec.thy ===== *)
theory Operator_Spec
  imports Audit_Trail
begin

section \<open>What an operator can rely on\<close>

text \<open>
  The properties of the privileged writers over histories of commands with arbitrary
  connection faults: each command refines one abstract step or changes nothing, no update
  is lost, and the audit trail numbers every version and replays every lifecycle.
\<close>

subsection \<open>The invariant\<close>

lemma select_product_inv [preserve_intros]: "keeps_inv (select_product env scan ident)"
  unfolding select_product_def by (rule keeps_inv_query)

lemma update_row_ok:
  assumes "row_ok r" and "0 \<le> c" and "c \<le> max_cents" and "pr_version r + 1 \<le> max_int64"
  shows "row_ok (update_row i c cid tm r)"
  using assms by (simp add: row_ok_def update_row_def)

lemma update_stmt_inv [preserve_intros]:
  assumes "numeric2_ok env"
  shows "keeps_inv (update_stmt env i)"
proof (rule keeps_invI)
  fix s r t
  assume inv: "db_inv s" and u: "update_stmt env i s = (r, t)"
  show "db_inv_from s t"
  proof (cases "convert_params env (ui_Name i) (ui_Price i)")
    case (Inl e)
    with u inv show ?thesis by (simp add: update_stmt_def db_inv_from_refl)
  next
    case c: (Inr c)
    with assms have le: "c \<le> max_cents" by (blast dest: convert_params_range)
    show ?thesis
    proof (cases "int4in env (ui_ID i)")
      case None
      with u c inv show ?thesis by (simp add: update_stmt_def db_inv_from_refl)
    next
      case (Some n)
      with u c have "update_products (\<lambda>r. pr_id r = n \<and> pr_version r = ui_ExpectedVersion i)
           (update_row i c (category_id_of s (ui_Category i)) (clock s)) s = (r, t)"
        by (simp add: update_stmt_def)
      then show ?thesis
      proof (rule update_products_inv [OF inv])
        fix x assume "x \<in> set (products s)"
          and "0 \<le> pr_price (update_row i c (category_id_of s (ui_Category i)) (clock s) x)"
          and "pr_version (update_row i c (category_id_of s (ui_Category i)) (clock s) x) \<le> max_int64"
        then show "row_ok (update_row i c (category_id_of s (ui_Category i)) (clock s) x)"
          using le db_inv_row [OF inv] by (intro update_row_ok) (simp_all add: update_row_def)
      next
        fix x
        show "set_option (pr_category_id (update_row i c (category_id_of s (ui_Category i)) (clock s) x))
            \<subseteq> cr_id ` set (categories s)"
          using category_id_of_mem by (simp add: update_row_def)
      qed (simp add: update_row_def)
    qed
  qed
qed

lemma transition_stmt_inv [preserve_intros]:
  assumes "Valid nxt"
  shows "keeps_inv (transition_stmt env ident nxt)"
proof (rule keeps_invI)
  fix s r t
  assume inv: "db_inv s" and u: "transition_stmt env ident nxt s = (r, t)"
  show "db_inv_from s t"
  proof (cases "int4in env ident")
    case None
    with u inv show ?thesis by (simp add: transition_stmt_def db_inv_from_refl)
  next
    case (Some n)
    with u have "update_products (\<lambda>r. pr_id r = n) (move_row nxt (clock s)) s = (r, t)"
      by (simp add: transition_stmt_def)
    then show ?thesis
    proof (rule update_products_inv [OF inv])
      fix x assume x: "x \<in> set (products s)"
      then show "set_option (pr_category_id (move_row nxt (clock s) x)) \<subseteq> cr_id ` set (categories s)"
        using inv by (simp add: move_row_def db_inv_iff)
      assume "pr_version (move_row nxt (clock s) x) \<le> max_int64"
      then show "row_ok (move_row nxt (clock s) x)"
        using db_inv_row [OF inv x] assms by (simp add: row_ok_def move_row_def)
    qed (simp add: move_row_def)
  qed
qed

lemma apply_transition_inv [preserve_intros]: "keeps_inv (apply_transition env i cur v)"
proof (cases "NextStatus cur (ti_Action i)")
  case (Inl e)
  then show ?thesis by (simp add: apply_transition_def keeps_inv_raise)
next
  case (Inr nxt)
  then show ?thesis
    unfolding apply_transition_def sum.case
    by (simp only: sum.case) (intro preserve_intros NextStatus_Valid [OF Inr])
qed

lemma run_cmd_inv:
  assumes "numeric2_ok env" and "db_inv s"
  shows "db_inv (snd (run_cmd env c s))"
proof (cases c)
  case (Do_create i)
  have "keeps_inv (CreateProduct env i)"
    unfolding CreateProduct_def create_product_tx_def
    using assms(1) by (intro preserve_intros) simp_all
  with Do_create assms(2) show ?thesis by (simp add: keeps_invD)
next
  case (Do_update i)
  have "keeps_inv (UpdateProduct env i)"
    unfolding UpdateProduct_def update_product_tx_def using assms(1) by (intro preserve_intros)
  with Do_update assms(2) show ?thesis by (simp add: keeps_invD)
next
  case (Do_transition i)
  have "keeps_inv (Transition env i)"
    unfolding Transition_def transition_tx_def by (intro preserve_intros)
  with Do_transition assms(2) show ?thesis by (simp add: keeps_invD)
next
  case (Do_create_category n d a q)
  have "keeps_inv (CreateCategory n d a q)"
    unfolding CreateCategory_def create_category_tx_def by (intro preserve_intros)
  with Do_create_category assms(2) show ?thesis by (simp add: keeps_invD)
next
  case (Do_update_category cid n d a q)
  have "keeps_inv (UpdateCategory env cid n d a q)"
    unfolding UpdateCategory_def update_category_tx_def select_category_def
    by (intro preserve_intros)
  with Do_update_category assms(2) show ?thesis by (simp add: keeps_invD)
qed

subsection \<open>One command, one step\<close>

lemma begin_func_refines:
  assumes "begin_func body s = (r, t)"
    and "\<And>fs v s1. body (s\<lparr>faults := fs\<rparr>) = (Inr v, s1) \<Longrightarrow> Q (tables_of s1)"
  shows "(tables_of t = tables_of s \<and> (\<exists>e. r = Inl e)) \<or>
    (Q (tables_of t) \<and> (r = Inl DriverErr \<or> (\<exists>v. r = Inr v)))"
  using assms(1)
proof (cases rule: begin_func_outcome)
  case (1 e)
  then show ?thesis by simp
next
  case (2 fs v s1 fs')
  from assms(2) [OF 2(1)] have "Q (tables_of t)" by (simp add: 2(2))
  with 2(3) show ?thesis by blast
qed

lemma create_category_refines:
  assumes "create_category_tx name desc actorSub requestID s = (Inr cat, t)" and "db_inv s"
  shows "\<exists>n a. catalog_step (tables_of s) n a (tables_of t) \<and> ar_target_id a = n"
proof -
  from assms(1) obtain row where row: "cr_id row = next_cid s" "cr_name row = name"
    and new: "name \<notin> set (map cr_name (categories s))"
    and t: "products t = products s" "categories t = categories s @ [row]"
      "audits t = audits s @ [audit_of (category_audit ''CREATE'' (next_cid s) actorSub requestID
         [(''description'', JStr desc), (''name'', JStr name)]) (next_aid s) (clock s)]"
    by (rule create_category_tx_effect)
  let ?a = "audit_of (category_audit ''CREATE'' (next_cid s) actorSub requestID
         [(''description'', JStr desc), (''name'', JStr name)]) (next_aid s) (clock s)"
  have "catalog_step (tables_of s) (next_cid s) ?a (tables_of s\<lparr>t_categories :=
      categories s @ [row], t_audits := t_audits (tables_of s) @ [?a]\<rparr>)"
    using row new assms(2)
    by (intro step_category) (auto simp: tables_of_def category_audit_def db_inv_iff)
  moreover have "tables_of t = tables_of s\<lparr>t_categories := categories s @ [row],
      t_audits := t_audits (tables_of s) @ [?a]\<rparr>"
    using t by (simp add: tables_of_def)
  moreover have "ar_target_id ?a = next_cid s" by (simp add: category_audit_def)
  ultimately show ?thesis by (intro exI [of _ "next_cid s"] exI [of _ ?a]) simp
qed

lemma update_category_refines:
  assumes "update_category_tx env cid name desc actorSub requestID s = (Inr cat, t)"
  shows "\<exists>n a. catalog_step (tables_of s) n a (tables_of t) \<and> ar_target_id a = n"
proof -
  from assms obtain before where b: "before \<in> set (categories s)" "cr_id before = cid"
    and t: "products t = products s" "categories t = map (\<lambda>r. if cr_id r = cid
       then retitle name desc (clock s) r else r) (categories s)"
      "audits t = audits s @ [audit_of (category_audit ''UPDATE'' cid actorSub requestID
       (category_changed before name desc)) (next_aid s) (clock s)]"
    and d: "distinct (map cr_name (categories t))"
    by (rule update_category_tx_effect)
  let ?a = "audit_of (category_audit ''UPDATE'' cid actorSub requestID
       (category_changed before name desc)) (next_aid s) (clock s)"
  have "map cr_id (categories t) = map cr_id (categories s)"
    by (simp add: t(2))
  then have "cr_id ` set (categories t) = cr_id ` set (categories s)" by (metis set_map)
  also have "\<dots> = insert cid (cr_id ` set (categories s))" using b by auto
  finally have ids: "cr_id ` set (categories t) = insert cid (cr_id ` set (categories s))" .
  have "catalog_step (tables_of s) cid ?a (tables_of s\<lparr>t_categories :=
      categories t, t_audits := t_audits (tables_of s) @ [?a]\<rparr>)"
    using ids d by (intro step_category) (simp_all add: tables_of_def category_audit_def)
  moreover have "tables_of t = tables_of s\<lparr>t_categories := categories t,
      t_audits := t_audits (tables_of s) @ [?a]\<rparr>"
    using t(1,3) by (simp add: tables_of_def)
  moreover have "ar_target_id ?a = cid" by (simp add: category_audit_def)
  ultimately show ?thesis by (intro exI [of _ cid] exI [of _ ?a]) simp
qed

text \<open>The step a command makes when it makes one.\<close>

definition makes_step :: "dbenv \<Rightarrow> admin_cmd \<Rightarrow> tables \<Rightarrow> tables \<Rightarrow> bool" where
  "makes_step env c d d' \<longleftrightarrow> (\<exists>n a. catalog_step d n a d' \<and> (plain_id env c \<longrightarrow> ar_target_id a = n))"

lemma run_cmd_step:
  assumes "scan_ok env" and "db_inv s" and "run_cmd env c s = (r, t)"
  shows "(tables_of t = tables_of s \<and> r \<noteq> None) \<or>
    (makes_step env c (tables_of s) (tables_of t) \<and> (r = None \<or> r = Some DriverErr))"
proof -
  have I: "db_inv (s\<lparr>faults := fs\<rparr>)" for fs using assms(2) by simp
  have *: ?thesis if "outcome (begin_func body s) = (r, t)"
    and "\<And>fs v s1. body (s\<lparr>faults := fs\<rparr>) = (Inr v, s1) \<Longrightarrow>
      makes_step env c (tables_of (s\<lparr>faults := fs\<rparr>)) (tables_of s1)"
    for body :: "(db, err, 'x) action"
  proof -
    obtain r' t' where b: "begin_func body s = (r', t')" by fastforce
    have "(tables_of t' = tables_of s \<and> (\<exists>e. r' = Inl e)) \<or>
        (makes_step env c (tables_of s) (tables_of t') \<and> (r' = Inl DriverErr \<or> (\<exists>v. r' = Inr v)))"
      using that(2) by (intro begin_func_refines [OF b]) simp
    with that(1) b show ?thesis by (auto simp: outcome_iff)
  qed
  show ?thesis
  proof (cases c)
    case (Do_create i)
    with assms(3) have "outcome (begin_func (create_product_tx env i) s) = (r, t)"
      by (simp add: CreateProduct_def)
    then show ?thesis
      by (rule *) (use create_refines [OF _ assms(1) I] in \<open>simp add: makes_step_def\<close>, blast)
  next
    case (Do_update i)
    with assms(3) have "outcome (begin_func (update_product_tx env i) s) = (r, t)"
      by (simp add: UpdateProduct_def)
    then show ?thesis
    proof (rule *)
      fix fs v s1 assume "update_product_tx env i (s\<lparr>faults := fs\<rparr>) = (Inr v, s1)"
      from update_refines [OF this assms(1) I] obtain n a where
        "catalog_step (tables_of (s\<lparr>faults := fs\<rparr>)) n a (tables_of s1)"
        and "int4in env (ui_ID i) = Some n" "ar_target_id a = audit_target (ui_ID i)" by blast
      then show "makes_step env c (tables_of (s\<lparr>faults := fs\<rparr>)) (tables_of s1)"
        unfolding makes_step_def Do_update
        by (intro exI [of _ n] exI [of _ a]) (simp add: audit_target_def)
    qed
  next
    case (Do_transition i)
    with assms(3) have "outcome (begin_func (transition_tx env i) s) = (r, t)"
      by (simp add: Transition_def)
    then show ?thesis
    proof (rule *)
      fix fs v s1 assume "transition_tx env i (s\<lparr>faults := fs\<rparr>) = (Inr v, s1)"
      from transition_refines [OF this assms(1) I] obtain n a where
        "catalog_step (tables_of (s\<lparr>faults := fs\<rparr>)) n a (tables_of s1)"
        and "int4in env (ti_ID i) = Some n" "ar_target_id a = audit_target (ti_ID i)" by blast
      then show "makes_step env c (tables_of (s\<lparr>faults := fs\<rparr>)) (tables_of s1)"
        unfolding makes_step_def Do_transition
        by (intro exI [of _ n] exI [of _ a]) (simp add: audit_target_def)
    qed
  next
    case (Do_create_category n d a q)
    with assms(3) have "outcome (begin_func (create_category_tx n d a q) s) = (r, t)"
      by (simp add: CreateCategory_def)
    then show ?thesis
      by (rule *) (use create_category_refines [OF _ I] in \<open>simp add: makes_step_def\<close>, blast)
  next
    case (Do_update_category cid n d a q)
    with assms(3) have "outcome (begin_func (update_category_tx env cid n d a q) s) = (r, t)"
      by (simp add: UpdateCategory_def)
    then show ?thesis
    proof (rule *)
      fix fs v s1 assume "update_category_tx env cid n d a q (s\<lparr>faults := fs\<rparr>) = (Inr v, s1)"
      from update_category_refines [OF this]
      show "makes_step env c (tables_of (s\<lparr>faults := fs\<rparr>)) (tables_of s1)"
        unfolding makes_step_def by blast
    qed
  qed
qed

subsection \<open>Histories\<close>

text \<open>
  What can happen to a catalog that only operators write: a command, the passing of time,
  and a change in how the connection will behave.
\<close>

datatype event = Command admin_cmd | Tick nat | Connection "fault list"

fun run_event :: "dbenv \<Rightarrow> event \<Rightarrow> db \<Rightarrow> db" where
  "run_event env (Command c) s = snd (run_cmd env c s)"
| "run_event env (Tick n) s = s\<lparr>clock := clock s + int n\<rparr>"
| "run_event env (Connection fs) s = s\<lparr>faults := fs\<rparr>"

definition run_events :: "dbenv \<Rightarrow> event list \<Rightarrow> db \<Rightarrow> db" where
  "run_events env es s = fold (run_event env) es s"

fun plain_event :: "dbenv \<Rightarrow> event \<Rightarrow> bool" where
  "plain_event env (Command c) = plain_id env c"
| "plain_event env _ = True"

lemma tables_of_clock [simp]: "tables_of (s\<lparr>clock := c\<rparr>) = tables_of s"
  by (simp add: tables_of_def)

lemma run_event_inv: "numeric2_ok env \<Longrightarrow> db_inv s \<Longrightarrow> db_inv (run_event env e s)"
  by (cases e) (simp_all add: run_cmd_inv)

lemma run_event_step:
  assumes "scan_ok env" and "db_inv s"
  shows "tables_of (run_event env e s) = tables_of s \<or>
    (\<exists>n a. catalog_step (tables_of s) n a (tables_of (run_event env e s)) \<and>
       (plain_event env e \<longrightarrow> ar_target_id a = n))"
proof (cases e)
  case (Command c)
  obtain r t where "run_cmd env c s = (r, t)" by fastforce
  with run_cmd_step [OF assms this] Command show ?thesis by (auto simp: makes_step_def)
qed simp_all

text \<open>Whatever each step preserves holds after every history.\<close>

lemma run_events_induct:
  assumes "scan_ok env" and "numeric2_ok env" and "db_inv s" and "I (tables_of s)"
    and "\<And>d n a d'. products_ok d \<Longrightarrow> I d \<Longrightarrow> catalog_step d n a d' \<Longrightarrow>
      (list_all (plain_event env) es \<longrightarrow> ar_target_id a = n) \<Longrightarrow> I d'"
  shows "db_inv (run_events env es s) \<and> I (tables_of (run_events env es s))"
  using assms(3,4) assms(5)
proof (induction es arbitrary: s)
  case Nil
  then show ?case by (simp add: run_events_def)
next
  case (Cons e es)
  let ?s = "run_event env e s"
  have inv: "db_inv ?s" by (rule run_event_inv [OF assms(2) Cons.prems(1)])
  from run_event_step [OF assms(1) Cons.prems(1), of e]
  have I: "I (tables_of ?s)"
  proof
    assume "tables_of ?s = tables_of s"
    with Cons.prems(2) show ?thesis by simp
  next
    assume "\<exists>n a. catalog_step (tables_of s) n a (tables_of ?s) \<and>
      (plain_event env e \<longrightarrow> ar_target_id a = n)"
    then obtain n a where "catalog_step (tables_of s) n a (tables_of ?s)"
      and "plain_event env e \<longrightarrow> ar_target_id a = n" by blast
    with Cons.prems show ?thesis
      using Cons.prems(3) [of "tables_of s" n a "tables_of ?s"] by (simp add: db_inv_def)
  qed
  have "db_inv (run_events env es ?s) \<and> I (tables_of (run_events env es ?s))"
    using Cons.prems(3) by (intro Cons.IH inv I) auto
  then show ?case by (simp add: run_events_def)
qed

subsection \<open>The audit trail\<close>

definition trail :: "tables \<Rightarrow> int \<Rightarrow> arow list" where
  "trail d n = filter (\<lambda>a. ar_target_type a = ''product'' \<and> ar_target_id a = n) (t_audits d)"

text \<open>The lifecycle commands a trail records, in order.\<close>

definition trail_moves :: "arow list \<Rightarrow> string list" where
  "trail_moves h = filter (\<lambda>x. x \<noteq> ''UPDATE'') (map ar_action h)"

definition trail_ok :: "prow \<Rightarrow> arow list \<Rightarrow> bool" where
  "trail_ok r h \<longleftrightarrow> pr_version r = int (length h) \<and>
     map ar_version_after h = map (\<lambda>i. Some (int i)) [1..<Suc (length h)] \<and>
     map ar_version_before (tl h) = map (\<lambda>i. Some (int i)) [1..<length h] \<and>
     (\<exists>c rest. h = c # rest \<and> ar_action c = ''CREATE'' \<and>
        lifecycle_run StatusDraft (trail_moves rest) (pr_status r))"

definition trails_ok :: "tables \<Rightarrow> bool" where
  "trails_ok d \<longleftrightarrow> (\<forall>r \<in> set (t_products d). trail_ok r (trail d (pr_id r))) \<and>
     (\<forall>n. trail d n \<noteq> [] \<longrightarrow> n \<in> pr_id ` set (t_products d))"

lemma trail_ok_append:
  assumes "trail_ok r h" and "ar_version_before a = Some (pr_version r)"
    and "ar_version_after a = Some (pr_version r + 1)" and "pr_version r' = pr_version r + 1"
    and "(ar_action a = ''UPDATE'' \<and> pr_status r' = pr_status r) \<or>
       (ar_action a \<noteq> ''UPDATE'' \<and> lifecycle_edge (pr_status r) (ar_action a) (pr_status r'))"
  shows "trail_ok r' (h @ [a])"
proof -
  from assms(1) obtain c rest where h: "h = c # rest" and c: "ar_action c = ''CREATE''"
    and run: "lifecycle_run StatusDraft (trail_moves rest) (pr_status r)"
    by (auto simp: trail_ok_def)
  have "lifecycle_run StatusDraft (trail_moves (rest @ [a])) (pr_status r')"
    using run assms(5) by (auto simp: trail_moves_def run_append)
  with assms h c show ?thesis by (auto simp: trail_ok_def)
qed

lemma edge_action_not_update: "lifecycle_edge s a t \<Longrightarrow> a \<noteq> ''UPDATE''"
  by (auto simp: lifecycle_edge_iff action_defs)

lemma ids_replace_row: "pr_id ` set (replace_row r' rows) = pr_id ` set rows"
proof -
  have "map pr_id (replace_row r' rows) = map pr_id rows" by (simp add: replace_row_def)
  then show ?thesis by (metis set_map)
qed

lemma trails_replace:
  assumes "products_ok d" and "trails_ok d" and "r \<in> set (t_products d)" and "pr_id r' = pr_id r"
    and "ar_target_type a = ''product''" and "ar_target_id a = pr_id r"
    and "trail_ok r' (trail d (pr_id r) @ [a])"
  shows "trails_ok (d\<lparr>t_products := replace_row r' (t_products d), t_audits := t_audits d @ [a]\<rparr>)"
proof -
  have ids: "pr_id ` set (replace_row r' (t_products d)) = pr_id ` set (t_products d)"
    by (rule ids_replace_row)
  have tr: "trail (d\<lparr>t_products := ps, t_audits := t_audits d @ [a]\<rparr>) n =
      (if n = pr_id r then trail d n @ [a] else trail d n)" for ps n
    using assms(5,6) by (simp add: trail_def)
  have "trail_ok x (if pr_id x = pr_id r then trail d (pr_id x) @ [a] else trail d (pr_id x))"
    if "x \<in> set (replace_row r' (t_products d))" for x
  proof -
    from that obtain y where y: "y \<in> set (t_products d)"
      and x: "x = (if pr_id y = pr_id r' then r' else y)"
      by (auto simp: replace_row_def)
    from y assms(2) have "trail_ok y (trail d (pr_id y))" by (simp add: trails_ok_def)
    with x assms(4,7) show ?thesis by (cases "pr_id y = pr_id r'") simp_all
  qed
  with assms(2,3) ids show ?thesis by (auto simp: trails_ok_def tr)
qed

lemma trails_step:
  assumes "products_ok d" and "trails_ok d" and "catalog_step d n a d'" and "ar_target_id a = n"
  shows "trails_ok d'"
  using assms(3)
proof cases
  case (step_create r)
  have none: "trail d (pr_id r) = []"
    using assms(2) step_create(3) by (auto simp: trails_ok_def)
  have tr: "trail d' m = (if m = pr_id r then [a] else trail d m)" for m
    using none step_create assms(4) by (simp add: trail_def)
  have "trail_ok r [a]"
    using step_create by (simp add: trail_ok_def trail_moves_def)
  with assms(2) step_create none show ?thesis
    unfolding trails_ok_def tr by (auto simp: image_iff)
next
  case (step_edit r r')
  have "trail_ok r (trail d (pr_id r))" using assms(2) step_edit(3) by (simp add: trails_ok_def)
  then have "trail_ok r' (trail d (pr_id r) @ [a])"
    using step_edit by (intro trail_ok_append) simp_all
  then show ?thesis
    unfolding step_edit(2) using step_edit assms(4)
    by (intro trails_replace [OF assms(1,2)]) simp_all
next
  case (step_move r r' nxt tm)
  have r': "pr_id r' = pr_id r" "pr_status r' = nxt" "pr_version r' = pr_version r + 1"
    by (simp_all add: step_move move_row_def)
  have "trail_ok r (trail d (pr_id r))" using assms(2) step_move(3) by (simp add: trails_ok_def)
  then have "trail_ok r' (trail d (pr_id r) @ [a])"
    using step_move r' edge_action_not_update by (intro trail_ok_append) simp_all
  then show ?thesis
    unfolding step_move(2) using step_move r' assms(4)
    by (intro trails_replace [OF assms(1,2)]) simp_all
next
  case (step_category cs)
  then have "trail d' m = trail d m" for m by (simp add: trail_def)
  with assms(2) step_category show ?thesis by (simp add: trails_ok_def)
qed

lemma trails_run:
  assumes "scan_ok env" and "numeric2_ok env" and "list_all (plain_event env) es"
  shows "trails_ok (tables_of (run_events env es migrated_db))"
proof -
  have "trails_ok (tables_of migrated_db)"
    by (simp add: trails_ok_def trail_def tables_of_def migrated_db_def)
  from run_events_induct [where I = trails_ok and es = es, OF assms(1,2) migrated_db_inv this]
  show ?thesis using trails_step assms(3) by blast
qed

subsection \<open>Versions only grow\<close>

definition version_floor :: "int \<Rightarrow> int \<Rightarrow> tables \<Rightarrow> bool" where
  "version_floor n v d \<longleftrightarrow> (\<exists>r \<in> set (t_products d). pr_id r = n \<and> v \<le> pr_version r)"

lemma floor_replace:
  assumes "products_ok d" and "version_floor n v d" and "r \<in> set (t_products d)"
    and "pr_id r' = pr_id r" and "pr_version r' = pr_version r + 1"
  shows "version_floor n v (d\<lparr>t_products := replace_row r' (t_products d), t_audits := as\<rparr>)"
proof -
  from assms(2) obtain x where x: "x \<in> set (t_products d)" "pr_id x = n" "v \<le> pr_version x"
    by (auto simp: version_floor_def)
  let ?y = "if pr_id x = pr_id r' then r' else x"
  have "x = r" if "pr_id x = pr_id r'"
    using that assms(1,3,4) x(1) by (metis distinct_map inj_onD products_ok_def)
  then have "pr_id ?y = n \<and> v \<le> pr_version ?y" using x assms(4,5) by auto
  moreover have "?y \<in> set (replace_row r' (t_products d))"
    using x(1) unfolding replace_row_def set_map by (rule image_eqI [OF refl])
  ultimately show ?thesis unfolding version_floor_def by auto
qed

lemma floor_step:
  assumes "products_ok d" and "version_floor n v d" and "catalog_step d m a d'"
  shows "version_floor n v d'"
  using assms(3)
proof cases
  case (step_create r)
  with assms(2) show ?thesis by (auto simp: version_floor_def)
next
  case (step_edit r r')
  then show ?thesis unfolding step_edit(2) by (intro floor_replace [OF assms(1,2)]) simp_all
next
  case (step_move r r' nxt tm)
  then show ?thesis
    unfolding step_move(2) by (intro floor_replace [OF assms(1,2)]) (simp_all add: move_row_def)
next
  case (step_category cs)
  with assms(2) show ?thesis by (simp add: version_floor_def)
qed

lemma UpdateProduct_Inr_version:
  assumes "UpdateProduct env i s = (Inr p, t)" and "scan_ok env" and "db_inv s"
  obtains n r where "int4in env (ui_ID i) = Some n" "r \<in> set (products s)" "pr_id r = n"
    "pr_version r = ui_ExpectedVersion i" "version_floor n (pr_version r + 1) (tables_of t)"
proof -
  from assms(1) obtain fs s1 fs' where
    "update_product_tx env i (s\<lparr>faults := fs\<rparr>) = (Inr p, s1)" and t: "t = s1\<lparr>faults := fs'\<rparr>"
    unfolding UpdateProduct_def by (rule begin_func_Inr)
  let ?s0 = "s\<lparr>faults := fs\<rparr>"
  from \<open>update_product_tx env i ?s0 = (Inr p, s1)\<close> assms(2) obtain n r c
    where n: "int4in env (ui_ID i) = Some n"
    and r0: "r \<in> set (products ?s0)" and r1: "pr_id r = n" "pr_version r = ui_ExpectedVersion i"
    and rows: "products s1 = map (\<lambda>x. if pr_id x = n \<and> pr_version x = ui_ExpectedVersion i
       then update_row i c (category_id_of ?s0 (ui_Category i)) (clock ?s0) x else x)
       (products ?s0)"
    by (rule update_product_tx_effect)
  from r0 r1 have r: "r \<in> set (products s)" "pr_id r = n" "pr_version r = ui_ExpectedVersion i"
    by simp_all
  let ?r' = "update_row i c (category_id_of (s\<lparr>faults := fs\<rparr>) (ui_Category i)) (clock ?s0) r"
  have "?r' \<in> set (products s1)" using r unfolding rows by (auto intro!: image_eqI [of _ _ r])
  moreover have "pr_id ?r' = n" "pr_version ?r' = pr_version r + 1"
    using r by (simp_all add: update_row_def)
  ultimately have "version_floor n (pr_version r + 1) (tables_of t)"
    unfolding version_floor_def t by (intro bexI [of _ ?r']) (simp_all add: tables_of_def)
  with n r that show ?thesis by blast
qed

lemma stale_update_refused:
  assumes "UpdateProduct env j s = (Inr q, t)" and "scan_ok env" and "db_inv s"
    and "int4in env (ui_ID j) = Some n" and "version_floor n v (tables_of s)"
  shows "v \<le> ui_ExpectedVersion j"
proof -
  from assms(1,2,3) obtain r where r: "r \<in> set (products s)" "pr_id r = n"
    "pr_version r = ui_ExpectedVersion j"
    using assms(4) by (elim UpdateProduct_Inr_version) auto
  from assms(5) obtain x where "x \<in> set (products s)" "pr_id x = n" "v \<le> pr_version x"
    by (auto simp: version_floor_def tables_of_def)
  with r id_inj [OF assms(3)] show ?thesis by metis
qed

subsection \<open>Running a command on a healthy connection\<close>

text \<open>Running a command needs well-formed rows only, not the state of the sequences.\<close>

lemma rows_distinct_ids: "products_ok (tables_of s) \<Longrightarrow> distinct (map pr_id (products s))"
  by (simp add: products_ok_def tables_of_def)

lemma rows_distinct_names: "products_ok (tables_of s) \<Longrightarrow> distinct (map pr_name (products s))"
  by (simp add: products_ok_def tables_of_def)

lemma rows_row_ok: "products_ok (tables_of s) \<Longrightarrow> r \<in> set (products s) \<Longrightarrow> row_ok r"
  by (simp add: products_ok_def tables_of_def)

lemma rows_id_inj:
  "products_ok (tables_of s) \<Longrightarrow> x \<in> set (products s) \<Longrightarrow> y \<in> set (products s) \<Longrightarrow>
     pr_id x = pr_id y \<Longrightarrow> x = y"
  by (meson rows_distinct_ids distinct_map inj_onD)

lemma db_inv_products_ok: "db_inv s \<Longrightarrow> products_ok (tables_of s)"
  by (simp add: db_inv_def)

lemma map_pr_id_replace_row [simp]: "map pr_id (replace_row r' rows) = map pr_id rows"
  by (simp add: replace_row_def)

lemma filter_distinct_id:
  assumes "distinct (map pr_id rows)" and "r \<in> set rows" and "P r"
  shows "filter (\<lambda>x. pr_id x = pr_id r \<and> P x) rows = [r]"
  using assms
proof (induction rows)
  case (Cons x xs)
  show ?case
  proof (cases "x = r")
    case True
    with Cons.prems have "filter (\<lambda>x. pr_id x = pr_id r \<and> P x) xs = []"
      by (auto simp: filter_empty_conv image_iff)
    with True Cons.prems show ?thesis by simp
  next
    case False
    with Cons show ?thesis by (auto simp: image_iff)
  qed
qed simp

lemma select_product_run:
  assumes "distinct (map pr_id (products s))" and "scan_ok env" and "faults s = []"
    and "int4in env ident = Some (pr_id r)" and "r \<in> set (products s)"
  shows "select_product env scan ident s = (scan s r, s)"
proof -
  let ?rows = "scan_order env (products s)"
  have "mset ?rows = mset (products s)" using assms(2) by (simp add: scan_ok_def)
  then have "distinct (map pr_id ?rows)"
    using assms(1) by (metis mset_eq_imp_distinct_iff mset_map)
  moreover have "r \<in> set ?rows" using assms(5) by (simp add: set_scan_order [OF assms(2)])
  ultimately have "filter (\<lambda>x. pr_id x = pr_id r) ?rows = [r]"
    using filter_distinct_id [where P = "\<lambda>_. True"] by simp
  with assms(3,4) show ?thesis
    by (simp add: select_product_def with_int4_def first_row_def)
qed

lemma select_product_missing:
  assumes "scan_ok env" and "faults s = []" and "int4in env ident = Some n"
    and "n \<notin> pr_id ` set (products s)"
  shows "select_product env scan ident s = (Inl ErrNoRows, s)"
  using filter_no_id [OF assms(1), where P = "\<lambda>x. pr_id x = n"] assms(2,3,4)
  by (force simp: select_product_def with_int4_def first_row_def)

definition audit_fits :: "AuditEntry \<Rightarrow> bool" where
  "audit_fits e \<longleftrightarrow> rune_count (Action e) \<le> 32 \<and> rune_count (ActorSub e) \<le> 255 \<and>
     rune_count (Reason e) \<le> 64 \<and> rune_count (RequestID e) \<le> 64"

lemma insertAudit_run:
  assumes "faults s = []" and "is_int4 (TargetID e)" and "audit_fits e"
    and "TargetType e = ''product'' \<or> TargetType e = ''category''"
  shows "insertAudit e s = (Inr (), s\<lparr>next_aid := next_aid s + 1,
     audits := audits s @ [audit_of e (next_aid s) (clock s)]\<rparr>)"
  using assms
  by (auto simp: insertAudit_def on_err_def insert_audit_row_def audit_of_def audit_fits_def
      Let_def)

lemma begin_func_run:
  assumes "faults s = []"
  shows "body s = (Inl e, s1) \<Longrightarrow> begin_func body s = (Inl e, rollback s s1)"
    and "body s = (Inr v, s1) \<Longrightarrow> faults s1 = [] \<Longrightarrow> begin_func body s = (Inr v, s1)"
  using assms by (simp_all add: begin_func_no_faults)

lemma rollback_self [simp]: "rollback s s = s"
  by (simp add: rollback_def)

lemma rollback_pid [simp]: "rollback s (s\<lparr>next_pid := n\<rparr>) = s\<lparr>next_pid := n\<rparr>"
  by (cases s) (simp add: rollback_def)

lemma replace_row_names:
  "(\<And>x. pr_name (f x) = pr_name x) \<Longrightarrow>
     map pr_name (map (\<lambda>x. if P x then f x else x) rows) = map pr_name rows"
  by simp

lemma move_row_sel [simp]:
  "pr_id (move_row nxt tm r) = pr_id r" "pr_status (move_row nxt tm r) = nxt"
  "pr_version (move_row nxt tm r) = pr_version r + 1"
  by (simp_all add: move_row_def)

lemma transition_stmt_run:
  assumes "products_ok (tables_of s)" and "r \<in> set (products s)" and "int4in env ident = Some (pr_id r)"
    and "pr_version r < max_int64"
  shows "transition_stmt env ident nxt s =
     (Inr 1, s\<lparr>products := replace_row (move_row nxt (clock s) r) (products s)\<rparr>)"
proof -
  define rows where
    "rows = map (\<lambda>x. if pr_id x = pr_id r then move_row nxt (clock s) x else x) (products s)"
  have eq: "rows = replace_row (move_row nxt (clock s) r) (products s)"
    unfolding rows_def
    by (rule replace_row_one [OF rows_distinct_ids [OF assms(1)] assms(2)]) (simp add: move_row_def)
  have "map pr_name rows = map pr_name (products s)"
    unfolding rows_def by (rule replace_row_names) (simp add: move_row_def)
  then have names: "distinct (map pr_name rows)" using rows_distinct_names [OF assms(1)] by simp
  have one: "length (filter (\<lambda>x. pr_id x = pr_id r) (products s)) = 1"
    using filter_distinct_id [where P = "\<lambda>_. True", OF rows_distinct_ids [OF assms(1)] assms(2)]
    by simp
  have ok: "0 \<le> pr_price x \<and> pr_version x \<le> max_int64" if "x \<in> set rows" for x
  proof -
    from that obtain y where y: "y \<in> set (products s)"
      and x: "x = (if pr_id y = pr_id r then move_row nxt (clock s) y else y)"
      unfolding rows_def set_map by (rule imageE)
    from rows_row_ok [OF assms(1) y] rows_id_inj [OF assms(1) y assms(2)] assms(4)
    show ?thesis by (cases "pr_id y = pr_id r") (simp_all add: x move_row_def row_ok_def)
  qed
  show ?thesis
    using assms(3) names ok one
    by (simp add: transition_stmt_def update_products_def Let_def rows_def [symmetric]
        list_all_iff eq [symmetric])
qed

lemma Transition_run:
  assumes "products_ok (tables_of s)" and "scan_ok env" and "faults s = []" and "r \<in> set (products s)"
    and "int4in env (ti_ID i) = Some (pr_id r)" and "is_int4 (audit_target (ti_ID i))"
    and "pr_version r < max_int64" and "NextStatus (pr_status r) (ti_Action i) = Inr nxt"
    and "audit_fits (transition_audit i (pr_status r) nxt (pr_version r))"
  shows "Transition env i s = (Inr (admin_product s (move_row nxt (clock s) r)),
     s\<lparr>products := replace_row (move_row nxt (clock s) r) (products s),
       next_aid := next_aid s + 1, audits := audits s @
         [audit_of (transition_audit i (pr_status r) nxt (pr_version r)) (next_aid s) (clock s)]\<rparr>)"
proof -
  let ?r = "move_row nxt (clock s) r"
    and ?e = "transition_audit i (pr_status r) nxt (pr_version r)"
  define s2 where "s2 = s\<lparr>products := replace_row ?r (products s)\<rparr>"
  define s3 where "s3 = s2\<lparr>next_aid := next_aid s + 1,
    audits := audits s @ [audit_of ?e (next_aid s) (clock s)]\<rparr>"
  have 1: "select_product env scan_state (ti_ID i) s = (Inr (pr_status r, pr_version r), s)"
    using select_product_run [OF rows_distinct_ids [OF assms(1)] assms(2,3,5,4), of scan_state] by (simp add: scan_state_def)
  have st: "transition_stmt env (ti_ID i) nxt s = (Inr 1, s2)"
    unfolding s2_def by (rule transition_stmt_run [OF assms(1,4,5,7)])
  then have 2: "stmt (transition_stmt env (ti_ID i) nxt) s = (Inr 1, s2)"
    using assms(3) by simp
  have "is_int4 (TargetID ?e)"
    using assms(6) by (simp add: transition_audit_def)
  then have 3: "insertAudit ?e s2 = (Inr (), s3)"
    using insertAudit_run [of s2 ?e] assms(3,9)
    by (simp add: s3_def s2_def transition_audit_def)
  have inv3: "distinct (map pr_id (products s3))"
    using rows_distinct_ids [OF assms(1)] by (simp add: s3_def s2_def)
  have "?r \<in> set (products s3)"
    using assms(4) by (auto simp: s3_def s2_def replace_row_def move_row_def image_iff)
  moreover have "int4in env (ti_ID i) = Some (pr_id ?r)" using assms(5) by (simp add: move_row_def)
  moreover have "faults s3 = []" using assms(3) by (simp add: s3_def s2_def)
  ultimately have 4: "select_product env scanAdminProduct (ti_ID i) s3 = (Inr (admin_product s ?r), s3)"
    using select_product_run [OF inv3 assms(2), of "ti_ID i" ?r scanAdminProduct]
      admin_product_cong [of s3 s]
    by (simp add: scanAdminProduct_def s3_def s2_def)
  have "transition_tx env i s = (Inr (admin_product s ?r), s3)"
    unfolding transition_tx_def apply_transition_def
    by (simp add: seq_def on_err_def 1 2 3 4 assms(8))
  then have "Transition env i s = (Inr (admin_product s ?r), s3)"
    unfolding Transition_def using \<open>faults s3 = []\<close> by (intro begin_func_run assms(3))
  then show ?thesis by (simp add: s3_def s2_def)
qed

lemma update_stmt_run:
  assumes "products_ok (tables_of s)" and "r \<in> set (products s)" and "int4in env (ui_ID i) = Some (pr_id r)"
    and "pr_version r < max_int64" and "pr_version r = ui_ExpectedVersion i"
    and "convert_params env (ui_Name i) (ui_Price i) = Inr c" and "0 \<le> c"
    and "\<forall>x \<in> set (products s). pr_id x \<noteq> pr_id r \<longrightarrow> pr_name x \<noteq> ui_Name i"
  shows "update_stmt env i s = (Inr 1, s\<lparr>products := replace_row
     (update_row i c (category_id_of s (ui_Category i)) (clock s) r) (products s)\<rparr>)"
proof -
  let ?f = "update_row i c (category_id_of s (ui_Category i)) (clock s)"
  let ?P = "\<lambda>x. pr_id x = pr_id r \<and> pr_version x = ui_ExpectedVersion i"
  define rows where "rows = map (\<lambda>x. if ?P x then ?f x else x) (products s)"
  have eq: "rows = replace_row (?f r) (products s)"
    unfolding rows_def
    by (rule replace_by_id [where P = "\<lambda>x. pr_version x = ui_ExpectedVersion i",
          OF rows_distinct_ids [OF assms(1)] assms(2,5)]) (simp add: update_row_def)
  have names: "distinct (map pr_name rows)"
  proof -
    have f: "pr_name (?f r) = ui_Name i" "pr_id (?f r) = pr_id r" by (simp_all add: update_row_def)
    have d: "distinct (products s)" "inj_on pr_name (set (products s))"
      using rows_distinct_names [OF assms(1)] by (simp_all add: distinct_map)
    have "inj_on (\<lambda>x. pr_name (if pr_id x = pr_id r then ?f r else x)) (set (products s))"
    proof (rule inj_onI)
      fix x y assume xy: "x \<in> set (products s)" "y \<in> set (products s)"
        and e: "pr_name (if pr_id x = pr_id r then ?f r else x) =
          pr_name (if pr_id y = pr_id r then ?f r else y)"
      show "x = y"
        using xy e assms(8) f(1) d(2) rows_id_inj [OF assms(1) xy(1) assms(2)]
          rows_id_inj [OF assms(1) xy(2) assms(2)]
        by (cases "pr_id x = pr_id r"; cases "pr_id y = pr_id r") (auto dest: inj_onD)
    qed
    with d(1) show ?thesis
      unfolding eq replace_row_def f(2) by (simp add: distinct_map o_def comp_inj_on_iff
          distinct_map [of "\<lambda>x. pr_name (if pr_id x = pr_id r then ?f r else x)", unfolded o_def])
  qed
  have one: "length (filter ?P (products s)) = 1"
    using filter_distinct_id [where P = "\<lambda>x. pr_version x = ui_ExpectedVersion i",
        OF rows_distinct_ids [OF assms(1)] assms(2,5)] by simp
  have ok: "0 \<le> pr_price x \<and> pr_version x \<le> max_int64" if "x \<in> set rows" for x
  proof -
    from that obtain y where y: "y \<in> set (products s)" and x: "x = (if ?P y then ?f y else y)"
      unfolding rows_def set_map by (rule imageE)
    from rows_row_ok [OF assms(1) y] rows_id_inj [OF assms(1) y assms(2)] assms(4,7)
    show ?thesis unfolding x by (auto simp: update_row_def row_ok_def)
  qed
  show ?thesis
    using assms(3,6) names ok one
    by (simp add: update_stmt_def update_products_def Let_def rows_def [symmetric]
        list_all_iff eq [symmetric])
qed

lemma UpdateProduct_run:
  assumes "products_ok (tables_of s)" and "scan_ok env" and "faults s = []"
    and "r \<in> set (products s)" and "int4in env (ui_ID i) = Some (pr_id r)"
    and "is_int4 (audit_target (ui_ID i))" and "pr_version r < max_int64"
    and "pr_version r = ui_ExpectedVersion i"
    and "convert_params env (ui_Name i) (ui_Price i) = Inr c" and "0 \<le> c"
    and "\<forall>x \<in> set (products s). pr_id x \<noteq> pr_id r \<longrightarrow> pr_name x \<noteq> ui_Name i"
    and "audit_fits (update_audit i (admin_product s r))"
    and "r' = update_row i c (category_id_of s (ui_Category i)) (clock s) r"
  shows "UpdateProduct env i s = (Inr (admin_product s r'),
     s\<lparr>products := replace_row r' (products s), next_aid := next_aid s + 1,
       audits := audits s @ [audit_of (update_audit i (admin_product s r)) (next_aid s) (clock s)]\<rparr>)"
proof -
  let ?e = "update_audit i (admin_product s r)"
  define s2 where "s2 = s\<lparr>products := replace_row r' (products s)\<rparr>"
  define s3 where "s3 = s2\<lparr>next_aid := next_aid s + 1,
    audits := audits s @ [audit_of ?e (next_aid s) (clock s)]\<rparr>"
  have 1: "select_product env scanAdminProduct (ui_ID i) s = (Inr (admin_product s r), s)"
    using select_product_run [OF rows_distinct_ids [OF assms(1)] assms(2,3,5,4), of scanAdminProduct]
    by (simp add: scanAdminProduct_def)
  have st: "update_stmt env i s = (Inr 1, s2)"
    unfolding s2_def assms(13) by (rule update_stmt_run [OF assms(1,4,5,7,8,9,10,11)])
  then have 2: "stmt (update_stmt env i) s = (Inr 1, s2)" using assms(3) by simp
  have "is_int4 (TargetID ?e)"
    using assms(6) by (simp add: update_audit_def)
  then have 3: "insertAudit ?e s2 = (Inr (), s3)"
    using insertAudit_run [of s2 ?e] assms(3,12) by (simp add: s3_def s2_def update_audit_def)
  have inv3: "distinct (map pr_id (products s3))"
    using rows_distinct_ids [OF assms(1)] by (simp add: s3_def s2_def)
  have id: "pr_id r' = pr_id r" by (simp add: assms(13) update_row_def)
  have "r' \<in> set (products s3)"
    using assms(4) id by (auto simp: s3_def s2_def replace_row_def image_iff)
  moreover have "int4in env (ui_ID i) = Some (pr_id r')" using assms(5) id by simp
  moreover have "faults s3 = []" using assms(3) by (simp add: s3_def s2_def)
  ultimately have 4: "select_product env scanAdminProduct (ui_ID i) s3 = (Inr (admin_product s r'), s3)"
    using select_product_run [OF inv3 assms(2), of "ui_ID i" r' scanAdminProduct]
      admin_product_cong [of s3 s]
    by (simp add: scanAdminProduct_def s3_def s2_def)
  have "update_product_tx env i s = (Inr (admin_product s r'), s3)"
    unfolding update_product_tx_def by (simp add: seq_def on_err_def 1 2 3 4 assms(8))
  then have "UpdateProduct env i s = (Inr (admin_product s r'), s3)"
    unfolding UpdateProduct_def using \<open>faults s3 = []\<close> by (intro begin_func_run assms(3))
  then show ?thesis by (simp add: s3_def s2_def)
qed

lemma Transition_refused:
  assumes "products_ok (tables_of s)" and "scan_ok env" and "faults s = []" and "r \<in> set (products s)"
    and "int4in env (ti_ID i) = Some (pr_id r)" and "NextStatus (pr_status r) (ti_Action i) = Inl e"
  shows "Transition env i s = (Inl e, s)"
proof -
  have 1: "select_product env scan_state (ti_ID i) s = (Inr (pr_status r, pr_version r), s)"
    using select_product_run [OF rows_distinct_ids [OF assms(1)] assms(2,3,5,4), of scan_state] by (simp add: scan_state_def)
  have "transition_tx env i s = (Inl e, s)"
    unfolding transition_tx_def apply_transition_def
    by (simp add: seq_def on_err_def 1 assms(6))
  from begin_func_run(1) [where body = "transition_tx env i", OF assms(3) this]
  show ?thesis by (simp add: Transition_def)
qed

lemma UpdateProduct_stale:
  assumes "products_ok (tables_of s)" and "scan_ok env" and "faults s = []" and "r \<in> set (products s)"
    and "int4in env (ui_ID i) = Some (pr_id r)" and "pr_version r \<noteq> ui_ExpectedVersion i"
  shows "UpdateProduct env i s = (Inl (Wrapf (''have version '' @ Itoa (pr_version r) @
     '', sent '' @ Itoa (ui_ExpectedVersion i)) ErrVersionConflict), s)"
proof -
  have 1: "select_product env scanAdminProduct (ui_ID i) s = (Inr (admin_product s r), s)"
    using select_product_run [OF rows_distinct_ids [OF assms(1)] assms(2,3,5,4), of scanAdminProduct]
    by (simp add: scanAdminProduct_def)
  have "update_product_tx env i s = (Inl (Wrapf (''have version '' @ Itoa (pr_version r) @
     '', sent '' @ Itoa (ui_ExpectedVersion i)) ErrVersionConflict), s)"
    using assms(6) by (simp add: update_product_tx_def seq_def on_err_def 1)
  from begin_func_run(1) [where body = "update_product_tx env i", OF assms(3) this]
  show ?thesis by (simp add: UpdateProduct_def)
qed

lemma CreateProduct_duplicate:
  assumes "faults s = []" and "is_int4 (next_pid s)"
    and "ci_Name i \<in> set (map pr_name (products s))"
    and "convert_params env (ci_Name i) (ci_Price i) = Inr c" and "0 \<le> c"
  shows "CreateProduct env i s = (Inl (Wrapf (''a product named '' @ quote (ci_Name i) @
     '' exists'') ErrConflict), s\<lparr>next_pid := next_pid s + 1\<rparr>)"
proof -
  have "insert_product env (ci_Name i) (ci_Description i) (ci_Price i) (ci_Category i) StatusDraft s =
      (Inl (PgError pgUniqueViolation), s\<lparr>next_pid := next_pid s + 1\<rparr>)"
    using assms(2-5) by (simp add: insert_product_def Let_def)
  then have "create_product_tx env i s = (Inl (Wrapf (''a product named '' @ quote (ci_Name i) @
     '' exists'') ErrConflict), s\<lparr>next_pid := next_pid s + 1\<rparr>)"
    using assms(1) by (simp add: create_product_tx_def seq_def on_err_def unique_or_def)
  from begin_func_run(1) [where body = "create_product_tx env i", OF assms(1) this]
  show ?thesis by (simp add: CreateProduct_def)
qed

subsection \<open>Properties\<close>

text \<open>
  C1. All or nothing: whatever the connection does, a privileged command either leaves
  every table as it was and reports an error, or makes exactly one step of the abstract
  catalog, the change together with the audit row that describes it, and reports success
  (or, when the answer to \<open>COMMIT\<close> is lost, the driver's error).
\<close>

theorem command_atomic:
  assumes "scan_ok env" and "db_inv s" and "run_cmd env c s = (r, t)"
  shows "(tables_of t = tables_of s \<and> r \<noteq> None) \<or>
    (\<exists>n a. catalog_step (tables_of s) n a (tables_of t) \<and>
       t_audits (tables_of t) = t_audits (tables_of s) @ [a] \<and>
       (plain_id env c \<longrightarrow> ar_target_id a = n) \<and> (r = None \<or> r = Some DriverErr))"
proof -
  have "t_audits d' = t_audits d @ [a]" if "catalog_step d n a d'" for d n a d'
    using that by cases simp_all
  with run_cmd_step [OF assms] show ?thesis unfolding makes_step_def by blast
qed

text \<open>
  The audit trail is complete: in every database that operators can reach from the
  migrated schema, with any commands (by canonical ids), clock and faults, the trail of a
  product starts with its CREATE, numbers its versions \<open>1..n\<close> without a gap, ends at the
  version the row carries, and its lifecycle commands replayed from DRAFT give the row's
  status.
\<close>

theorem audit_trail_replays:
  assumes "scan_ok env" and "numeric2_ok env" and "list_all (plain_event env) es"
    and "r \<in> set (products (run_events env es migrated_db))"
    and "h = trail (tables_of (run_events env es migrated_db)) (pr_id r)"
  shows "pr_version r = int (length h) \<and> ar_action (hd h) = ''CREATE'' \<and>
     map ar_version_after h = map (\<lambda>i. Some (int i)) [1..<Suc (length h)] \<and>
     map ar_version_before (tl h) = map (\<lambda>i. Some (int i)) [1..<length h] \<and>
     lifecycle_run StatusDraft (trail_moves (tl h)) (pr_status r)"
proof -
  have "trail_ok r h"
    using trails_run [OF assms(1-3)] assms(4,5) by (simp add: trails_ok_def tables_of_def)
  then show ?thesis by (auto simp: trail_ok_def)
qed

text \<open>
  No update is lost: once an edit that carried version \<open>v\<close> has succeeded, no later edit
  of the same product that carries \<open>v\<close> succeeds, whatever other commands, faults and time
  lie between them.
\<close>

theorem no_lost_update:
  assumes "scan_ok env" and "numeric2_ok env" and "db_inv s"
    and "UpdateProduct env i s = (Inr p, t)"
    and "int4in env (ui_ID j) = int4in env (ui_ID i)"
    and "ui_ExpectedVersion j = ui_ExpectedVersion i"
  shows "\<exists>e. fst (UpdateProduct env j (run_events env es t)) = Inl e"
proof -
  obtain n r where n: "int4in env (ui_ID i) = Some n"
    and "r \<in> set (products s)" "pr_id r = n"
    and v: "pr_version r = ui_ExpectedVersion i"
    and fl: "version_floor n (pr_version r + 1) (tables_of t)"
    by (rule UpdateProduct_Inr_version [OF assms(4,1,3)])
  have "run_event env (Command (Do_update i)) s = t" using assms(4) by simp
  then have inv: "db_inv t" using run_event_inv [OF assms(2,3)] by metis
  have *: "db_inv (run_events env es t) \<and>
      version_floor n (pr_version r + 1) (tables_of (run_events env es t))"
    by (rule run_events_induct [where I = "version_floor n (pr_version r + 1)",
          OF assms(1,2) inv fl]) (rule floor_step)
  show ?thesis
  proof (cases "UpdateProduct env j (run_events env es t)")
    case (Pair x u)
    show ?thesis
    proof (cases x)
      case (Inr q)
      with Pair have "UpdateProduct env j (run_events env es t) = (Inr q, u)" by simp
      from stale_update_refused [OF this assms(1)] * n assms(5)
      have "pr_version r + 1 \<le> ui_ExpectedVersion j" by simp
      with v assms(6) show ?thesis by simp
    qed (simp add: Pair)
  qed
qed

text \<open>
  C26. A stale edit is refused before anything is written: it answers a version conflict
  that names both versions and also reads as a conflict, and the database is unchanged.
\<close>

theorem stale_edit_conflict:
  assumes "db_inv s" and "scan_ok env" and "faults s = []" and "r \<in> set (products s)"
    and "int4in env (ui_ID i) = Some (pr_id r)" and "pr_version r \<noteq> ui_ExpectedVersion i"
  shows "\<exists>e. UpdateProduct env i s = (Inl e, s) \<and> errors_Is e ErrVersionConflict \<and>
     errors_Is e ErrConflict \<and> error_text e = ''have version '' @ Itoa (pr_version r) @ '', sent '' @
       Itoa (ui_ExpectedVersion i) @ '': '' @ error_text ErrVersionConflict"
  using UpdateProduct_stale [OF db_inv_products_ok [OF assms(1)] assms(2-)] by simp

text \<open>
  C20. A lifecycle command does what the diagram says: on a healthy connection, a command
  along an edge moves exactly that row, raises its version by one and logs the edge; any
  other command is refused and changes nothing.
\<close>

theorem Transition_follows_lifecycle:
  assumes "db_inv s" and "scan_ok env" and "faults s = []" and "r \<in> set (products s)"
    and "int4in env (ti_ID i) = Some (pr_id r)" and "Atoi (ti_ID i) = Some (pr_id r)"
    and "pr_version r < max_int64"
    and "\<And>nxt. audit_fits (transition_audit i (pr_status r) nxt (pr_version r))"
  shows "if \<exists>nxt. lifecycle_edge (pr_status r) (ti_Action i) nxt
     then \<exists>nxt p t a. lifecycle_edge (pr_status r) (ti_Action i) nxt \<and>
       Transition env i s = (Inr p, t) \<and> ap_Status p = nxt \<and> ap_Version p = pr_version r + 1 \<and>
       products t = replace_row (move_row nxt (clock s) r) (products s) \<and>
       audits t = audits s @ [a] \<and> ar_action a = ti_Action i \<and> ar_target_id a = pr_id r \<and>
       ar_actor_sub a = ti_ActorSub i
     else \<exists>e. Transition env i s = (Inl e, s)"
proof (cases "NextStatus (pr_status r) (ti_Action i)")
  case (Inl e)
  then have "\<nexists>nxt. lifecycle_edge (pr_status r) (ti_Action i) nxt"
    by (simp flip: NextStatus_edge)
  with Transition_refused [OF db_inv_products_ok [OF assms(1)] assms(2-5) Inl] show ?thesis by simp
next
  case (Inr nxt)
  then have "lifecycle_edge (pr_status r) (ti_Action i) nxt" by (simp add: NextStatus_edge)
  moreover have "is_int4 (audit_target (ti_ID i))"
    using db_inv_row [OF assms(1,4)] assms(6) by (simp add: audit_target_def row_ok_def)
  ultimately show ?thesis
    using Transition_run [OF db_inv_products_ok [OF assms(1)] assms(2-5) _ assms(7) Inr assms(8)]
    by (auto simp: move_row_def transition_audit_def audit_target_def assms(6))
qed

text \<open>
  A retried create is a conflict, not a second row: creating a product whose name is
  taken answers \<open>ErrConflict\<close> and leaves every table unchanged.
\<close>

theorem duplicate_create_conflict:
  assumes "faults s = []" and "is_int4 (next_pid s)"
    and "ci_Name i \<in> set (map pr_name (products s))"
    and "convert_params env (ci_Name i) (ci_Price i) = Inr c" and "0 \<le> c"
  shows "\<exists>e t. CreateProduct env i s = (Inl e, t) \<and> errors_Is e ErrConflict \<and>
     \<not> errors_Is e ErrVersionConflict \<and> tables_of t = tables_of s"
  using CreateProduct_duplicate [OF assms] by (simp add: tables_of_def)

text \<open>
  Every privileged command keeps the invariant of the database: distinct ids and names,
  prices in range, known statuses, versions in range, categories that exist.
\<close>

theorem commands_keep_invariant:
  assumes "scan_ok env" and "numeric2_ok env" and "db_inv s"
  shows "db_inv (run_events env es s)"
  using run_events_induct [where I = "\<lambda>_. True", OF assms] by simp

text \<open>
  C25. A current edit is applied: on a healthy connection, an edit that carries the row's
  version, names no other product and converts, rewrites exactly that row to what was asked
  (price as stored, category by name), raises its version by one and logs the versions.
\<close>

theorem current_edit_applied:
  assumes "db_inv s" and "scan_ok env" and "faults s = []"
    and "r \<in> set (products s)" and "int4in env (ui_ID i) = Some (pr_id r)"
    and "Atoi (ui_ID i) = Some (pr_id r)" and "pr_version r < max_int64"
    and "pr_version r = ui_ExpectedVersion i"
    and "convert_params env (ui_Name i) (ui_Price i) = Inr c" and "0 \<le> c"
    and "\<forall>x \<in> set (products s). pr_id x \<noteq> pr_id r \<longrightarrow> pr_name x \<noteq> ui_Name i"
    and "audit_fits (update_audit i (admin_product s r))"
  shows "\<exists>r' t a. products t = replace_row r' (products s) \<and> audits t = audits s @ [a] \<and>
     categories t = categories s \<and> UpdateProduct env i s = (Inr (admin_product s r'), t) \<and>
     r' = r\<lparr>pr_name := ui_Name i, pr_description := Some (ui_Description i), pr_price := c,
       pr_category_id := category_id_of s (ui_Category i),
       pr_version := ui_ExpectedVersion i + 1, pr_updated_at := clock s\<rparr> \<and>
     ar_version_before a = Some (pr_version r) \<and> ar_version_after a = Some (pr_version r + 1) \<and>
     ar_target_id a = pr_id r \<and> ar_action a = ''UPDATE'' \<and> ar_actor_sub a = ui_ActorSub i"
proof -
  have "wrap64 (pr_version r + 1) = pr_version r + 1"
    using version_step [OF db_inv_row [OF assms(1,4)]] assms(7) by simp
  moreover have "is_int4 (audit_target (ui_ID i))"
    using db_inv_row [OF assms(1,4)] assms(6) by (simp add: audit_target_def row_ok_def)
  note UpdateProduct_run [OF db_inv_products_ok [OF assms(1)] assms(2-5) this assms(7-12) refl]
  ultimately show ?thesis
    by (intro exI [of _ "update_row i c (category_id_of s (ui_Category i)) (clock s) r"]
        exI [of _ "snd (UpdateProduct env i s)"] exI [of _
          "audit_of (update_audit i (admin_product s r)) (next_aid s) (clock s)"])
       (simp add: update_row_def update_audit_def audit_target_def assms(6) assms(8))
qed

subsection \<open>The properties at concrete inputs\<close>

definition sample_publish :: TransitionInput where
  "sample_publish = \<lparr>ti_ID = ''3'', ti_Action = ActionPublish, ti_ActorSub = ''alice'',
     ti_Reason = ''ready'', ti_RequestID = ''r1''\<rparr>"

definition sample_edit :: UpdateProductInput where
  "sample_edit = \<lparr>ui_ID = ''1'', ui_Name = ''Mouse'', ui_Price = price_of_cents 2099,
     ui_Description = ''text'', ui_Category = ''Computers'', ui_ExpectedVersion = 2,
     ui_ActorSub = ''alice'', ui_Reason = [], ui_RequestID = []\<rparr>"

definition sample_create :: CreateProductInput where
  "sample_create = \<lparr>ci_Name = ''Mouse'', ci_Price = price_of_cents 100, ci_Description = [],
     ci_Category = [], ci_ActorSub = ''alice'', ci_RequestID = []\<rparr>"

lemma Atoi_samples [simp]: "Atoi ''1'' = Some 1" "Atoi ''3'' = Some 3"
  by code_simp+

lemma numeric2_sample [simp]:
  "numeric2 std_env (price_of_cents 2099) = Some 2099"
  "numeric2 std_env (price_of_cents 100) = Some 100"
  using std_numeric2_ok by (simp_all add: numeric2_ok_def max_cents_def)

lemmas sample_cmds = sample_publish_def sample_edit_def sample_create_def

lemma sample_fits [simp]:
  "audit_fits (transition_audit sample_publish st nxt v)"
  "audit_fits (update_audit sample_edit p)"
  by (simp_all add: audit_fits_def transition_audit_def update_audit_def sample_cmds
      rune_count_def action_defs)

lemma publish_run: "\<exists>p t. Transition std_env sample_publish sample_db = (Inr p, t)"
proof -
  have "sample_row 3 ''Cable'' 500 (Some 1) StatusDraft 1 \<in> set (products sample_db)" by simp
  from Transition_run [OF db_inv_products_ok [OF sample_db_inv] std_scan_ok _ this, of sample_publish StatusActive]
  show ?thesis by (simp add: sample_publish_def NextStatus_def max_int64_def audit_target_def
        is_int4_def sample_fits(1) [unfolded sample_publish_def])
qed

lemma edit_facts:
  "convert_params std_env ''Mouse'' (ui_Price sample_edit) = Inr 2099"
  "int4in std_env (ui_ID sample_edit) = Some 1" "Atoi (ui_ID sample_edit) = Some 1"
  "ui_ExpectedVersion sample_edit = 2" "ui_Name sample_edit = ''Mouse''"
  by (simp_all add: sample_edit_def convert_params_def rune_count_def)

theorem current_edit_applied_witness:
  "\<exists>p t. UpdateProduct std_env sample_edit sample_db = (Inr p, t) \<and> length (audits t) = 1"
proof -
  have "sample_row 1 ''Mouse'' 1999 (Some 1) StatusActive 2 \<in> set (products sample_db)" by simp
  from current_edit_applied [OF sample_db_inv std_scan_ok _ this, of sample_edit 2099]
  obtain r' t a where "audits t = audits sample_db @ [a]"
    and "UpdateProduct std_env sample_edit sample_db = (Inr (admin_product sample_db r'), t)"
    by (auto simp: edit_facts max_int64_def)
  then show ?thesis by auto
qed

lemma edit_run: "\<exists>p t. UpdateProduct std_env sample_edit sample_db = (Inr p, t)"
proof -
  have "sample_row 1 ''Mouse'' 1999 (Some 1) StatusActive 2 \<in> set (products sample_db)" by simp
  from UpdateProduct_run [OF db_inv_products_ok [OF sample_db_inv] std_scan_ok _ this, of sample_edit 2099]
  show ?thesis by (simp add: edit_facts max_int64_def audit_target_def is_int4_def)
qed

theorem command_atomic_witness:
  "\<exists>t n a. run_cmd std_env (Do_transition sample_publish) sample_db = (None, t) \<and>
     catalog_step (tables_of sample_db) n a (tables_of t) \<and> ar_target_id a = n"
proof -
  from publish_run obtain p t where "Transition std_env sample_publish sample_db = (Inr p, t)"
    by blast
  then have run: "run_cmd std_env (Do_transition sample_publish) sample_db = (None, t)"
    by (simp add: outcome_def)
  have "plain_id std_env (Do_transition sample_publish)" by (simp add: sample_publish_def)
  with command_atomic [OF std_scan_ok sample_db_inv run] run show ?thesis by blast
qed

theorem no_lost_update_witness:
  "\<exists>e. fst (UpdateProduct std_env sample_edit (run_events std_env
     [Tick 5, Connection [Runs, Lost], Command (Do_transition sample_publish), Connection []]
     (snd (UpdateProduct std_env sample_edit sample_db)))) = Inl e"
proof -
  from edit_run obtain p t where u: "UpdateProduct std_env sample_edit sample_db = (Inr p, t)"
    by blast
  from no_lost_update [OF std_scan_ok std_numeric2_ok sample_db_inv u refl refl] u
  show ?thesis by simp
qed

theorem stale_edit_conflict_witness:
  "\<exists>e. UpdateProduct std_env (sample_edit\<lparr>ui_ExpectedVersion := 1\<rparr>) sample_db =
     (Inl e, sample_db) \<and> errors_Is e ErrVersionConflict"
proof -
  have "sample_row 1 ''Mouse'' 1999 (Some 1) StatusActive 2 \<in> set (products sample_db)" by simp
  from stale_edit_conflict [OF sample_db_inv std_scan_ok _ this,
      of "sample_edit\<lparr>ui_ExpectedVersion := 1\<rparr>"]
  show ?thesis by (auto simp: edit_facts)
qed

theorem Transition_follows_lifecycle_witness:
  "\<exists>p t. Transition std_env sample_publish sample_db = (Inr p, t) \<and> ap_Status p = StatusActive"
proof -
  have r: "sample_row 3 ''Cable'' 500 (Some 1) StatusDraft 1 \<in> set (products sample_db)" by simp
  have "\<exists>nxt. lifecycle_edge StatusDraft ActionPublish nxt" by (auto intro: lifecycle_edge.intros)
  with Transition_follows_lifecycle [OF sample_db_inv std_scan_ok _ r, of sample_publish]
  show ?thesis
    by (auto simp: sample_publish_def max_int64_def sample_fits(1) [unfolded sample_publish_def]
        lifecycle_edge_iff)
qed

theorem duplicate_create_conflict_witness:
  "\<exists>e t. CreateProduct std_env sample_create sample_db = (Inl e, t) \<and> errors_Is e ErrConflict"
  using duplicate_create_conflict [of sample_db sample_create std_env 100]
  by (auto simp: sample_create_def is_int4_def convert_params_def rune_count_def)

theorem commands_keep_invariant_witness:
  "db_inv (run_events std_env [Command (Do_create sample_create), Tick 1,
     Command (Do_transition sample_publish)] sample_db)"
  by (rule commands_keep_invariant [OF std_scan_ok std_numeric2_ok sample_db_inv])


lemma create_run:
  "\<exists>r. products (run_events std_env [Command (Do_create sample_create)] migrated_db) = [r] \<and>
     pr_id r = 1"
proof -
  have f: "faults migrated_db = []" by (simp add: migrated_db_def)
  let ?row = "product_row 1 ''Mouse'' [] 100 None StatusDraft 0"
  define s1 where "s1 = migrated_db\<lparr>next_pid := 2, products := [?row]\<rparr>"
  have 1: "insert_product std_env ''Mouse'' [] (price_of_cents 100) [] StatusDraft migrated_db =
      (Inr 1, s1)"
    by (simp add: s1_def insert_product_def convert_params_def rune_count_def Let_def is_int4_def
        migrated_db_def category_id_of_def reference_category_def)
  define s2 where "s2 = s1\<lparr>next_aid := next_aid s1 + 1, audits := audits s1 @
    [audit_of (create_audit sample_create 1) (next_aid s1) (clock s1)]\<rparr>"
  have 2: "insertAudit (create_audit sample_create 1) s1 = (Inr (), s2)"
    unfolding s2_def
    by (rule insertAudit_run) (simp_all add: s1_def f create_audit_def is_int4_def audit_fits_def
        rune_count_def sample_create_def)
  have "Itoa 1 = ''1''" by code_simp
  moreover have "scan_order std_env rows = rows" for rows by (simp add: std_env_def)
  moreover have "faults s2 = []" "products s2 = [?row]" by (simp_all add: s2_def s1_def f)
  ultimately have 3: "\<exists>p. select_product std_env scanAdminProduct (Itoa 1) s2 = (Inr p, s2)"
    by (simp add: select_product_def with_int4_def first_row_def scanAdminProduct_def)
  from 1 2 3 have "\<exists>p. create_product_tx std_env sample_create migrated_db = (Inr p, s2)"
    by (auto simp: create_product_tx_def seq_def on_err_def f sample_create_def)
  moreover have "faults s2 = []" by (simp add: s2_def s1_def f)
  ultimately have "\<exists>p. CreateProduct std_env sample_create migrated_db = (Inr p, s2)"
    using begin_func_run(2) [OF f] by (metis CreateProduct_def)
  then have "snd (run_cmd std_env (Do_create sample_create) migrated_db) = s2" by auto
  then have "run_events std_env [Command (Do_create sample_create)] migrated_db = s2"
    by (simp add: run_events_def)
  then show ?thesis by (simp add: s2_def s1_def)
qed

theorem audit_trail_replays_witness:
  "\<exists>r \<in> set (products (run_events std_env [Command (Do_create sample_create)] migrated_db)).
     pr_version r = int (length (trail (tables_of (run_events std_env
       [Command (Do_create sample_create)] migrated_db)) (pr_id r)))"
proof -
  from create_run obtain r where
    "r \<in> set (products (run_events std_env [Command (Do_create sample_create)] migrated_db))"
    by (metis list.set_intros(1))
  with audit_trail_replays [OF std_scan_ok std_numeric2_ok _ this refl] show ?thesis by force
qed

subsection \<open>What the operator reads\<close>

lemma sorted_admin_rows: "sorted_wrt newest_first (admin_rows env st s)"
  unfolding admin_rows_def
  by (rule sorted_sort_by)
     (auto simp: newest_first_def intro!: transp_onI totalp_onI reflp_onI)

lemma sorted_audit: "sorted_wrt audit_newest_first (sort_by audit_newest_first as)"
  by (rule sorted_sort_by)
     (auto simp: audit_newest_first_def intro!: transp_onI totalp_onI reflp_onI)

lemma scan_admin_rows: "scan_rows (scanAdminProduct s) rs = Inr (map (admin_product s) rs)"
  by (rule scan_rows_Inr) (simp add: scanAdminProduct_def)

text \<open>
  The operator's list shows every state: under a non-negative limit and offset it is the
  requested window of all products with the status asked for (of all products when none is),
  newest first, with the number of them; nothing changes.
\<close>

theorem ListProducts_window:
  assumes "scan_ok env" and "faults s = []" and "0 \<le> limit" and "0 \<le> offset"
  shows "\<exists>rows. mset rows = mset (filter (\<lambda>r. status = [] \<or> pr_status r = status) (products s)) \<and>
     sorted_wrt newest_first rows \<and>
     ListProducts env status limit offset s =
       (Inr (map (admin_product s) (take (nat limit) (drop (nat offset) rows)),
          int (length rows)), s)"
proof (intro exI conjI)
  let ?rows = "admin_rows env status s"
  have f: "status_filter status = (\<lambda>r. status = [] \<or> pr_status r = status)"
    by (auto simp: status_filter_def)
  show m: "mset ?rows = mset (filter (\<lambda>r. status = [] \<or> pr_status r = status) (products s))"
    using assms(1) by (simp add: admin_rows_def scan_ok_def f)
  show "sorted_wrt newest_first ?rows" by (rule sorted_admin_rows)
  have "length ?rows = length (filter (status_filter status) (products s))"
    unfolding f using mset_eq_length [OF m] .
  then show "ListProducts env status limit offset s =
       (Inr (map (admin_product s) (take (nat limit) (drop (nat offset) ?rows)),
          int (length ?rows)), s)"
    using assms(2-4)
    by (simp add: ListProducts_def seq_def on_err_def limit_offset_def scan_admin_rows page_of_def)
qed

text \<open>
  The audit history of a product is its trail: under a limit that is large enough the
  read returns every audit row filed under the target, newest first, and only those.
\<close>

theorem ListAudit_complete:
  assumes "faults s = []" and "int4_arg env n"
    and "int (length (trail (tables_of s) n)) \<le> limit"
  shows "\<exists>rows. mset rows = mset (trail (tables_of s) n) \<and> sorted_wrt audit_newest_first rows \<and>
     ListAudit env ''product'' n limit s = (Inr (map scan_audit rows), s)"
proof (intro exI conjI)
  let ?rows = "sort_by audit_newest_first (trail (tables_of s) n)"
  show "mset ?rows = mset (trail (tables_of s) n)" by simp
  show "sorted_wrt audit_newest_first ?rows" by (rule sorted_audit)
  have l: "length ?rows \<le> nat limit" using assms(3) by simp
  have "0 \<le> limit" using assms(3) by linarith
  with l show "ListAudit env ''product'' n limit s = (Inr (map scan_audit ?rows), s)"
    using assms(1,2)
    by (simp add: ListAudit_def on_err_def limit_offset_def page_of_def trail_def tables_of_def)
qed

text \<open>
  A product id that Postgres reads as a number and Go does not is acted on but misfiled:
  a lifecycle command with such an id moves the product, and its audit row is filed under
  target 0, so the history of the product does not show it.
\<close>

theorem odd_id_audit_misfiled:
  assumes "scan_ok env" and "db_inv s" and "Transition env i s = (Inr p, t)"
    and "Atoi (ti_ID i) = None" and "int4in env (ti_ID i) = Some n"
  shows "\<exists>a. audits t = audits s @ [a] \<and> ar_target_id a = 0 \<and>
     trail (tables_of t) n = trail (tables_of s) n \<and>
     (\<exists>r \<in> set (products s). pr_id r = n \<and> ap_ID p = Itoa n \<and> ap_Version p = pr_version r + 1)"
proof -
  from assms(3) obtain fs s1 fs' where tx: "transition_tx env i (s\<lparr>faults := fs\<rparr>) = (Inr p, s1)"
    and t: "t = s1\<lparr>faults := fs'\<rparr>"
    unfolding Transition_def by (rule begin_func_Inr)
  let ?s = "s\<lparr>faults := fs\<rparr>"
  from tx assms(1) obtain m r nxt where m: "int4in env (ti_ID i) = Some m"
    and r: "r \<in> set (products ?s)" "pr_id r = m"
    and rows: "products s1 = map (\<lambda>x. if pr_id x = m then move_row nxt (clock ?s) x else x) (products ?s)"
    and a: "audits s1 = audits ?s @
       [audit_of (transition_audit i (pr_status r) nxt (pr_version r)) (next_aid ?s) (clock ?s)]"
    and p: "p \<in> admin_product s1 ` {x \<in> set (products s1). pr_id x = m}"
    by (rule transition_tx_effect)
  have mn: "m = n" using m assms(5) by simp
  have r': "r \<in> set (products s)" using r by simp
  have pos: "n \<noteq> 0" using db_inv_row [OF assms(2) r'] r(2) mn by (auto simp: row_ok_def)
  let ?a = "audit_of (transition_audit i (pr_status r) nxt (pr_version r)) (next_aid s) (clock s)"
  have a0: "ar_target_id ?a = 0"
    using assms(4) by (simp add: transition_audit_def audit_target_def)
  have "products s1 = replace_row (move_row nxt (clock s) r) (products s)"
    using replace_row_one [OF db_inv_distinct_ids [OF assms(2)] r', of "move_row nxt (clock s)"] r(2)
    by (simp add: rows move_row_sel cong: if_cong)
  with p obtain x where "x \<in> set (replace_row (move_row nxt (clock s) r) (products s))"
    "pr_id x = m" "p = admin_product s1 x" by auto
  then have "p = admin_product s1 (move_row nxt (clock s) r)"
    using r(2) by (auto simp: replace_row_def move_row_def split: if_splits)
  then have "ap_ID p = Itoa n" "ap_Version p = pr_version r + 1"
    using r(2) mn by (simp_all add: move_row_def)
  moreover have "trail (tables_of t) n = trail (tables_of s) n"
    using a0 a pos by (simp add: t trail_def tables_of_def)
  ultimately show ?thesis using a a0 r' r(2) mn t by auto
qed

theorem ListProducts_window_witness:
  "\<exists>items. ListProducts std_env StatusDraft 10 0 sample_db = (Inr (items, 1), sample_db)"
proof -
  from ListProducts_window [OF std_scan_ok, of sample_db 10 0 StatusDraft]
  obtain rows where m: "mset rows =
      mset (filter (\<lambda>r. StatusDraft = [] \<or> pr_status r = StatusDraft) (products sample_db))"
    and l: "ListProducts std_env StatusDraft 10 0 sample_db =
       (Inr (map (admin_product sample_db) (take 10 (drop 0 rows)), int (length rows)), sample_db)"
    by auto
  have "length rows = 1" using mset_eq_length [OF m] by (simp add: status_defs)
  with l show ?thesis by simp
qed

theorem ListAudit_complete_witness:
  "ListAudit std_env ''product'' 1 50 sample_db = (Inr [], sample_db)"
  using ListAudit_complete [of sample_db std_env 1 50]
  by (simp add: trail_def tables_of_def std_env_def is_int4_def)

theorem odd_id_audit_misfiled_witness:
  "\<exists>p t. Transition std_env (sample_publish\<lparr>ti_ID := '' 3''\<rparr>) sample_db = (Inr p, t) \<and>
     (\<exists>a. audits t = [a] \<and> ar_target_id a = 0) \<and> trail (tables_of t) 3 = []"
proof -
  let ?i = "sample_publish\<lparr>ti_ID := '' 3''\<rparr>"
  have r: "sample_row 3 ''Cable'' 500 (Some 1) StatusDraft 1 \<in> set (products sample_db)" by simp
  have A: "Atoi '' 3'' = None" "int4in std_env '' 3'' = Some 3" by code_simp+
  have f: "audit_fits (transition_audit ?i StatusDraft StatusActive 1)"
    by (simp add: audit_fits_def transition_audit_def sample_publish_def rune_count_def action_defs)
  obtain p t where run: "Transition std_env ?i sample_db = (Inr p, t)"
    using Transition_run [OF db_inv_products_ok [OF sample_db_inv] std_scan_ok _ r, of ?i StatusActive] f A
    by (simp add: sample_publish_def NextStatus_def max_int64_def audit_target_def is_int4_def)
  from odd_id_audit_misfiled [OF std_scan_ok sample_db_inv run, of 3] A run
  show ?thesis by (auto simp: sample_publish_def trail_def tables_of_def)
qed

end
