(* ===== verification/Http_Protected.thy ===== *)
theory Http_Protected
  imports Http_Public Operator_Spec
begin

section \<open>HTTP: the protected handlers of the operator\<close>

text \<open>
  \<open>internal/web/v1/protected.go\<close>: the routes behind the staff guard, over the two interfaces
  the handlers use, \<open>catalogAdmin\<close> (the repository) and \<open>catalogCache\<close> (invalidation), each a
  record of operations. The guard chain is a list of middlewares: each rejects a request or
  passes it on, possibly with the verified subject put into its context.
\<close>

subsection \<open>The interfaces\<close>

record 's catalogAdmin =
  ca_ListProducts :: "string \<Rightarrow> int \<Rightarrow> int \<Rightarrow> ('s, err, AdminProduct list \<times> int) action"
  ca_GetProduct :: "string \<Rightarrow> ('s, err, AdminProduct) action"
  ca_CreateProduct :: "CreateProductInput \<Rightarrow> ('s, err, AdminProduct) action"
  ca_UpdateProduct :: "UpdateProductInput \<Rightarrow> ('s, err, AdminProduct) action"
  ca_Transition :: "TransitionInput \<Rightarrow> ('s, err, AdminProduct) action"
  ca_ListCategories :: "int \<Rightarrow> int \<Rightarrow> ('s, err, category list \<times> int) action"
  ca_CreateCategory :: "string \<Rightarrow> string \<Rightarrow> string \<Rightarrow> string \<Rightarrow> ('s, err, category) action"
  ca_UpdateCategory :: "int \<Rightarrow> string \<Rightarrow> string \<Rightarrow> string \<Rightarrow> string \<Rightarrow> ('s, err, category) action"
  ca_ListAudit :: "string \<Rightarrow> int \<Rightarrow> int \<Rightarrow> ('s, err, AuditRow list) action"

text \<open>A call through an interface answers a result, or panics (\<open>None\<close>).\<close>

type_synonym ('s, 'a) call = "'s \<Rightarrow> (err + 'a) option \<times> 's"

record 's catalogCache =
  xc_InvalidateProduct :: "string \<Rightarrow> ('s, unit) call"
  xc_InvalidateProductList :: "('s, unit) call"

record 's ProtectedHandler =
  ph_repo :: "'s catalogAdmin"
  ph_cache :: "'s catalogCache option"

definition backofficeRole :: string where "backofficeRole = ''backoffice_admin''"

definition msgInternal :: string where "msgInternal = ''An internal error occurred''"

datatype body = Product_body AdminProduct | Products_body "AdminProduct Paginated"
  | Category_body category | Categories_body "category Paginated" | Audit_body "AuditRow list"

definition respondDomainError :: "err \<Rightarrow> body reply" where
  "respondDomainError e =
     (if errors_Is e ErrNotFound then Failure 404 CodeNotFound ''Product not found''
      else if errors_Is e ErrInvalidTransition
      then Failure 409 (Code ''INVALID_TRANSITION'') (error_text e)
      else if errors_Is e ErrVersionConflict
      then Failure 409 (Code ''VERSION_CONFLICT'') (error_text e)
      else if errors_Is e ErrConflict then Failure 409 CodeConflict (error_text e)
      else if errors_Is e ErrInvalidInput then Failure 400 CodeValidation (error_text e)
      else Failure 500 CodeInternal msgInternal)"

definition opaque_failure :: "body reply" where
  "opaque_failure = Failure 500 CodeInternal msgInternal"

text \<open>The verified subject and the request id.\<close>

definition actor :: "request \<Rightarrow> string \<times> string" where
  "actor rq = (case rq_user rq of Some sub \<Rightarrow> sub | None \<Rightarrow> [], rq_header rq ''X-Request-Id'')"

subsection \<open>Invalidation\<close>

text \<open>
  Errors of the cache are ignored; a panic is not. The flag says whether control comes back.
  \<open>None\<close> is the nil interface, for which the handlers skip the call.
\<close>

definition ignore_error :: "('s, 'a) call \<Rightarrow> 's \<Rightarrow> bool \<times> 's" where
  "ignore_error f s = (case f s of (None, s') \<Rightarrow> (False, s') | (Some _, s') \<Rightarrow> (True, s'))"

definition invalidateProduct :: "'s ProtectedHandler \<Rightarrow> string \<Rightarrow> 's \<Rightarrow> bool \<times> 's" where
  "invalidateProduct h ident s = (case ph_cache h of None \<Rightarrow> (True, s)
     | Some c \<Rightarrow> (case ignore_error (xc_InvalidateProduct c ident) s of (False, s') \<Rightarrow> (False, s')
         | (True, s') \<Rightarrow> ignore_error (xc_InvalidateProductList c) s'))"

definition invalidateList :: "'s ProtectedHandler \<Rightarrow> 's \<Rightarrow> bool \<times> 's" where
  "invalidateList h s = (case ph_cache h of None \<Rightarrow> (True, s)
     | Some c \<Rightarrow> ignore_error (xc_InvalidateProductList c) s)"

definition invalidateAll :: "'s ProtectedHandler \<Rightarrow> 's \<Rightarrow> bool \<times> 's" where
  "invalidateAll h s = (case ph_cache h of None \<Rightarrow> (True, s)
     | Some c \<Rightarrow> ignore_error (xc_InvalidateProductList c) s)"

text \<open>The reply after an invalidation.\<close>

definition finish :: "body reply \<Rightarrow> bool \<times> 's \<Rightarrow> body reply \<times> 's" where
  "finish r x = (if fst x then r else Panicked, snd x)"

subsection \<open>The bodies\<close>

record createProductBody =
  cb_Name :: string
  cb_Price :: rat
  cb_Description :: string
  cb_Category :: string

record updateProductBody =
  ub_Name :: string
  ub_Price :: rat
  ub_Description :: string
  ub_Category :: string
  ub_Version :: int
  ub_Reason :: string

record categoryBody =
  gb_Name :: string
  gb_Description :: string

definition create_body_fields :: "createProductBody field_table" where
  "create_body_fields = [(''name'', text_field (\<lambda>v. cb_Name_update (\<lambda>_. v))),
     (''price'', float_field (\<lambda>v. cb_Price_update (\<lambda>_. v))),
     (''description'', text_field (\<lambda>v. cb_Description_update (\<lambda>_. v))),
     (''category'', text_field (\<lambda>v. cb_Category_update (\<lambda>_. v)))]"

definition valid_create_body :: "web_env \<Rightarrow> createProductBody \<Rightarrow> bool" where
  "valid_create_body we b \<longleftrightarrow> valid_text we [Required, Max 255] (cb_Name b) \<and>
     valid_num we [Required, Min 0] (cb_Price b) \<and>
     valid_text we [Max 4000] (cb_Description b) \<and> valid_text we [Max 100] (cb_Category b)"

definition zero_create_body :: createProductBody where
  "zero_create_body = \<lparr>cb_Name = [], cb_Price = 0, cb_Description = [], cb_Category = []\<rparr>"

definition update_body_fields :: "updateProductBody field_table" where
  "update_body_fields = [(''name'', text_field (\<lambda>v. ub_Name_update (\<lambda>_. v))),
     (''price'', float_field (\<lambda>v. ub_Price_update (\<lambda>_. v))),
     (''description'', text_field (\<lambda>v. ub_Description_update (\<lambda>_. v))),
     (''category'', text_field (\<lambda>v. ub_Category_update (\<lambda>_. v))),
     (''version'', int64_field (\<lambda>v. ub_Version_update (\<lambda>_. v))),
     (''reason'', text_field (\<lambda>v. ub_Reason_update (\<lambda>_. v)))]"

definition valid_update_body :: "web_env \<Rightarrow> updateProductBody \<Rightarrow> bool" where
  "valid_update_body we b \<longleftrightarrow> valid_text we [Required, Max 255] (ub_Name b) \<and>
     valid_num we [Required, Min 0] (ub_Price b) \<and>
     valid_text we [Max 4000] (ub_Description b) \<and> valid_text we [Max 100] (ub_Category b) \<and>
     valid_num we [Required, Min 1] (of_int (ub_Version b)) \<and> valid_text we [Max 64] (ub_Reason b)"

definition zero_update_body :: updateProductBody where
  "zero_update_body = \<lparr>ub_Name = [], ub_Price = 0, ub_Description = [], ub_Category = [],
     ub_Version = 0, ub_Reason = []\<rparr>"

text \<open>\<open>transitionBody\<close> has the one field \<open>reason\<close>.\<close>

definition transition_fields :: "string field_table" where
  "transition_fields = [(''reason'', text_field (\<lambda>v _. v))]"

definition valid_transition_body :: "web_env \<Rightarrow> string \<Rightarrow> bool" where
  "valid_transition_body we reason = valid_text we [Max 64] reason"

definition category_fields :: "categoryBody field_table" where
  "category_fields = [(''name'', text_field (\<lambda>v. gb_Name_update (\<lambda>_. v))),
     (''description'', text_field (\<lambda>v. gb_Description_update (\<lambda>_. v)))]"

definition valid_category_body :: "web_env \<Rightarrow> categoryBody \<Rightarrow> bool" where
  "valid_category_body we b \<longleftrightarrow> valid_text we [Required, Max 100] (gb_Name b) \<and>
     valid_text we [Max 1000] (gb_Description b)"

definition zero_category_body :: categoryBody where
  "zero_category_body = \<lparr>gb_Name = [], gb_Description = []\<rparr>"

subsection \<open>The handlers\<close>

type_synonym 's handler = "request \<Rightarrow> 's \<Rightarrow> body reply \<times> 's"

definition bind_failure :: "web_env \<Rightarrow> request \<Rightarrow> body reply" where
  "bind_failure we rq = Failure 400 CodeValidation (bind_text we rq)"

definition h_ListProducts :: "web_env \<Rightarrow> 's ProtectedHandler \<Rightarrow> 's handler" where
  "h_ListProducts we h rq s = (case ParsePage we rq of (page, pageSize) \<Rightarrow>
     let status = rq_query rq ''status'' in
     if status \<noteq> [] \<and> \<not> Valid status
     then (Failure 400 CodeValidation ''unknown status filter'', s)
     else (case ca_ListProducts (ph_repo h) status pageSize (Offset we page pageSize) s of
         (Inl e, s') \<Rightarrow> (opaque_failure, s')
       | (Inr found, s') \<Rightarrow> (Answer 200 (Products_body (NewPaginated found page pageSize)), s')))"

definition h_GetProduct :: "'s ProtectedHandler \<Rightarrow> 's handler" where
  "h_GetProduct h rq s = (case ca_GetProduct (ph_repo h) (rq_param rq) s of
     (Inl e, s') \<Rightarrow> (respondDomainError e, s')
   | (Inr p, s') \<Rightarrow> (Answer 200 (Product_body p), s'))"

definition create_input :: "createProductBody \<Rightarrow> request \<Rightarrow> CreateProductInput" where
  "create_input b rq = \<lparr>ci_Name = cb_Name b, ci_Price = cb_Price b,
     ci_Description = cb_Description b, ci_Category = cb_Category b,
     ci_ActorSub = fst (actor rq), ci_RequestID = snd (actor rq)\<rparr>"

definition h_CreateProduct :: "web_env \<Rightarrow> 's ProtectedHandler \<Rightarrow> 's handler" where
  "h_CreateProduct we h rq s =
     (case ShouldBindJSON create_body_fields (valid_create_body we) zero_create_body (rq_body rq) of
        Inl e \<Rightarrow> (bind_failure we rq, s)
      | Inr b \<Rightarrow> (case ca_CreateProduct (ph_repo h) (create_input b rq) s of
          (Inl e, s') \<Rightarrow> (respondDomainError e, s')
        | (Inr p, s') \<Rightarrow> finish (Answer 201 (Product_body p)) (invalidateList h s')))"

definition update_input :: "updateProductBody \<Rightarrow> request \<Rightarrow> UpdateProductInput" where
  "update_input b rq = \<lparr>ui_ID = rq_param rq, ui_Name = ub_Name b, ui_Price = ub_Price b,
     ui_Description = ub_Description b, ui_Category = ub_Category b,
     ui_ExpectedVersion = ub_Version b, ui_ActorSub = fst (actor rq), ui_Reason = ub_Reason b,
     ui_RequestID = snd (actor rq)\<rparr>"

definition h_UpdateProduct :: "web_env \<Rightarrow> 's ProtectedHandler \<Rightarrow> 's handler" where
  "h_UpdateProduct we h rq s =
     (case ShouldBindJSON update_body_fields (valid_update_body we) zero_update_body (rq_body rq) of
        Inl e \<Rightarrow> (bind_failure we rq, s)
      | Inr b \<Rightarrow> (case ca_UpdateProduct (ph_repo h) (update_input b rq) s of
          (Inl e, s') \<Rightarrow> (respondDomainError e, s')
        | (Inr p, s') \<Rightarrow> finish (Answer 200 (Product_body p)) (invalidateProduct h (rq_param rq) s')))"

definition transition_input :: "string \<Rightarrow> string \<Rightarrow> request \<Rightarrow> TransitionInput" where
  "transition_input action reason rq = \<lparr>ti_ID = rq_param rq, ti_Action = action,
     ti_ActorSub = fst (actor rq), ti_Reason = reason, ti_RequestID = snd (actor rq)\<rparr>"

definition transition :: "web_env \<Rightarrow> 's ProtectedHandler \<Rightarrow> string \<Rightarrow> 's handler" where
  "transition we h action rq s =
     (case (if 0 < rq_length rq
            then ShouldBindJSON transition_fields (valid_transition_body we) [] (rq_body rq)
            else Inr []) of
        Inl e \<Rightarrow> (bind_failure we rq, s)
      | Inr reason \<Rightarrow> (case ca_Transition (ph_repo h) (transition_input action reason rq) s of
          (Inl e, s') \<Rightarrow> (respondDomainError e, s')
        | (Inr p, s') \<Rightarrow> finish (Answer 200 (Product_body p)) (invalidateProduct h (rq_param rq) s')))"

text \<open>\<open>strconv.Atoi(c.Param("id"))\<close> and \<open>id <= 0\<close>.\<close>

definition positive_param :: "request \<Rightarrow> body reply + int" where
  "positive_param rq = (let bad = Inl (Failure 400 CodeValidation ''id must be a positive integer'')
     in case Atoi (rq_param rq) of None \<Rightarrow> bad | Some n \<Rightarrow> if n \<le> 0 then bad else Inr n)"

definition ProductAudit :: "'s ProtectedHandler \<Rightarrow> 's handler" where
  "ProductAudit h rq s = (case positive_param rq of Inl reply \<Rightarrow> (reply, s)
     | Inr n \<Rightarrow> (case ca_ListAudit (ph_repo h) ''product'' n 50 s of
         (Inl e, s') \<Rightarrow> (opaque_failure, s')
       | (Inr rows, s') \<Rightarrow> (Answer 200 (Audit_body rows), s')))"

definition h_ListCategories :: "web_env \<Rightarrow> 's ProtectedHandler \<Rightarrow> 's handler" where
  "h_ListCategories we h rq s = (case ParsePage we rq of (page, pageSize) \<Rightarrow>
     (case ca_ListCategories (ph_repo h) pageSize (Offset we page pageSize) s of
         (Inl e, s') \<Rightarrow> (opaque_failure, s')
       | (Inr found, s') \<Rightarrow> (Answer 200 (Categories_body (NewPaginated found page pageSize)), s')))"

definition h_CreateCategory :: "web_env \<Rightarrow> 's ProtectedHandler \<Rightarrow> 's handler" where
  "h_CreateCategory we h rq s =
     (case ShouldBindJSON category_fields (valid_category_body we) zero_category_body (rq_body rq) of
        Inl e \<Rightarrow> (bind_failure we rq, s)
      | Inr b \<Rightarrow> (case actor rq of (sub, reqID) \<Rightarrow>
          (case ca_CreateCategory (ph_repo h) (gb_Name b) (gb_Description b) sub reqID s of
             (Inl e, s') \<Rightarrow> (respondDomainError e, s')
           | (Inr c, s') \<Rightarrow> (Answer 201 (Category_body c), s'))))"

definition h_UpdateCategory :: "web_env \<Rightarrow> 's ProtectedHandler \<Rightarrow> 's handler" where
  "h_UpdateCategory we h rq s = (case positive_param rq of Inl reply \<Rightarrow> (reply, s)
     | Inr n \<Rightarrow>
       (case ShouldBindJSON category_fields (valid_category_body we) zero_category_body (rq_body rq) of
          Inl e \<Rightarrow> (bind_failure we rq, s)
        | Inr b \<Rightarrow> (case actor rq of (sub, reqID) \<Rightarrow>
            (case ca_UpdateCategory (ph_repo h) n (gb_Name b) (gb_Description b) sub reqID s of
               (Inl e, s') \<Rightarrow> (respondDomainError e, s')
             | (Inr c, s') \<Rightarrow> finish (Answer 200 (Category_body c)) (invalidateAll h s')))))"

subsection \<open>Routes and the guard chain\<close>

datatype meth = GET | POST | PUT

type_synonym middleware = "request \<Rightarrow> body reply + request"

definition mount :: "web_env \<Rightarrow> 's ProtectedHandler \<Rightarrow> (meth \<times> string \<times> 's handler) list" where
  "mount we h = [(GET, ''/products'', h_ListProducts we h),
     (GET, ''/products/:id'', h_GetProduct h),
     (POST, ''/products'', h_CreateProduct we h),
     (PUT, ''/products/:id'', h_UpdateProduct we h),
     (POST, ''/products/:id/publish'', transition we h ActionPublish),
     (POST, ''/products/:id/archive'', transition we h ActionArchive),
     (POST, ''/products/:id/restore'', transition we h ActionRestore),
     (GET, ''/products/:id/audit'', ProductAudit h),
     (GET, ''/categories'', h_ListCategories we h),
     (POST, ''/categories'', h_CreateCategory we h),
     (PUT, ''/categories/:id'', h_UpdateCategory we h)]"

fun guarded :: "middleware list \<Rightarrow> 's handler \<Rightarrow> 's handler" where
  "guarded [] hnd rq s = hnd rq s"
| "guarded (m # ms) hnd rq s = (case m rq of Inl reply \<Rightarrow> (reply, s)
     | Inr rq' \<Rightarrow> guarded ms hnd rq' s)"

text \<open>A request to the route with a given method and pattern, if the group has it.\<close>

definition serve :: "web_env \<Rightarrow> middleware list \<Rightarrow> 's ProtectedHandler \<Rightarrow> meth \<Rightarrow> string \<Rightarrow>
    's handler" where
  "serve we mws h m pat rq s = (case find (\<lambda>r. fst r = m \<and> fst (snd r) = pat) (mount we h) of
     None \<Rightarrow> (Failure 404 CodeNotFound [], s)
   | Some r \<Rightarrow> guarded mws (snd (snd r)) rq s)"

end
