(* ===== verification/Http_Spec.thy ===== *)
theory Http_Spec
  imports Http_Protected
begin

section \<open>What an operator and a shopper can rely on over HTTP\<close>

text \<open>
  The contract of the repository interface as the locale \<open>catalog_admin\<close>, its interpretation
  on the operator's repository, and the properties of the handlers: error mapping, who is
  recorded in the audit trail, the harmlessness of a cache outage, what is visible to the
  public after a command, and where a stale detail survives one.
\<close>

subsection \<open>The repository as the handlers see it\<close>

text \<open>An operation that reads and changes only one part of the state.\<close>

definition only_on :: "('s \<Rightarrow> 'd) \<Rightarrow> ('s \<Rightarrow> 'c) \<Rightarrow> ('s, 'e, 'a) action \<Rightarrow> bool" where
  "only_on data side m \<longleftrightarrow> (\<forall>s. side (snd (m s)) = side s) \<and>
     (\<forall>s t. data s = data t \<longrightarrow> fst (m s) = fst (m t) \<and> data (snd (m s)) = data (snd (m t)))"

lemma only_onD:
  assumes "only_on data side m" and "data s = data t"
  obtains r s' t' where "m s = (r, s')" "m t = (r, t')" "data s' = data t'"
  using assms unfolding only_on_def by (metis prod.collapse)

text \<open>Two runs of a handler on states with the same data.\<close>

definition agree :: "('s \<Rightarrow> 'd) \<Rightarrow> 'b \<times> 's \<Rightarrow> 'b \<times> 's \<Rightarrow> bool" where
  "agree data x y \<longleftrightarrow> fst x = fst y \<and> data (snd x) = data (snd y)"

lemma agree_pair [simp]: "agree data (r, x) (r', y) \<longleftrightarrow> r = r' \<and> data x = data y"
  by (simp add: agree_def)

text \<open>Invalidation that comes back and leaves the data alone.\<close>

definition harmless :: "('s \<Rightarrow> 'd) \<Rightarrow> 's catalogCache option \<Rightarrow> bool" where
  "harmless data c \<longleftrightarrow> (\<forall>x. c = Some x \<longrightarrow>
     (\<forall>s. fst (xc_InvalidateProductList x s) \<noteq> None \<and>
        data (snd (xc_InvalidateProductList x s)) = data s) \<and>
     (\<forall>i s. fst (xc_InvalidateProduct x i s) \<noteq> None \<and>
        data (snd (xc_InvalidateProduct x i s)) = data s))"

lemma agree_reply:
  assumes "only_on data side m" and "data s = data t"
    and "\<And>v x y. data x = data y \<Longrightarrow> agree data (g v x) (g' v y)"
  shows "agree data (case m s of (Inl e, x) \<Rightarrow> (f e, x) | (Inr v, x) \<Rightarrow> g v x)
    (case m t of (Inl e, x) \<Rightarrow> (f e, x) | (Inr v, x) \<Rightarrow> g' v x)"
  using assms(3) by (auto intro: only_onD [OF assms(1,2)] simp: agree_def split: sum.split)

text \<open>Looking up related route tables finds related routes.\<close>

lemma find_related:
  assumes "list_all2 Q xs ys" and "\<And>x y. Q x y \<Longrightarrow> P x = P' y"
  shows "rel_option Q (find P xs) (find P' ys)"
  using assms by (induction rule: list_all2_induct) auto

lemma ignore_error_harmless:
  "fst (f s) \<noteq> None \<Longrightarrow> data (snd (f s)) = data s \<Longrightarrow>
     \<exists>s'. ignore_error f s = (True, s') \<and> data s' = data s"
  by (cases "f s") (auto simp: ignore_error_def)

lemma harmless_invalidate:
  assumes "harmless data (ph_cache h)"
  shows "\<exists>s'. invalidateProduct h i s = (True, s') \<and> data s' = data s"
    and "\<exists>s'. invalidateList h s = (True, s') \<and> data s' = data s"
    and "\<exists>s'. invalidateAll h s = (True, s') \<and> data s' = data s"
proof -
  have "\<exists>s'. ignore_error (xc_InvalidateProduct x i) s = (True, s') \<and> data s' = data s"
    and "\<exists>s'. ignore_error (xc_InvalidateProductList x) s = (True, s') \<and> data s' = data s"
    if "ph_cache h = Some x" for x i s
    using assms that unfolding harmless_def by (blast intro: ignore_error_harmless)+
  note c = this
  show "\<exists>s'. invalidateList h s = (True, s') \<and> data s' = data s"
    and "\<exists>s'. invalidateAll h s = (True, s') \<and> data s' = data s"
    using c(2) by (simp_all add: invalidateList_def invalidateAll_def split: option.split)
  show "\<exists>s'. invalidateProduct h i s = (True, s') \<and> data s' = data s"
  proof (cases "ph_cache h")
    case (Some x)
    from c(1) [OF Some] obtain s1 where 1: "ignore_error (xc_InvalidateProduct x i) s = (True, s1)"
      "data s1 = data s" by blast
    from c(2) [OF Some, of s1] 1 Some show ?thesis by (auto simp: invalidateProduct_def)
  qed (simp add: invalidateProduct_def)
qed

lemma finish_agree:
  assumes "harmless data (ph_cache h)" and "harmless data (ph_cache h')" and "data x = data y"
  shows "agree data (finish r (invalidateProduct h i x)) (finish r (invalidateProduct h' i y))"
    and "agree data (finish r (invalidateList h x)) (finish r (invalidateList h' y))"
    and "agree data (finish r (invalidateAll h x)) (finish r (invalidateAll h' y))"
  using harmless_invalidate(1) [OF assms(1), of i x] harmless_invalidate(2,3) [OF assms(1), of x]
    harmless_invalidate(1) [OF assms(2), of i y] harmless_invalidate(2,3) [OF assms(2), of y] assms(3)
  by (auto simp: finish_def agree_def)

locale catalog_admin =
  fixes R :: "'s catalogAdmin" and data :: "'s \<Rightarrow> 'd" and side :: "'s \<Rightarrow> 'c"
  assumes list_products: "only_on data side (ca_ListProducts R st l k)"
    and get_product: "only_on data side (ca_GetProduct R i)"
    and create_product: "only_on data side (ca_CreateProduct R ci)"
    and update_product: "only_on data side (ca_UpdateProduct R ui)"
    and transition_product: "only_on data side (ca_Transition R ti)"
    and list_categories: "only_on data side (ca_ListCategories R l k)"
    and create_category: "only_on data side (ca_CreateCategory R n d a q)"
    and update_category: "only_on data side (ca_UpdateCategory R cid n d a q)"
    and list_audit: "only_on data side (ca_ListAudit R tt tid l)"
begin

text \<open>
  Two handlers over this repository, with whatever caches, agree on every route: on the
  reply and on what happens to the data.
\<close>

lemma reads_agree:
  assumes "ph_repo h = R" "ph_repo h' = R" "data s = data t"
  shows "agree data (h_ListProducts we h rq s) (h_ListProducts we h' rq t)"
    and "agree data (h_GetProduct h rq s) (h_GetProduct h' rq t)"
    and "agree data (ProductAudit h rq s) (ProductAudit h' rq t)"
    and "agree data (h_ListCategories we h rq s) (h_ListCategories we h' rq t)"
proof -
  obtain page size where pp: "ParsePage we rq = (page, size)" by fastforce
  show "agree data (h_ListProducts we h rq s) (h_ListProducts we h' rq t)"
    by (simp add: h_ListProducts_def pp assms Let_def agree_reply [OF list_products])
  show "agree data (h_GetProduct h rq s) (h_GetProduct h' rq t)"
    by (rule only_onD [OF get_product [of "rq_param rq"] assms(3)])
      (simp add: h_GetProduct_def assms agree_def split: sum.split)
  show "agree data (ProductAudit h rq s) (ProductAudit h' rq t)"
  proof (cases "positive_param rq")
    case (Inl e)
    with assms show ?thesis by (simp add: ProductAudit_def agree_def)
  next
    case (Inr n)
    show ?thesis
      by (rule only_onD [OF list_audit [of "''product''" n 50] assms(3)])
        (simp add: ProductAudit_def Inr assms agree_def split: sum.split)
  qed
  show "agree data (h_ListCategories we h rq s) (h_ListCategories we h' rq t)"
    by (rule only_onD [OF list_categories [of size "Offset we page size"] assms(3)])
      (simp add: h_ListCategories_def pp assms agree_def split: sum.split prod.split)
qed

lemma writes_agree:
  assumes "ph_repo h = R" "ph_repo h' = R" "harmless data (ph_cache h)" "harmless data (ph_cache h')"
    and "data s = data t"
  shows "agree data (h_CreateProduct we h rq s) (h_CreateProduct we h' rq t)"
    and "agree data (h_UpdateProduct we h rq s) (h_UpdateProduct we h' rq t)"
    and "agree data (transition we h act rq s) (transition we h' act rq t)"
    and "agree data (h_CreateCategory we h rq s) (h_CreateCategory we h' rq t)"
    and "agree data (h_UpdateCategory we h rq s) (h_UpdateCategory we h' rq t)"
proof -
  note fin = finish_agree [OF assms(3,4)]
  obtain sub rid where ac: "actor rq = (sub, rid)" by fastforce
  show "agree data (h_CreateProduct we h rq s) (h_CreateProduct we h' rq t)"
    using assms(1,2,5) agree_reply [OF create_product assms(5), OF fin(2)]
    by (simp add: h_CreateProduct_def agree_def split: sum.split)
  show "agree data (h_UpdateProduct we h rq s) (h_UpdateProduct we h' rq t)"
    using assms(1,2,5) agree_reply [OF update_product assms(5), OF fin(1)]
    by (simp add: h_UpdateProduct_def agree_def split: sum.split)
  show "agree data (transition we h act rq s) (transition we h' act rq t)"
    using assms(1,2,5) agree_reply [OF transition_product assms(5), OF fin(1)]
    by (simp add: transition_def agree_def split: sum.split)
  show "agree data (h_CreateCategory we h rq s) (h_CreateCategory we h' rq t)"
    using assms(1,2,5) agree_reply [OF create_category assms(5), where
        g = "\<lambda>c x. (Answer 201 (Category_body c), x)" and g' = "\<lambda>c x. (Answer 201 (Category_body c), x)"]
    by (simp add: h_CreateCategory_def ac agree_def split: sum.split)
  show "agree data (h_UpdateCategory we h rq s) (h_UpdateCategory we h' rq t)"
    using assms(1,2,5) agree_reply [OF update_category assms(5), OF fin(3)]
    by (simp add: h_UpdateCategory_def ac agree_def split: sum.split)
qed

lemma guarded_agree:
  assumes "\<And>rq. agree data (hnd rq s) (hnd' rq t)" and "data s = data t"
  shows "agree data (guarded mws hnd rq s) (guarded mws hnd' rq t)"
  using assms by (induction mws arbitrary: rq) (auto simp: agree_def split: sum.split)

lemma serve_agree:
  assumes "ph_repo h = R" "ph_repo h' = R" "harmless data (ph_cache h)" "harmless data (ph_cache h')"
    and "data s = data t"
  shows "agree data (serve we mws h m pat rq s) (serve we mws h' m pat rq t)"
proof -
  let ?Q = "\<lambda>r r'. fst r = fst r' \<and> fst (snd r) = fst (snd r') \<and>
    (\<forall>rq. agree data (snd (snd r) rq s) (snd (snd r') rq t))"
  have "list_all2 ?Q (mount we h) (mount we h')"
    using reads_agree [OF assms(1,2,5)] writes_agree [OF assms] by (simp add: mount_def)
  then have "rel_option ?Q (find (\<lambda>r. fst r = m \<and> fst (snd r) = pat) (mount we h))
      (find (\<lambda>r. fst r = m \<and> fst (snd r) = pat) (mount we h'))"
    by (rule find_related) simp
  then show ?thesis
  proof (cases rule: option.rel_cases)
    case None
    with assms(5) show ?thesis by (simp add: serve_def agree_def)
  next
    case (Some r r')
    with guarded_agree [of "snd (snd r)" s "snd (snd r')" t mws rq] assms(5)
    show ?thesis by (simp add: serve_def)
  qed
qed

end

subsection \<open>The operator's repository over the world\<close>

definition repo_on_world :: "dbenv \<Rightarrow> world catalogAdmin" where
  "repo_on_world env = \<lparr>ca_ListProducts = (\<lambda>st l k. on_db (ListProducts env st l k)),
     ca_GetProduct = (\<lambda>i. on_db (GetProduct env i)),
     ca_CreateProduct = (\<lambda>i. on_db (CreateProduct env i)),
     ca_UpdateProduct = (\<lambda>i. on_db (UpdateProduct env i)),
     ca_Transition = (\<lambda>i. on_db (Transition env i)),
     ca_ListCategories = (\<lambda>l k. on_db (ListCategories env l k)),
     ca_CreateCategory = (\<lambda>n d a q. on_db (CreateCategory n d a q)),
     ca_UpdateCategory = (\<lambda>cid n d a q. on_db (UpdateCategory env cid n d a q)),
     ca_ListAudit = (\<lambda>tt tid l. on_db (ListAudit env tt tid l))\<rparr>"

text \<open>A method of a non-nil pointer: it returns.\<close>

definition returns :: "('s, err, 'a) action \<Rightarrow> ('s, 'a) call" where
  "returns m s = (case m s of (r, s') \<Rightarrow> (Some r, s'))"

lemma returns_simps [simp]: "fst (returns m s) = Some (fst (m s))" "snd (returns m s) = snd (m s)"
  by (simp_all add: returns_def split: prod.split)

definition cache_on_world :: "'s ProductCache \<Rightarrow> 's catalogCache" where
  "cache_on_world c = \<lparr>xc_InvalidateProduct = (\<lambda>i. returns (InvalidateProduct c i)),
     xc_InvalidateProductList = returns (InvalidateProductList c)\<rparr>"

text \<open>\<open>NewProtectedHandler\<close> on them.\<close>

definition operator_handler :: "dbenv \<Rightarrow> world ProductCache option \<Rightarrow> world ProtectedHandler" where
  "operator_handler env c = \<lparr>ph_repo = repo_on_world env, ph_cache = map_option cache_on_world c\<rparr>"

lemma only_on_db [simp]: "only_on w_db w_vk (on_db m)"
  by (simp add: only_on_def)

interpretation operator: catalog_admin "repo_on_world env" w_db w_vk for env
  by unfold_locales (simp_all add: repo_on_world_def)

lemma operator_sel [simp]:
  "ph_repo (operator_handler env c) = repo_on_world env"
  "ph_cache (operator_handler env c) = map_option cache_on_world c"
  by (simp_all add: operator_handler_def)

text \<open>A cache that talks to the cache server of the world.\<close>

definition wired :: "world ProductCache option \<Rightarrow> bool" where
  "wired c \<longleftrightarrow> (\<forall>x. c = Some x \<longrightarrow> pc_client x = world_client)"

lemma wired_simps [simp]: "wired None" "wired (Some x) \<longleftrightarrow> pc_client x = world_client"
  by (simp_all add: wired_def)

lemma wired_harmless: "wired c \<Longrightarrow> harmless w_db (map_option cache_on_world c)"
  by (auto simp: harmless_def wired_def cache_on_world_def InvalidateProductList_def
      InvalidateProduct_def)

subsection \<open>Who is recorded\<close>

text \<open>The request that reaches the handler, unless the guard rejects it.\<close>

fun admitted :: "middleware list \<Rightarrow> request \<Rightarrow> request option" where
  "admitted [] rq = Some rq"
| "admitted (m # ms) rq = (case m rq of Inl reply \<Rightarrow> None | Inr rq' \<Rightarrow> admitted ms rq')"

lemma guarded_cases:
  "case admitted mws rq of None \<Rightarrow> \<exists>reply. guarded mws hnd rq s = (reply, s)
     | Some rq' \<Rightarrow> guarded mws hnd rq s = hnd rq' s"
proof (induction mws arbitrary: rq)
  case (Cons m mws)
  then show ?case
  proof (cases "m rq")
    case (Inr rq')
    with Cons [of rq'] show ?thesis by (auto split: option.splits)
  qed simp
qed simp

text \<open>At most one audit row more, and it carries this subject and request id.\<close>

definition attributed :: "string \<times> string \<Rightarrow> db \<Rightarrow> db \<Rightarrow> bool" where
  "attributed who d d' \<longleftrightarrow> audits d' = audits d \<or> (\<exists>a. audits d' = audits d @ [a] \<and>
     ar_actor_sub a = fst who \<and> ar_request_id a = nullif_empty (snd who))"

lemma attributed_refl [simp]: "attributed who d d"
  by (simp add: attributed_def)

definition keeps_audits :: "(db, err, 'a) action \<Rightarrow> bool" where
  "keeps_audits m \<longleftrightarrow> (\<forall>A. preserves (\<lambda>s. audits s = A) m)"

lemma keeps_auditsD: "keeps_audits m \<Longrightarrow> audits (snd (m s)) = audits s"
  by (simp add: keeps_audits_def preserves_def)

lemma keeps_audits_reads:
  "keeps_audits (ListProducts env st l k)" "keeps_audits (GetProduct env i)"
  "keeps_audits (ListCategories env l k)" "keeps_audits (ListAudit env tt tid l)"
proof -
  have q: "preserves (\<lambda>s. audits s = A) (query f)" for A and f :: "db \<Rightarrow> err + 'x"
    by (rule preservesI) (auto simp: query_def elim: stmt_cases)
  show "keeps_audits (ListProducts env st l k)" "keeps_audits (GetProduct env i)"
    "keeps_audits (ListCategories env l k)" "keeps_audits (ListAudit env tt tid l)"
    unfolding keeps_audits_def ListProducts_def GetProduct_def select_product_def
      ListCategories_def ListAudit_def
    by (intro allI preserve_intros q)+
qed

lemma tx_attributed:
  assumes "\<And>fs v s1. body (s\<lparr>faults := fs\<rparr>) = (Inr v, s1) \<Longrightarrow>
      \<exists>e i tm. audits s1 = audits (s\<lparr>faults := fs\<rparr>) @ [audit_of e i tm] \<and>
        ActorSub e = fst who \<and> RequestID e = snd who"
  shows "attributed who s (snd (begin_func body s))"
proof -
  obtain r t where b: "begin_func body s = (r, t)" by fastforce
  from begin_func_refines [OF b, of "\<lambda>tb. \<exists>e i tm. t_audits tb = audits s @ [audit_of e i tm] \<and>
      ActorSub e = fst who \<and> RequestID e = snd who"] assms
  have "tables_of t = tables_of s \<or> (\<exists>e i tm. t_audits (tables_of t) = audits s @ [audit_of e i tm] \<and>
      ActorSub e = fst who \<and> RequestID e = snd who)"
    by (auto simp: tables_of_def)
  with b show ?thesis by (auto simp: attributed_def tables_of_def)
qed

lemma audit_actor:
  "ActorSub (create_audit i n) = ci_ActorSub i" "RequestID (create_audit i n) = ci_RequestID i"
  "ActorSub (update_audit u b) = ui_ActorSub u" "RequestID (update_audit u b) = ui_RequestID u"
  "ActorSub (transition_audit t c x v) = ti_ActorSub t"
  "RequestID (transition_audit t c x v) = ti_RequestID t"
  "ActorSub (category_audit a cid sub rid ch) = sub"
  "RequestID (category_audit a cid sub rid ch) = rid"
  by (simp_all add: create_audit_def update_audit_def transition_audit_def category_audit_def)

lemma commands_attributed:
  assumes "scan_ok env"
  shows "attributed (ci_ActorSub ci, ci_RequestID ci) s (snd (CreateProduct env ci s))"
    and "attributed (ui_ActorSub ui, ui_RequestID ui) s (snd (UpdateProduct env ui s))"
    and "attributed (ti_ActorSub ti, ti_RequestID ti) s (snd (Transition env ti s))"
    and "attributed (sub, rid) s (snd (CreateCategory n d sub rid s))"
    and "attributed (sub, rid) s (snd (UpdateCategory env cid n d sub rid s))"
  unfolding CreateProduct_def UpdateProduct_def Transition_def CreateCategory_def UpdateCategory_def
  by (rule tx_attributed, erule create_product_tx_effect [OF _ assms]
      update_product_tx_effect [OF _ assms] transition_tx_effect [OF _ assms]
      create_category_tx_effect update_category_tx_effect,
      intro exI conjI, assumption, simp only: audit_actor fst_conv,
      simp only: audit_actor snd_conv)+

lemma finish_db:
  assumes "wired c"
  shows "w_db (snd (finish r (invalidateProduct (operator_handler env c) i w))) = w_db w"
    and "w_db (snd (finish r (invalidateList (operator_handler env c) w))) = w_db w"
    and "w_db (snd (finish r (invalidateAll (operator_handler env c) w))) = w_db w"
  using harmless_invalidate [of w_db "operator_handler env c"] wired_harmless [OF assms]
  by (auto simp: finish_def) (metis snd_conv)+

lemma repo_on_world_sel [simp]:
  "ca_ListProducts (repo_on_world env) = (\<lambda>st l k. on_db (ListProducts env st l k))"
  "ca_GetProduct (repo_on_world env) = (\<lambda>i. on_db (GetProduct env i))"
  "ca_CreateProduct (repo_on_world env) = (\<lambda>i. on_db (CreateProduct env i))"
  "ca_UpdateProduct (repo_on_world env) = (\<lambda>i. on_db (UpdateProduct env i))"
  "ca_Transition (repo_on_world env) = (\<lambda>i. on_db (Transition env i))"
  "ca_ListCategories (repo_on_world env) = (\<lambda>l k. on_db (ListCategories env l k))"
  "ca_CreateCategory (repo_on_world env) = (\<lambda>n d a q. on_db (CreateCategory n d a q))"
  "ca_UpdateCategory (repo_on_world env) = (\<lambda>cid n d a q. on_db (UpdateCategory env cid n d a q))"
  "ca_ListAudit (repo_on_world env) = (\<lambda>tt tid l. on_db (ListAudit env tt tid l))"
  by (simp_all add: repo_on_world_def)

text \<open>The database after the common shape of the handlers.\<close>

lemma reply_db:
  assumes "\<And>v x. w_db (snd (g v x)) = w_db x"
  shows "w_db (snd (case on_db m w of (Inl e, x) \<Rightarrow> (f e, x) | (Inr v, x) \<Rightarrow> g v x)) =
    snd (m (w_db w))"
  using assms by (cases "m (w_db w)"; cases "fst (m (w_db w))") (auto simp: on_db_def)

lemma input_actor [simp]:
  "ci_ActorSub (create_input cb rq) = fst (actor rq)" "ci_RequestID (create_input cb rq) = snd (actor rq)"
  "ui_ActorSub (update_input ub rq) = fst (actor rq)" "ui_RequestID (update_input ub rq) = snd (actor rq)"
  "ti_ActorSub (transition_input a b rq) = fst (actor rq)"
  "ti_RequestID (transition_input a b rq) = snd (actor rq)"
  "ui_ID (update_input ub rq) = rq_param rq" "ti_ID (transition_input a b rq) = rq_param rq"
  "ti_Action (transition_input a b rq) = a"
  by (simp_all add: create_input_def update_input_def transition_input_def)

lemma handlers_attributed:
  assumes "scan_ok env" and "wired c"
  defines "h \<equiv> operator_handler env c"
  shows "attributed (actor rq) (w_db w) (w_db (snd (h_ListProducts we h rq w)))"
    and "attributed (actor rq) (w_db w) (w_db (snd (h_GetProduct h rq w)))"
    and "attributed (actor rq) (w_db w) (w_db (snd (h_CreateProduct we h rq w)))"
    and "attributed (actor rq) (w_db w) (w_db (snd (h_UpdateProduct we h rq w)))"
    and "attributed (actor rq) (w_db w) (w_db (snd (transition we h act rq w)))"
    and "attributed (actor rq) (w_db w) (w_db (snd (ProductAudit h rq w)))"
    and "attributed (actor rq) (w_db w) (w_db (snd (h_ListCategories we h rq w)))"
    and "attributed (actor rq) (w_db w) (w_db (snd (h_CreateCategory we h rq w)))"
    and "attributed (actor rq) (w_db w) (w_db (snd (h_UpdateCategory we h rq w)))"
proof -
  have commands: "attributed (actor rq) s (snd (CreateProduct env (create_input cb rq) s))"
    "attributed (actor rq) s (snd (UpdateProduct env (update_input ub rq) s))"
    "attributed (actor rq) s (snd (Transition env (transition_input act b rq) s))" for s cb ub b
    using commands_attributed(1) [OF assms(1), of "create_input cb rq" s]
      commands_attributed(2) [OF assms(1), of "update_input ub rq" s]
      commands_attributed(3) [OF assms(1), of "transition_input act b rq" s] by simp_all
  note fin = finish_db [OF assms(2)] and k = keeps_audits_reads [THEN keeps_auditsD]
  obtain sub rid where ac: "actor rq = (sub, rid)" by fastforce
  obtain page size where pp: "ParsePage we rq = (page, size)" by fastforce
  show "attributed (actor rq) (w_db w) (w_db (snd (h_ListProducts we h rq w)))"
    by (simp add: h_ListProducts_def h_def pp Let_def reply_db attributed_def k)
  show "attributed (actor rq) (w_db w) (w_db (snd (h_GetProduct h rq w)))"
    by (simp add: h_GetProduct_def h_def reply_db attributed_def k)
  show "attributed (actor rq) (w_db w) (w_db (snd (h_CreateProduct we h rq w)))"
    by (simp add: h_CreateProduct_def h_def reply_db fin commands split: sum.split)
  show "attributed (actor rq) (w_db w) (w_db (snd (h_UpdateProduct we h rq w)))"
    by (simp add: h_UpdateProduct_def h_def reply_db fin commands split: sum.split)
  show "attributed (actor rq) (w_db w) (w_db (snd (transition we h act rq w)))"
    by (simp add: transition_def h_def reply_db fin commands split: sum.split)
  show "attributed (actor rq) (w_db w) (w_db (snd (ProductAudit h rq w)))"
    by (simp add: ProductAudit_def h_def reply_db attributed_def k split: sum.split)
  show "attributed (actor rq) (w_db w) (w_db (snd (h_ListCategories we h rq w)))"
    by (simp add: h_ListCategories_def h_def pp reply_db attributed_def k)
  show "attributed (actor rq) (w_db w) (w_db (snd (h_CreateCategory we h rq w)))"
    using commands_attributed(4) [OF assms(1)]
    by (simp add: h_CreateCategory_def h_def ac reply_db split: sum.split)
  show "attributed (actor rq) (w_db w) (w_db (snd (h_UpdateCategory we h rq w)))"
    using commands_attributed(5) [OF assms(1)]
    by (simp add: h_UpdateCategory_def h_def ac reply_db fin split: sum.split)
qed

subsection \<open>Properties\<close>

text \<open>
  C24. The audit trail names the verified actor: whatever a request to any protected route
  does, it adds at most one audit row; the row carries the subject that the guard chain put
  into the context and the request id; and a request the guard rejects touches nothing.
\<close>

theorem audit_names_verified_actor:
  assumes "scan_ok env" and "wired c"
    and "serve we mws (operator_handler env c) m pat rq w = (r, w')"
  shows "case admitted mws rq of
      None \<Rightarrow> w' = w
    | Some rq' \<Rightarrow> audits (w_db w') = audits (w_db w) \<or>
        (\<exists>a. audits (w_db w') = audits (w_db w) @ [a] \<and> ar_actor_sub a = fst (actor rq') \<and>
           ar_request_id a = nullif_empty (snd (actor rq')))"
proof (cases "find (\<lambda>r. fst r = m \<and> fst (snd r) = pat) (mount we (operator_handler env c))")
  case None
  with assms(3) show ?thesis by (simp add: serve_def split: option.split)
next
  case (Some route)
  then have "snd (snd route) \<in> (snd \<circ> snd) ` set (mount we (operator_handler env c))"
    by (auto dest: find_Some_set)
  then have *: "attributed (actor rq') (w_db w) (w_db (snd (snd (snd route) rq' w)))" for rq'
    using handlers_attributed [OF assms(1,2)] by (auto simp: mount_def)
  from Some assms(3) have "guarded mws (snd (snd route)) rq w = (r, w')" by (simp add: serve_def)
  with guarded_cases [of mws "snd (snd route)" rq w] * show ?thesis
    by (auto simp: attributed_def split: option.splits) (metis snd_conv)+
qed

text \<open>
  C29. The cache is only ever an optimisation for operators: with any cache behind the
  handlers, in any state and under any faults of its server, or with the nil interface in its
  place, every protected request gets the same reply and leaves the same database. (What the
  process passes when it runs without a cache is not the nil interface, see
  \<open>Startup_Spec\<close>.)
\<close>

theorem cache_never_changes_replies:
  assumes "wired c" and "wired c'" and "w_db w = w_db v"
  shows "fst (serve we mws (operator_handler env c) m pat rq w) =
      fst (serve we mws (operator_handler env c') m pat rq v) \<and>
    w_db (snd (serve we mws (operator_handler env c) m pat rq w)) =
      w_db (snd (serve we mws (operator_handler env c') m pat rq v))"
  using operator.serve_agree [of "operator_handler env c" env "operator_handler env c'"]
    wired_harmless [OF assms(1)] wired_harmless [OF assms(2)] assms(3)
  by (simp add: agree_def)

text \<open>The two lifecycle errors read as conflicts however deeply they are wrapped.\<close>

lemma errors_Is_conflict:
  "errors_Is e ErrInvalidTransition \<Longrightarrow> errors_Is e ErrConflict"
  "errors_Is e ErrVersionConflict \<Longrightarrow> errors_Is e ErrConflict"
  by (induction e) auto

text \<open>
  Errors map to statuses by what they wrap, whatever the message chain: not found is 404,
  every conflict (invalid transition, stale version, duplicate) 409, invalid input 400, and
  anything else an opaque 500 whose text says nothing of the cause.
\<close>

theorem respondDomainError_codes:
  "\<exists>c. respondDomainError e = (if errors_Is e ErrNotFound then Failure 404 c ''Product not found''
     else if errors_Is e ErrConflict then Failure 409 c (error_text e)
     else if errors_Is e ErrInvalidInput then Failure 400 c (error_text e)
     else Failure 500 c msgInternal)"
  using errors_Is_conflict [of e] by (auto simp: respondDomainError_def)

subsection \<open>What the public sees after a command\<close>

lemma InvalidateProduct_healthy:
  assumes "pc_client c = world_client" and "vk_faults (w_vk w) = []"
  shows "\<exists>w'. InvalidateProduct c ident w = (Inr (), w') \<and> w_db w' = w_db w \<and>
    vk_faults (w_vk w') = []"
  using assms by (simp add: InvalidateProduct_def on_vk_def vk_Delete_def command_healthy remove_keys_def)

text \<open>Both invalidations on a reachable server: the detail and every list are gone.\<close>

lemma invalidateProduct_clears:
  assumes "pc_client c = world_client" and "vk_faults (w_vk w) = []"
  shows "\<exists>w'. invalidateProduct (operator_handler env (Some c)) ident w = (True, w') \<and>
    w_db w' = w_db w \<and> cached w' (generateProductKey ident) = None \<and>
    (\<forall>k. glob ''product:list:*'' k \<longrightarrow> cached w' k = None) \<and> vk_faults (w_vk w') = []"
proof -
  obtain w1 where 1: "InvalidateProduct c ident w = (Inr (), w1)" "w_db w1 = w_db w"
    "vk_faults (w_vk w1) = []" using InvalidateProduct_healthy [OF assms] by blast
  obtain w2 where 2: "InvalidateProductList c w1 = (Inr (), w2)" "w_db w2 = w_db w1"
    "vk_faults (w_vk w2) = []"
    using InvalidateProductList_healthy [OF assms(1) 1(3)] by blast
  have "cached w2 = (\<lambda>k. if glob ''product:list:*'' k then None else cached w1 k)"
    by (rule served.InvalidateProductList_view [OF assms(1) 2(1)])
  moreover have "cached w1 = (cached w)(generateProductKey ident := None)"
    by (rule served.InvalidateProduct_view [OF assms(1) 1(1)])
  moreover have "invalidateProduct (operator_handler env (Some c)) ident w = (True, w2)"
    using 1(1) 2(1)
    by (simp add: invalidateProduct_def ignore_error_def cache_on_world_def returns_def)
  ultimately show ?thesis using 1(2) 2(2,3) by (intro exI [of _ w2]) (simp del: glob.simps)
qed

lemma transition_answered:
  assumes "transition we h act rq w = (Answer n b, w')" and "ph_repo h = repo_on_world env"
  obtains reason p d where "Transition env (transition_input act reason rq) (w_db w) = (Inr p, d)"
    "finish (Answer 200 (Product_body p)) (invalidateProduct h (rq_param rq) (w\<lparr>w_db := d\<rparr>)) =
       (Answer n b, w')"
  using assms
  by (auto simp: transition_def on_db_def bind_failure_def respondDomainError_def
      split: sum.splits prod.splits if_splits)

lemma Transition_status:
  assumes "scan_ok env" and "Transition env i s = (Inr p, t)"
  obtains n r nxt where "int4in env (ti_ID i) = Some n" "r \<in> set (products s)" "pr_id r = n"
    "lifecycle_edge (pr_status r) (ti_Action i) nxt"
    "\<forall>x \<in> set (products t). pr_id x = n \<longrightarrow> pr_status x = nxt"
proof -
  from assms(2) obtain fs v s1 fs' where
    b: "transition_tx env i (s\<lparr>faults := fs\<rparr>) = (Inr v, s1)" and t: "t = s1\<lparr>faults := fs'\<rparr>"
    unfolding Transition_def by (cases rule: begin_func_outcome) auto
  from b show ?thesis
  proof (rule transition_tx_effect [OF _ assms(1)])
    fix n r nxt
    assume e: "int4in env (ti_ID i) = Some n" "r \<in> set (products (s\<lparr>faults := fs\<rparr>))" "pr_id r = n"
      "NextStatus (pr_status r) (ti_Action i) = Inr nxt"
      and p: "products s1 = map (\<lambda>x. if pr_id x = n then move_row nxt (clock (s\<lparr>faults := fs\<rparr>)) x
        else x) (products (s\<lparr>faults := fs\<rparr>))"
    have "\<forall>x \<in> set (products t). pr_id x = n \<longrightarrow> pr_status x = nxt"
    proof (intro ballI impI)
      fix x assume x: "x \<in> set (products t)" "pr_id x = n"
      let ?f = "\<lambda>x. if pr_id x = n then move_row nxt (clock (s\<lparr>faults := fs\<rparr>)) x else x"
      from x(1) have "x \<in> ?f ` set (products s)" unfolding t by (simp add: p)
      then obtain y where "x = ?f y" by (rule imageE)
      with x(2) show "pr_status x = nxt" by (cases "pr_id y = n") simp_all
    qed
    from that [OF e(1) _ e(3) _ this] e(2,4) show ?thesis by (simp add: NextStatus_edge)
  qed
qed

text \<open>
  C6. Archiving hides a product at once: after an ARCHIVE command answered 200 and the cache
  server was reachable, every cached listing is gone and the public detail read of this id
  answers no product, under any faults from then on and any number of polls, as long as no
  other worker puts the product back.
\<close>

theorem archived_product_hidden:
  assumes "scan_ok env" and "numeric2_ok env" and "db_inv (w_db w)"
    and "pc_client c = world_client" and "vk_faults (w_vk w) = []"
    and "transition we (operator_handler env (Some c)) ActionArchive rq w = (Answer 200 b, w1)"
    and "sv_cache sv = Some c'" and "pc_client c' = world_client"
    and "\<forall>(g, ev) \<in> set rounds. \<forall>v. detail_admitted env (rq_param rq) {} v \<longrightarrow>
      detail_admitted env (rq_param rq) {} (g v)"
    and "sv_GetProduct env cenv sv token rounds (rq_param rq) w1 = (r, w2)"
  shows "(\<forall>p. r \<noteq> Inr p) \<and> truthful env UNIV w1"
proof -
  obtain reason p d where
    tr: "Transition env (transition_input ActionArchive reason rq) (w_db w) = (Inr p, d)"
    and fin: "finish (Answer 200 (Product_body p)) (invalidateProduct (operator_handler env (Some c))
      (rq_param rq) (w\<lparr>w_db := d\<rparr>)) = (Answer 200 b, w1)"
    by (rule transition_answered [OF assms(6)]) simp_all
  have "vk_faults (w_vk (w\<lparr>w_db := d\<rparr>)) = []" using assms(5) by simp
  from invalidateProduct_clears [OF assms(4) this, of env "rq_param rq"] obtain w' where
    w': "invalidateProduct (operator_handler env (Some c)) (rq_param rq) (w\<lparr>w_db := d\<rparr>) = (True, w')"
    "w_db w' = d" "cached w' (generateProductKey (rq_param rq)) = None"
    "\<forall>k. glob ''product:list:*'' k \<longrightarrow> cached w' k = None"
    by (elim exE conjE) (simp del: glob.simps)
  with fin have "w' = w1" by (simp add: finish_def)
  note w1 = w'(2-4) [unfolded this]
  obtain n nxt and r0 :: prow where
    n: "int4in env (rq_param rq) = Some n" and e: "lifecycle_edge (pr_status r0) ActionArchive nxt"
    and st: "\<forall>x \<in> set (products d). pr_id x = n \<longrightarrow> pr_status x = nxt"
    by (rule Transition_status [OF assms(1) tr, unfolded input_actor])
  have "nxt = StatusArchived" using e by (auto simp: lifecycle_edge_iff)
  moreover have "db_inv d"
    using run_cmd_inv [OF assms(2,3), of "Do_transition (transition_input ActionArchive reason rq)"]
    by (simp add: tr)
  ultimately have "detail_admitted env (rq_param rq) {} w1"
    using n st w1 by (auto simp: detail_admitted_def admits_def)
  from GetProduct_admitted [OF assms(1,7,8) this _ assms(9,10)] have "\<forall>p. r \<noteq> Inr p" by simp
  moreover have "truthful env UNIV w1"
    using w1(3) by (intro truthful_no_lists) (simp del: glob.simps)
  ultimately show ?thesis by blast
qed

lemma sv_GetProduct_hit:
  assumes "sv_cache sv = Some c" and "pc_client c = world_client" and "vk_faults (w_vk w) = []"
    and "cached w (generateProductKey ident) = Some (Doc j)" and "unmarshal_product j = Inr p"
  shows "fst (sv_GetProduct env cenv sv token rounds ident w) = Inr p"
proof -
  have "fst (vk_Get (generateProductKey ident) (w_vk w)) = Inr (Some (Doc j))"
    using assms(3,4) by (simp add: vk_Get_def command_healthy cached_def)
  then obtain v where "vk_Get (generateProductKey ident) (w_vk w) = (Inr (Some (Doc j)), v)"
    by (metis prod.collapse)
  with assms show ?thesis
    by (simp add: sv_GetProduct_def on_err_def GetProductOrSet_def pc_GetProduct_def seq_def
        on_vk_def decode_def)
qed

lemma category_answered:
  assumes "h_UpdateCategory we h rq w = (Answer n b, w')" and "ph_repo h = repo_on_world env"
  obtains cid cat d and gb :: categoryBody where "Atoi (rq_param rq) = Some cid"
    "UpdateCategory env cid (gb_Name gb) (gb_Description gb) (fst (actor rq)) (snd (actor rq)) (w_db w) =
       (Inr cat, d)"
    "finish (Answer 200 (Category_body cat)) (invalidateAll h (w\<lparr>w_db := d\<rparr>)) = (Answer n b, w')"
proof -
  obtain sub rid where ac: "actor rq = (sub, rid)" by fastforce
  show ?thesis
    using assms that ac
    by (auto simp: h_UpdateCategory_def on_db_def bind_failure_def respondDomainError_def
        positive_param_def Let_def split: sum.splits prod.splits if_splits option.splits)
qed

text \<open>
  A renamed category survives in cached details: after a category command answered and
  its invalidation reached the cache server, a product detail that was cached before is still
  served as it was, old category name included, until its TTL ends.
\<close>

theorem rename_leaves_details:
  assumes "pc_client c = world_client" and "vk_faults (w_vk w) = []"
    and "sv_cache sv = Some c'" and "pc_client c' = world_client"
    and "cached w (generateProductKey ident) = Some (Doc j)" and "unmarshal_product j = Inr p"
    and "\<nexists>x. ident = ''list:'' @ x"
    and "h_UpdateCategory we (operator_handler env (Some c)) rq w = (Answer n b, w1)"
  shows "fst (sv_GetProduct env cenv sv token rounds ident w1) = Inr p"
proof -
  obtain cat d where fin: "finish (Answer 200 (Category_body cat))
      (invalidateAll (operator_handler env (Some c)) (w\<lparr>w_db := d\<rparr>)) = (Answer n b, w1)"
    by (rule category_answered [OF assms(8)]) simp_all
  from InvalidateProductList_healthy [OF assms(1), of "w\<lparr>w_db := d\<rparr>"] assms(2) obtain w' where
    inv: "InvalidateProductList c (w\<lparr>w_db := d\<rparr>) = (Inr (), w')" and v: "vk_faults (w_vk w') = []"
    by auto
  have "cached w' = (\<lambda>k. if glob ''product:list:*'' k then None else cached (w\<lparr>w_db := d\<rparr>) k)"
    by (rule served.InvalidateProductList_view [OF assms(1) inv])
  moreover have "cached (w\<lparr>w_db := d\<rparr>) = cached w" by (simp add: cached_def)
  moreover have "w' = w1"
    using fin inv
    by (simp add: finish_def invalidateAll_def ignore_error_def cache_on_world_def returns_def)
  moreover have "\<not> glob ''product:list:*'' (generateProductKey ident)"
    using assms(7) unfolding glob_product_key .
  ultimately have "cached w1 (generateProductKey ident) = Some (Doc j)"
    using assms(5) by (simp del: glob.simps)
  with sv_GetProduct_hit [OF assms(3,4) _ this assms(6)] v \<open>w' = w1\<close> show ?thesis by simp
qed

subsection \<open>The properties at concrete requests\<close>

definition sample_web :: web_env where
  "sample_web = \<lparr>valid_text = (\<lambda>rs t. list_all (\<lambda>r. case r of Required \<Rightarrow> t \<noteq> []
       | Max n \<Rightarrow> int (rune_count t) \<le> n | Min n \<Rightarrow> n \<le> int (rune_count t)) rs),
     valid_num = (\<lambda>rs q. list_all (\<lambda>r. case r of Required \<Rightarrow> q \<noteq> 0
       | Max n \<Rightarrow> q \<le> of_int n | Min n \<Rightarrow> of_int n \<le> q) rs),
     bind_text = (\<lambda>rq. ''invalid''), ParsePage = (\<lambda>rq. (1, 20)),
     Offset = (\<lambda>page size. (page - 1) * size)\<rparr>"

text \<open>A request by the staff guard for \<open>alice\<close>, without a body.\<close>

definition bare_request :: "string \<Rightarrow> request" where
  "bare_request ident = \<lparr>rq_query = (\<lambda>k. []), rq_param = ident, rq_body = None, rq_length = 0,
     rq_user = None, rq_header = (\<lambda>k. ''r1'')\<rparr>"

definition staff_guard :: middleware where
  "staff_guard rq = Inr (rq\<lparr>rq_user := Some ''alice''\<rparr>)"

definition rename_request :: request where
  "rename_request = (bare_request ''1'')\<lparr>rq_body := Some (JObj [(''name'', JStr ''Gadgets'')]),
     rq_length := 18\<rparr>"

lemma sample_web_ok: "validator_ok sample_web"
  by (auto simp: validator_ok_def sample_web_def list_all_iff split: rule.splits)

theorem audit_names_verified_actor_witness:
  "\<exists>r w'. serve sample_web [staff_guard] (operator_handler std_env None) POST
      ''/products/:id/publish'' (bare_request ''3'') sample_world = (r, w') \<and>
    (audits (w_db w') = [] \<or> (\<exists>a. audits (w_db w') = [a] \<and> ar_actor_sub a = ''alice''))"
proof -
  obtain r w' where s: "serve sample_web [staff_guard] (operator_handler std_env None) POST
      ''/products/:id/publish'' (bare_request ''3'') sample_world = (r, w')" by fastforce
  from audit_names_verified_actor [OF std_scan_ok _ this] s show ?thesis
    by (auto simp: staff_guard_def actor_def)
qed

theorem cache_never_changes_replies_witness:
  "fst (serve sample_web [] (operator_handler std_env None) PUT ''/categories/:id'' rename_request
      sample_world) =
   fst (serve sample_web [] (operator_handler std_env (Some (sample_cache world_client))) PUT
      ''/categories/:id'' rename_request
      (sample_world\<lparr>w_vk := empty_vk\<lparr>vk_faults := [Lost]\<rparr>\<rparr>))"
  using cache_never_changes_replies [of None "Some (sample_cache world_client)" sample_world
      "sample_world\<lparr>w_vk := empty_vk\<lparr>vk_faults := [Lost]\<rparr>\<rparr>"]
  by simp

lemma sample_archive_run:
  "\<exists>p d. Transition std_env (transition_input ActionArchive [] (bare_request ''1'')) sample_db = (Inr p, d)"
proof -
  let ?i = "transition_input ActionArchive [] (bare_request ''1'')"
  have i: "ti_ID ?i = ''1''" "ti_Action ?i = ActionArchive" by (simp_all add: bare_request_def)
  have f: "audit_fits (transition_audit ?i st nxt v)" for st nxt v
    by (simp add: audit_fits_def transition_audit_def transition_input_def bare_request_def
        actor_def rune_count_def action_defs)
  have "sample_row 1 ''Mouse'' 1999 (Some 1) StatusActive 2 \<in> set (products sample_db)" by simp
  from Transition_run [OF db_inv_products_ok [OF sample_db_inv] std_scan_ok _ this, of ?i StatusArchived] i f
  show ?thesis by (simp add: NextStatus_def max_int64_def audit_target_def is_int4_def)
qed

lemma sample_archive_answer:
  "\<exists>b w1. transition sample_web (operator_handler std_env (Some (sample_cache world_client)))
     ActionArchive (bare_request ''1'') sample_world = (Answer 200 b, w1)"
proof -
  obtain p d where t: "Transition std_env (transition_input ActionArchive [] (bare_request ''1''))
      sample_db = (Inr p, d)" using sample_archive_run by blast
  from invalidateProduct_clears [of "sample_cache world_client" "sample_world\<lparr>w_db := d\<rparr>" std_env "''1''"]
  obtain w' where "invalidateProduct (operator_handler std_env (Some (sample_cache world_client)))
      ''1'' (sample_world\<lparr>w_db := d\<rparr>) = (True, w')" by auto
  with t show ?thesis
    by (simp add: transition_def bare_request_def on_db_def finish_def)
qed

theorem archived_product_hidden_witness:
  "\<exists>b w1. transition sample_web (operator_handler std_env (Some (sample_cache world_client)))
      ActionArchive (bare_request ''1'') sample_world = (Answer 200 b, w1) \<and>
    (\<forall>p. fst (sv_GetProduct std_env sample_cenv sample_service ''t'' [(\<lambda>w. w, Ticked)] ''1'' w1) \<noteq> Inr p)"
proof -
  obtain b w1 where t: "transition sample_web (operator_handler std_env (Some (sample_cache world_client)))
      ActionArchive (bare_request ''1'') sample_world = (Answer 200 b, w1)"
    using sample_archive_answer by blast
  obtain r w2 where g: "sv_GetProduct std_env sample_cenv sample_service ''t'' [(\<lambda>w. w, Ticked)]
      (rq_param (bare_request ''1'')) w1 = (r, w2)" by fastforce
  from archived_product_hidden [OF std_scan_ok std_numeric2_ok _ _ _ t _ _ _ g,
      of "sample_cache world_client"] g t
  show ?thesis by (simp add: sample_db_inv) (simp add: bare_request_def)
qed

lemma sample_rename_db:
  "\<exists>c d. UpdateCategory std_env 1 ''Gadgets'' [] [] ''r1'' sample_db = (Inr c, d)"
proof -
  have "case fst (UpdateCategory std_env 1 ''Gadgets'' [] [] ''r1'' sample_db) of
      Inl _ \<Rightarrow> False | Inr c \<Rightarrow> True" by code_simp
  then show ?thesis by (cases "UpdateCategory std_env 1 ''Gadgets'' [] [] ''r1'' sample_db")
    (auto split: sum.splits)
qed

lemma sample_rename_answer:
  "\<exists>b w1. h_UpdateCategory sample_web (operator_handler std_env (Some (sample_cache world_client)))
     rename_request (sample_world\<lparr>w_vk := holding k x\<rparr>) = (Answer 200 b, w1)"
proof -
  have bind: "ShouldBindJSON category_fields (valid_category_body sample_web) zero_category_body
      (rq_body rename_request) = Inr \<lparr>gb_Name = ''Gadgets'', gb_Description = []\<rparr>"
    by (simp add: ShouldBindJSON_def rename_request_def category_fields_def text_field_def
        into_string_def zero_category_body_def ascii_lower_def Let_def valid_category_body_def
        sample_web_def rune_count_def)
  have par: "positive_param rename_request = Inr 1" "actor rename_request = ([], ''r1'')"
    by (simp_all add: positive_param_def rename_request_def bare_request_def actor_def)
  obtain c d where u: "UpdateCategory std_env 1 ''Gadgets'' [] [] ''r1'' sample_db = (Inr c, d)"
    using sample_rename_db by blast
  from InvalidateProductList_healthy [of "sample_cache world_client"
      "sample_world\<lparr>w_vk := holding k x, w_db := d\<rparr>"]
  obtain w' where "InvalidateProductList (sample_cache world_client)
      (sample_world\<lparr>w_vk := holding k x, w_db := d\<rparr>) = (Inr (), w')" by auto
  with u bind par show ?thesis
    by (simp add: h_UpdateCategory_def on_db_def finish_def invalidateAll_def ignore_error_def
        cache_on_world_def returns_def)
qed

theorem rename_leaves_details_witness:
  "\<exists>b w1. h_UpdateCategory sample_web (operator_handler std_env (Some (sample_cache world_client)))
      rename_request (sample_world\<lparr>w_vk := holding (generateProductKey ''1'')
        (Doc (marshal_product (zero_product\<lparr>p_Category := ''Electronics''\<rparr>)))\<rparr>) = (Answer 200 b, w1) \<and>
    fst (sv_GetProduct std_env sample_cenv sample_service ''t'' [] ''1'' w1) =
      Inr (zero_product\<lparr>p_Category := ''Electronics''\<rparr>)"
proof -
  let ?p = "zero_product\<lparr>p_Category := ''Electronics''\<rparr>"
  let ?w = "sample_world\<lparr>w_vk := holding (generateProductKey ''1'') (Doc (marshal_product ?p))\<rparr>"
  obtain b w1 where h: "h_UpdateCategory sample_web (operator_handler std_env
      (Some (sample_cache world_client))) rename_request ?w = (Answer 200 b, w1)"
    using sample_rename_answer by blast
  have p: "unmarshal_product (marshal_product ?p) = Inr ?p"
    unfolding unmarshal_marshal_product by (simp add: zero_product_def)
  from rename_leaves_details [OF _ _ _ _ _ p _ h, of sample_service "sample_cache world_client"
      "''1''"] h
  show ?thesis by simp
qed

end
