(* ===== verification/Stale_Fill.thy ===== *)
theory Stale_Fill
  imports Http_Spec
begin

section \<open>A read that overlaps a command\<close>

text \<open>
  The limit of invalidation: a reader that fetched a product before a command and resumes
  after the command's invalidation puts what it fetched back into the cache.
\<close>

text \<open>The owner of the lock resumes on a cache server that answers.\<close>

lemma owner_fills:
  assumes "pc_client c = world_client" and "vk_faults (w_vk v) = []" and "fetch s = (Inr p, v)"
    and "fetch_as_owner cenv c ident token fetch s = (r, v')"
  shows "r = Inr p" and "w_db v' = w_db v" and "vk_faults (w_vk v') = []"
    and "cached v' (generateProductKey ident) = Some (Doc (marshal_product p))"
proof -
  let ?k = "generateProductKey ident" and ?x = "Doc (marshal_product p)"
  define v1 where "v1 = store ?k (new_entry (w_vk v) ?x (jitter cenv (pc_ttlDetail c))) (w_vk v)"
  have s1: "snd (pc_SetProduct cenv c ident p v) = v\<lparr>w_vk := v1\<rparr>"
    using assms(1,2) by (simp add: pc_SetProduct_def on_vk_def vk_Set_def command_healthy v1_def)
  have f1: "vk_faults v1 = []" "vk_view v1 = (vk_view (w_vk v))(?k \<mapsto> ?x)"
    using assms(2) by (simp add: v1_def store_def) (simp add: v1_def)
  define v2 where "v2 = snd (vk_DeleteIfEqual (lock_key ident) (Bytes token) v1)"
  have "vk_faults (remove_keys ks v1) = []" for ks using f1(1) by (simp add: remove_keys_def)
  then have f2: "vk_faults v2 = []" "vk_view v2 ?k = Some ?x"
    using f1 by (simp_all add: v2_def vk_DeleteIfEqual_def command_healthy)
  have "v' = v\<lparr>w_vk := v2\<rparr>" and r: "r = Inr p"
    using assms(1,3,4) by (auto simp: fetch_as_owner_def Let_def s1 on_vk_def v2_def split: prod.splits)
  with f2 show "r = Inr p" "w_db v' = w_db v" "vk_faults (w_vk v') = []"
    "cached v' ?k = Some ?x" by (simp_all add: cached_def)
qed

text \<open>An answered lifecycle command: what it did to the database and to the cache.\<close>

lemma transition_effect:
  assumes "scan_ok env" and "pc_client c = world_client" and "vk_faults (w_vk w) = []"
    and "transition we (operator_handler env (Some c)) act rq w = (Answer k b, w')"
  obtains n st nxt where "int4in env (rq_param rq) = Some n" "lifecycle_edge st act nxt"
    "\<forall>x \<in> set (products (w_db w')). pr_id x = n \<longrightarrow> pr_status x = nxt"
    "cached w' (generateProductKey (rq_param rq)) = None" "vk_faults (w_vk w') = []"
proof -
  obtain reason p d where tr: "Transition env (transition_input act reason rq) (w_db w) = (Inr p, d)"
    and fin: "finish (Answer 200 (Product_body p)) (invalidateProduct (operator_handler env (Some c))
      (rq_param rq) (w\<lparr>w_db := d\<rparr>)) = (Answer k b, w')"
    by (rule transition_answered [OF assms(4)]) simp_all
  have "vk_faults (w_vk (w\<lparr>w_db := d\<rparr>)) = []" using assms(3) by simp
  from invalidateProduct_clears [OF assms(2) this, of env "rq_param rq"] obtain v where
    v: "invalidateProduct (operator_handler env (Some c)) (rq_param rq) (w\<lparr>w_db := d\<rparr>) = (True, v)"
    "w_db v = d" "cached v (generateProductKey (rq_param rq)) = None" "vk_faults (w_vk v) = []"
    by (elim exE conjE) (simp del: glob.simps)
  with fin have "v = w'" by (simp add: finish_def)
  note v = v(2-4) [unfolded this]
  obtain n nxt and r0 :: prow where "int4in env (rq_param rq) = Some n"
    "lifecycle_edge (pr_status r0) act nxt" "\<forall>x \<in> set (products d). pr_id x = n \<longrightarrow> pr_status x = nxt"
    by (rule Transition_status [OF assms(1) tr, unfolded input_actor])
  with that v show ?thesis by blast
qed

text \<open>
  C38. Invalidation does not reach a read in flight: when the holder of the lock has fetched a
  product, an operator archives it, answered 200 and with the cache server reachable
  throughout, and the holder then resumes, the holder answers the product and puts it back
  into the cache; from then on every detail read answers it, although no row of that id is
  anything but ARCHIVED, until the TTL of the entry ends.
\<close>

theorem overlapping_read_revives:
  assumes "scan_ok env" and "pc_client c = world_client" and "vk_faults (w_vk v) = []"
    and "on_db (FindByID env (rq_param rq)) v = (Inr p, v1)"
    and "transition we (operator_handler env (Some c)) ActionArchive rq v1 = (Answer k b, v2)"
    and "fetch_as_owner cenv c (rq_param rq) token (\<lambda>_. (Inr p, v2)) v = (r, v3)"
    and "sv_cache sv = Some c'" and "pc_client c' = world_client"
  shows "r = Inr p \<and>
    (\<forall>x \<in> set (products (w_db v3)). int4in env (rq_param rq) = Some (pr_id x) \<longrightarrow>
       pr_status x = StatusArchived) \<and>
    fst (sv_GetProduct env cenv sv token' rounds (rq_param rq) v3) =
      Inr (p\<lparr>p_Status := [], p_Version := 0\<rparr>)"
proof -
  have f1: "vk_faults (w_vk v1) = []"
    using assms(3) arg_cong [OF assms(4), of snd] by (metis on_db_simps(3) snd_conv)
  obtain n st nxt where
    n: "int4in env (rq_param rq) = Some n" and e: "lifecycle_edge st ActionArchive nxt"
    and x: "\<forall>x \<in> set (products (w_db v2)). pr_id x = n \<longrightarrow> pr_status x = nxt"
    and "cached v2 (generateProductKey (rq_param rq)) = None" and f: "vk_faults (w_vk v2) = []"
    by (rule transition_effect [OF assms(1,2) f1 assms(5)])
  have "nxt = StatusArchived" using e by (auto simp: lifecycle_edge_iff)
  note o = owner_fills [OF assms(2) f refl assms(6)]
  have "fst (sv_GetProduct env cenv sv token' rounds (rq_param rq) v3) =
      Inr (p\<lparr>p_Status := [], p_Version := 0\<rparr>)"
    by (rule sv_GetProduct_hit [OF assms(7,8) o(3,4) unmarshal_marshal_product])
  moreover have "\<forall>x \<in> set (products (w_db v3)). int4in env (rq_param rq) = Some (pr_id x) \<longrightarrow>
      pr_status x = StatusArchived"
    using n x unfolding o(2) \<open>nxt = StatusArchived\<close> by simp
  ultimately show ?thesis using o(1) by blast
qed

theorem overlapping_read_revives_witness:
  "\<exists>b v2 v3. transition sample_web (operator_handler std_env (Some (sample_cache world_client)))
      ActionArchive (bare_request ''1'') sample_world = (Answer 200 b, v2) \<and>
    (let p = public_product sample_db (sample_row 1 ''Mouse'' 1999 (Some 1) StatusActive 2) in
      fetch_as_owner sample_cenv (sample_cache world_client) ''1'' ''t'' (\<lambda>_. (Inr p, v2)) sample_world =
        (Inr p, v3) \<and>
      fst (sv_GetProduct std_env sample_cenv sample_service ''u'' [] ''1'' v3) = Inr p)"
proof -
  let ?p = "public_product sample_db (sample_row 1 ''Mouse'' 1999 (Some 1) StatusActive 2)"
  obtain b v2 where t: "transition sample_web (operator_handler std_env (Some (sample_cache world_client)))
      ActionArchive (bare_request ''1'') sample_world = (Answer 200 b, v2)"
    using sample_archive_answer by blast
  obtain r v3 where o: "fetch_as_owner sample_cenv (sample_cache world_client)
      (rq_param (bare_request ''1'')) ''t'' (\<lambda>_. (Inr ?p, v2)) sample_world = (r, v3)" by fastforce
  have i: "rq_param (bare_request ''1'') = ''1''" by (simp add: bare_request_def)
  have "FindByID std_env ''1'' sample_db = (Inr ?p, sample_db)"
    by (simp add: FindByID_run [OF sample_db_inv std_scan_ok])
  then have f: "on_db (FindByID std_env (rq_param (bare_request ''1''))) sample_world = (Inr ?p, sample_world)"
    by (simp add: i on_db_def sample_world_def)
  have "r = Inr ?p \<and> fst (sv_GetProduct std_env sample_cenv sample_service ''u'' [] ''1'' v3) = Inr ?p"
    using overlapping_read_revives [OF std_scan_ok _ _ f t o,
        where sv = sample_service and c' = "sample_cache world_client" and token' = "''u''"
        and rounds = "[]", unfolded public_product_clear i] by simp
  with t o [unfolded i] show ?thesis unfolding Let_def by blast
qed

end
