(* ===== verification/Single_Flight.thy ===== *)
theory Single_Flight
  imports Service_Spec
begin

section \<open>One fetch for many readers\<close>

text \<open>
  The purpose of the lock in \<open>ProductCache.GetProductOrSet\<close>: while one worker fetches a
  product, the others wait and are served from what it puts into the cache.
\<close>

text \<open>A reachable cache server that holds no detail of this product.\<close>

definition waiting :: "string \<Rightarrow> world \<Rightarrow> bool" where
  "waiting ident w \<longleftrightarrow> vk_faults (w_vk w) = [] \<and> cached w (generateProductKey ident) = None"

definition filled :: "string \<Rightarrow> product \<Rightarrow> world \<Rightarrow> bool" where
  "filled ident p w \<longleftrightarrow> vk_faults (w_vk w) = [] \<and>
     cached w (generateProductKey ident) = Some (Doc (marshal_product p))"

lemma vk_Get_healthy:
  assumes "vk_faults s = []"
  shows "fst (vk_Get k s) = Inr (vk_view s k)" and "vk_view (snd (vk_Get k s)) = vk_view s"
    and "vk_faults (snd (vk_Get k s)) = []"
  using assms valkey.get_view [of k s]
  by (simp_all add: vk_Get_def command_healthy recordCacheGet_def split: option.split)

text \<open>A poll before the holder is done misses; the next one after it is served.\<close>

lemma poll_waiting:
  assumes "pc_client c = world_client" and "waiting ident w"
  shows "\<exists>w'. pc_GetProduct c ident w = (Inr None, w') \<and> waiting ident w' \<and> cached w' = cached w"
proof -
  let ?k = "generateProductKey ident"
  obtain v where "vk_Get ?k (w_vk w) = (Inr None, v)" "vk_view v = vk_view (w_vk w)"
    "vk_faults v = []"
    using vk_Get_healthy [of "w_vk w" ?k] assms(2)
    by (cases "vk_Get ?k (w_vk w)") (simp add: waiting_def cached_def)
  with assms show ?thesis
    by (simp add: pc_GetProduct_def seq_def on_vk_def waiting_def cached_def)
qed

lemma poll_filled:
  assumes "pc_client c = world_client" and "filled ident p w"
  shows "fst (pc_GetProduct c ident w) = Inr (Some (p\<lparr>p_Status := [], p_Version := 0\<rparr>))"
proof -
  let ?k = "generateProductKey ident"
  have "fst (vk_Get ?k (w_vk w)) = Inr (Some (Doc (marshal_product p)))"
    using vk_Get_healthy(1) [of "w_vk w" ?k] assms(2) by (simp add: filled_def cached_def)
  with assms(1) show ?thesis
    by (cases "vk_Get ?k (w_vk w)") (simp add: pc_GetProduct_def seq_def on_vk_def decode_def)
qed

lemma wait_loop_served:
  assumes "pc_client c = world_client" and "waiting ident w"
    and "\<forall>(g, e) \<in> set polls. e = Ticked \<and> (\<forall>w. waiting ident w \<longrightarrow> waiting ident (g w))"
    and "\<forall>w. waiting ident w \<longrightarrow> filled ident p (fill w)"
  shows "fst (wait_loop c ident fetch (polls @ (fill, Ticked) # later) w) =
    Inr (p\<lparr>p_Status := [], p_Version := 0\<rparr>)"
  using assms(2,3)
proof (induction polls arbitrary: w)
  case Nil
  with assms(4) have "filled ident p (fill w)" by simp
  from poll_filled [OF assms(1) this] show ?case
    by (cases "pc_GetProduct c ident (fill w)") (simp add: Let_def)
next
  case (Cons x polls)
  obtain g where x: "x = (g, Ticked)" and g: "waiting ident (g w)"
    using Cons.prems by (cases x) auto
  from poll_waiting [OF assms(1) g] obtain w' where
    w': "pc_GetProduct c ident (g w) = (Inr None, w')" "waiting ident w'" by blast
  have "fst (wait_loop c ident fetch (polls @ (fill, Ticked) # later) w') =
      Inr (p\<lparr>p_Status := [], p_Version := 0\<rparr>)"
    using Cons.IH [OF w'(2)] Cons.prems(2) by simp
  with x w'(1) show ?case by (simp add: Let_def)
qed


text \<open>The holder's last step, on a server that answers, fills the cache.\<close>

lemma SetProduct_fills:
  assumes "pc_client c = world_client" and "draw_ok env" and "0 < pc_ttlDetail c"
    and "pc_ttlDetail c + pc_ttlDetail c div 10 \<le> max_int64" and "vk_faults (w_vk w) = []"
  shows "filled ident p (snd (pc_SetProduct env c ident p w))"
proof -
  have "0 < jitter env (pc_ttlDetail c)" using jitter_bounds [OF assms(2-4)] assms(3) by linarith
  with assms show ?thesis
    by (simp add: pc_SetProduct_def filled_def cached_def vk_Set_def command_healthy store_def
        vk_view_def lookup_def lookup_in_def new_entry_def live_def deadline_def)
qed


end
