(* ===== verification/Row_Locks.thy ===== *)
theory Row_Locks
  imports Operator_Spec
begin

section \<open>Operators at work at the same time\<close>

text \<open>
  The privileged product writers of \<open>catalog_admin_repository.go\<close> cut at their round trips
  to the server, so that several of them can interleave. A session runs one command through
  \<open>BEGIN\<close>, the locking read (\<open>SELECT ... FOR UPDATE\<close>), the write, the audit row and
  \<open>COMMIT\<close>; until it commits its write is visible to nobody else.

  What the server does between the sessions is its documented behaviour at the isolation
  level \<open>READ COMMITTED\<close>, on which the code relies: a statement sees the rows committed when
  it runs; a row read \<open>FOR UPDATE\<close> or updated stays locked until its transaction ends; an
  \<open>INSERT\<close> or \<open>UPDATE\<close> that wants a name which an open transaction is writing or
  overwriting waits for that transaction; a row that starts to refer to a category keeps
  that category from being locked \<open>FOR UPDATE\<close>; \<open>now()\<close> is the time of \<open>BEGIN\<close>; a
  sequence is never rolled back; and a transaction whose connection is lost is undone. A
  statement that has to wait is a step that is not enabled yet. A command on a category runs
  as one step.

  \<open>staged_run\<close> shows that the stages, one after the other, are the transaction of
  \<open>Admin_Repo\<close>.
\<close>

subsection \<open>The stages of a transaction\<close>

datatype phase =
    Waiting
  | Open int
  | Drawn int int
  | Holding int prow AdminProduct
  | Written int "prow option" prow AuditEntry
  | Logged int "prow option" prow arow
  | Ended "err option"

type_synonym session = "admin_cmd \<times> phase"

type_synonym conf = "db \<times> session list"

text \<open>The text of the id whose row the command locks first.\<close>

fun subject :: "admin_cmd \<Rightarrow> string option" where
  "subject (Do_update i) = Some (ui_ID i)"
| "subject (Do_transition i) = Some (ti_ID i)"
| "subject _ = None"

definition for_update :: "dbenv \<Rightarrow> string \<Rightarrow> db \<Rightarrow> err + prow" where
  "for_update env ident s = fst (select_product env (\<lambda>_. Inr) ident s)"

fun read_err :: "admin_cmd \<Rightarrow> err \<Rightarrow> err" where
  "read_err (Do_update i) = no_rows_or ''read product for update''"
| "read_err (Do_transition i) = no_rows_or ''read product for transition''"
| "read_err _ = (\<lambda>e. e)"

text \<open>What is checked of the row that was read, before anything is written.\<close>

fun verdict :: "admin_cmd \<Rightarrow> AdminProduct \<Rightarrow> err option" where
  "verdict (Do_update i) before = (if ap_Version before \<noteq> ui_ExpectedVersion i
     then Some (Wrapf (''have version '' @ Itoa (ap_Version before) @ '', sent '' @
       Itoa (ui_ExpectedVersion i)) ErrVersionConflict) else None)"
| "verdict (Do_transition i) before = (case NextStatus (ap_Status before) (ti_Action i) of
     Inl e \<Rightarrow> Some e | Inr nxt \<Rightarrow> None)"
| "verdict _ before = None"

definition move_target :: "TransitionInput \<Rightarrow> AdminProduct \<Rightarrow> string" where
  "move_target i before = (case NextStatus (ap_Status before) (ti_Action i) of
     Inl e \<Rightarrow> [] | Inr nxt \<Rightarrow> nxt)"

fun write_row :: "dbenv \<Rightarrow> admin_cmd \<Rightarrow> AdminProduct \<Rightarrow> (db, err, nat) action" where
  "write_row env (Do_update i) before = update_stmt env i"
| "write_row env (Do_transition i) before =
     transition_stmt env (ti_ID i) (move_target i before)"
| "write_row env _ before = give 0"

fun write_err :: "admin_cmd \<Rightarrow> err \<Rightarrow> err" where
  "write_err (Do_update i) = unique_or ''a product named '' (ui_Name i) ''update product''"
| "write_err (Do_transition i) = Wrapf ''apply transition''"
| "write_err (Do_create i) = unique_or ''a product named '' (ci_Name i) ''insert product''"
| "write_err _ = (\<lambda>e. e)"

text \<open>An edit that matched no row is a version conflict; a lifecycle command does not look.\<close>

fun unmatched :: "admin_cmd \<Rightarrow> nat \<Rightarrow> bool" where
  "unmatched (Do_update i) k = (k = 0)"
| "unmatched _ k = False"

fun entry :: "admin_cmd \<Rightarrow> AdminProduct \<Rightarrow> AuditEntry" where
  "entry (Do_transition i) before =
     transition_audit i (ap_Status before) (move_target i before) (ap_Version before)"
| "entry (Do_update i) before = update_audit i before"
| "entry (Do_create i) before = create_audit i 0"
| "entry _ before = category_audit [] 0 [] [] []"

definition insert_new :: "dbenv \<Rightarrow> CreateProductInput \<Rightarrow> (db, err, int) action" where
  "insert_new env i =
     insert_product env (ci_Name i) (ci_Description i) (ci_Price i) (ci_Category i) StatusDraft"

subsection \<open>What a session keeps from the others\<close>

fun row_lock :: "phase \<Rightarrow> int option" where
  "row_lock (Holding tm r b) = Some (pr_id r)"
| "row_lock (Written tm (Some r) r' e) = Some (pr_id r)"
| "row_lock (Logged tm (Some r) r' a) = Some (pr_id r)"
| "row_lock _ = None"

definition row_locked :: "int \<Rightarrow> phase list \<Rightarrow> bool" where
  "row_locked n os \<longleftrightarrow> Some n \<in> set (map row_lock os)"

fun names_in_flight :: "phase \<Rightarrow> string list" where
  "names_in_flight (Written tm p r' e) = pr_name r' # map pr_name (case p of None \<Rightarrow> [] | Some r \<Rightarrow> [r])"
| "names_in_flight (Logged tm p r' a) = pr_name r' # map pr_name (case p of None \<Rightarrow> [] | Some r \<Rightarrow> [r])"
| "names_in_flight _ = []"

fun wanted :: "admin_cmd \<Rightarrow> string option" where
  "wanted (Do_create i) = Some (ci_Name i)"
| "wanted (Do_update i) = Some (ui_Name i)"
| "wanted _ = None"

definition name_free :: "admin_cmd \<Rightarrow> phase list \<Rightarrow> bool" where
  "name_free c os = (case wanted c of None \<Rightarrow> True
     | Some x \<Rightarrow> x \<notin> set (concat (map names_in_flight os)))"

definition new_ref :: "prow option \<Rightarrow> prow \<Rightarrow> int option" where
  "new_ref p r' = (case p of None \<Rightarrow> pr_category_id r'
     | Some r \<Rightarrow> if pr_category_id r = pr_category_id r' then None else pr_category_id r')"

fun key_share :: "phase \<Rightarrow> int option" where
  "key_share (Written tm p r' e) = new_ref p r'"
| "key_share (Logged tm p r' a) = new_ref p r'"
| "key_share _ = None"

fun category_free :: "admin_cmd \<Rightarrow> phase list \<Rightarrow> bool" where
  "category_free (Do_update_category cid name desc actorSub requestID) os =
     (Some cid \<notin> set (map key_share os))"
| "category_free _ os = True"

definition install :: "prow option \<Rightarrow> prow \<Rightarrow> prow list \<Rightarrow> prow list" where
  "install p r' rows = (case p of None \<Rightarrow> rows @ [r'] | Some _ \<Rightarrow> replace_row r' rows)"

definition publish_write :: "prow option \<Rightarrow> prow \<Rightarrow> arow \<Rightarrow> db \<Rightarrow> db" where
  "publish_write p r' a s = s\<lparr>products := install p r' (products s), audits := audits s @ [a]\<rparr>"

subsection \<open>The steps of a session\<close>

definition is_category_cmd :: "admin_cmd \<Rightarrow> bool" where
  "is_category_cmd c = (case c of Do_create_category _ _ _ _ \<Rightarrow> True
     | Do_update_category _ _ _ _ _ \<Rightarrow> True | _ \<Rightarrow> False)"

inductive session_step ::
  "dbenv \<Rightarrow> phase list \<Rightarrow> admin_cmd \<Rightarrow> db \<Rightarrow> phase \<Rightarrow> db \<Rightarrow> phase \<Rightarrow> bool"
  for env os c where
  begin_tx: "\<not> is_category_cmd c \<Longrightarrow> clock s \<le> tm \<Longrightarrow>
    session_step env os c s Waiting (s\<lparr>clock := tm\<rparr>) (Open tm)"
| lock_row: "subject c = Some ident \<Longrightarrow> for_update env ident s = Inr r \<Longrightarrow>
    \<not> row_locked (pr_id r) os \<Longrightarrow> verdict c (admin_product s r) = None \<Longrightarrow>
    session_step env os c s (Open tm) s (Holding tm r (admin_product s r))"
| refuse: "subject c = Some ident \<Longrightarrow> for_update env ident s = Inr r \<Longrightarrow>
    \<not> row_locked (pr_id r) os \<Longrightarrow> verdict c (admin_product s r) = Some e \<Longrightarrow>
    session_step env os c s (Open tm) s (Ended (Some e))"
| read_failed: "subject c = Some ident \<Longrightarrow> for_update env ident s = Inl e \<Longrightarrow>
    session_step env os c s (Open tm) s (Ended (Some (read_err c e)))"
| write_done: "write_row env c b (s\<lparr>clock := tm\<rparr>) = (Inr k, t) \<Longrightarrow> \<not> unmatched c k \<Longrightarrow>
    name_free c os \<Longrightarrow> find (\<lambda>x. pr_id x = pr_id r) (products t) = Some r' \<Longrightarrow>
    session_step env os c s (Holding tm r b) s (Written tm (Some r) r' (entry c b))"
| write_missed: "write_row env c b (s\<lparr>clock := tm\<rparr>) = (Inr k, t) \<Longrightarrow> unmatched c k \<Longrightarrow>
    session_step env os c s (Holding tm r b) s (Ended (Some ErrVersionConflict))"
| write_failed: "write_row env c b (s\<lparr>clock := tm\<rparr>) = (Inl e, t) \<Longrightarrow>
    (isUniqueViolation e \<Longrightarrow> name_free c os) \<Longrightarrow>
    session_step env os c s (Holding tm r b) s (Ended (Some (write_err c e)))"
| draw_id: "c = Do_create i \<Longrightarrow> convert_params env (ci_Name i) (ci_Price i) = Inr cents \<Longrightarrow>
    is_int4 (next_pid s) \<Longrightarrow>
    session_step env os c s (Open tm) (s\<lparr>next_pid := next_pid s + 1\<rparr>) (Drawn tm (next_pid s))"
| draw_failed: "c = Do_create i \<Longrightarrow> insert_new env i (s\<lparr>clock := tm\<rparr>) = (Inl e, t) \<Longrightarrow>
    next_pid t = next_pid s \<Longrightarrow>
    session_step env os c s (Open tm) s (Ended (Some (write_err c e)))"
| insert_row: "c = Do_create i \<Longrightarrow>
    insert_new env i (s\<lparr>clock := tm, next_pid := pid\<rparr>) = (Inr n, t) \<Longrightarrow> name_free c os \<Longrightarrow>
    session_step env os c s (Drawn tm pid) s (Written tm None (last (products t)) (create_audit i n))"
| insert_failed: "c = Do_create i \<Longrightarrow>
    insert_new env i (s\<lparr>clock := tm, next_pid := pid\<rparr>) = (Inl e, t) \<Longrightarrow>
    (isUniqueViolation e \<Longrightarrow> name_free c os) \<Longrightarrow>
    session_step env os c s (Drawn tm pid) s (Ended (Some (write_err c e)))"
| log_entry: "insertAudit e (s\<lparr>clock := tm\<rparr>) = (Inr (), t) \<Longrightarrow>
    session_step env os c s (Written tm p r' e) (s\<lparr>next_aid := next_aid t\<rparr>)
      (Logged tm p r' (last (audits t)))"
| log_failed: "insertAudit e (s\<lparr>clock := tm\<rparr>) = (Inl x, t) \<Longrightarrow>
    session_step env os c s (Written tm p r' e) (s\<lparr>next_aid := next_aid t\<rparr>) (Ended (Some x))"
| commit: "session_step env os c s (Logged tm p r' a) (publish_write p r' a s) (Ended None)"
| category_cmd: "is_category_cmd c \<Longrightarrow> category_free c os \<Longrightarrow> clock s \<le> tm \<Longrightarrow>
    run_cmd env c (s\<lparr>clock := tm\<rparr>) = (out, t) \<Longrightarrow> session_step env os c s Waiting t (Ended out)"

text \<open>
  The connection of a session may break: its open transaction is undone, or its \<open>COMMIT\<close>
  took effect and only the answer is lost.
\<close>

inductive session_fault ::
  "dbenv \<Rightarrow> phase list \<Rightarrow> admin_cmd \<Rightarrow> db \<Rightarrow> phase \<Rightarrow> db \<Rightarrow> phase \<Rightarrow> bool"
  for env os c where
  undone: "(\<And>out. ph \<noteq> Ended out) \<Longrightarrow> errors_Is e DriverErr \<Longrightarrow>
    session_fault env os c s ph s (Ended (Some e))"
| unanswered: "session_fault env os c s (Logged tm p r' a) (publish_write p r' a s)
    (Ended (Some DriverErr))"
| category_unanswered: "is_category_cmd c \<Longrightarrow> category_free c os \<Longrightarrow> clock s \<le> tm \<Longrightarrow>
    run_cmd env c (s\<lparr>clock := tm\<rparr>) = (None, t) \<Longrightarrow>
    session_fault env os c s Waiting t (Ended (Some DriverErr))"

subsection \<open>All sessions together\<close>

definition others :: "nat \<Rightarrow> session list \<Rightarrow> phase list" where
  "others k ss = map snd (take k ss @ drop (Suc k) ss)"

inductive healthy_step :: "dbenv \<Rightarrow> conf \<Rightarrow> conf \<Rightarrow> bool" for env where
  healthy: "k < length ss \<Longrightarrow> ss ! k = (c, ph) \<Longrightarrow>
    session_step env (others k ss) c s ph s' ph' \<Longrightarrow>
    healthy_step env (s, ss) (s', ss[k := (c, ph')])"

inductive fault_step :: "dbenv \<Rightarrow> conf \<Rightarrow> conf \<Rightarrow> bool" for env where
  faulty: "k < length ss \<Longrightarrow> ss ! k = (c, ph) \<Longrightarrow>
    session_fault env (others k ss) c s ph s' ph' \<Longrightarrow>
    fault_step env (s, ss) (s', ss[k := (c, ph')])"

definition step :: "dbenv \<Rightarrow> conf \<Rightarrow> conf \<Rightarrow> bool" where
  "step env x y \<longleftrightarrow> healthy_step env x y \<or> fault_step env x y"

definition start :: "admin_cmd list \<Rightarrow> session list" where
  "start cs = map (\<lambda>c. (c, Waiting)) cs"

text \<open>A schedule: the configurations it passes through.\<close>

fun schedule :: "dbenv \<Rightarrow> conf \<Rightarrow> conf list \<Rightarrow> bool" where
  "schedule env x [] = True"
| "schedule env x (y # ys) = (step env x y \<and> schedule env y ys)"

definition reached :: "conf \<Rightarrow> conf list \<Rightarrow> conf" where
  "reached x ys = last (x # ys)"

subsection \<open>The stages are the transaction\<close>

lemma fst_select_product: "faults s = [] \<Longrightarrow> select_product env scan ident s =
    ((case for_update env ident s of Inl e \<Rightarrow> Inl e | Inr r \<Rightarrow> scan s r), s)"
  by (auto simp: for_update_def select_product_def with_int4_def first_row_def
      split: option.splits list.splits)

lemma faults_update_products: "faults (snd (update_products P f s)) = faults s"
  by (simp add: update_products_def Let_def)

lemma faults_update_stmt: "faults (snd (update_stmt env i s)) = faults s"
  by (simp add: update_stmt_def faults_update_products split: sum.split option.split)

lemma faults_transition_stmt: "faults (snd (transition_stmt env ident nxt s)) = faults s"
  by (simp add: transition_stmt_def faults_update_products split: option.split)

lemma faults_insert_new: "faults (snd (insert_new env i s)) = faults s"
  by (simp add: insert_new_def insert_product_def Let_def split: sum.split)

lemma faults_insertAudit: "faults s = [] \<Longrightarrow> faults (snd (insertAudit e s)) = []"
  by (simp add: insertAudit_def on_err_def insert_audit_row_def Let_def)

lemma faults_write_row: "faults (snd (write_row env c b s)) = faults s"
  by (cases c) (simp_all add: faults_update_stmt faults_transition_stmt give_def)

definition finish_tx :: "dbenv \<Rightarrow> string \<Rightarrow> AuditEntry \<Rightarrow> db \<Rightarrow> db \<Rightarrow> err option \<times> db" where
  "finish_tx env ident e u u1 = (case insertAudit e u1 of
       (Inl x, u2) \<Rightarrow> (Some x, rollback u u2)
     | (Inr _, u2) \<Rightarrow> (case for_update env ident u2 of
         Inl x \<Rightarrow> (Some (Wrapf ''read back product'' x), rollback u u2)
       | Inr r \<Rightarrow> (None, u2)))"

definition staged :: "dbenv \<Rightarrow> admin_cmd \<Rightarrow> string \<Rightarrow> db \<Rightarrow> err option \<times> db" where
  "staged env c ident u = (case for_update env ident u of
     Inl e \<Rightarrow> (Some (read_err c e), u)
   | Inr r \<Rightarrow> let b = admin_product u r in (case verdict c b of
       Some e \<Rightarrow> (Some e, u)
     | None \<Rightarrow> (case write_row env c b u of
         (Inl e, u1) \<Rightarrow> (Some (write_err c e), rollback u u1)
       | (Inr k, u1) \<Rightarrow> if unmatched c k then (Some ErrVersionConflict, rollback u u1)
           else finish_tx env ident (entry c b) u u1)))"

definition staged_create :: "dbenv \<Rightarrow> CreateProductInput \<Rightarrow> db \<Rightarrow> err option \<times> db" where
  "staged_create env i u = (case insert_new env i u of
     (Inl e, u1) \<Rightarrow> (Some (write_err (Do_create i) e), rollback u u1)
   | (Inr n, u1) \<Rightarrow> finish_tx env (Itoa n) (create_audit i n) u u1)"

text \<open>What a transaction body answers on a healthy connection.\<close>

definition tx_result :: "db \<Rightarrow> (err + 'a) \<times> db \<Rightarrow> err option \<times> db" where
  "tx_result u x = (case x of (Inl e, u1) \<Rightarrow> (Some e, rollback u u1) | (Inr v, u1) \<Rightarrow> (None, u1))"

lemma begin_func_staged:
  assumes "faults u = []" and "faults (snd (body u)) = []"
  shows "outcome (begin_func body u) = tx_result u (body u)"
  using assms by (auto simp: begin_func_no_faults outcome_def tx_result_def split: prod.splits sum.splits)

lemma tx_result_simps [simp]:
  "tx_result u (Inl e, u1) = (Some e, rollback u u1)" "tx_result u (Inr v, u1) = (None, u1)"
  by (simp_all add: tx_result_def)

abbreviation closing :: "dbenv \<Rightarrow> AuditEntry \<Rightarrow> string \<Rightarrow> (db, err, AdminProduct) action" where
  "closing env e ident \<equiv> seq (insertAudit e) (\<lambda>_. on_err (Wrapf ''read back product'')
     (select_product env scanAdminProduct ident))"

lemma closing_tx:
  assumes "faults u1 = []"
  shows "tx_result u (closing env e ident u1) = finish_tx env ident e u u1"
    and "faults (snd (closing env e ident u1)) = []"
proof -
  obtain x u2 where ins: "insertAudit e u1 = (x, u2)" by fastforce
  then have f: "faults u2 = []" using faults_insertAudit [OF assms, of e] by simp
  from ins f show "tx_result u (closing env e ident u1) = finish_tx env ident e u u1"
    by (auto simp: seq_def on_err_def finish_tx_def fst_select_product [OF f] scanAdminProduct_def
        split: sum.splits)
  from ins f show "faults (snd (closing env e ident u1)) = []"
    by (auto simp: seq_def on_err_def fst_select_product [OF f] split: sum.splits)
qed

lemma staged_update:
  assumes "faults u = []"
  shows "run_cmd env (Do_update i) u = staged env (Do_update i) (ui_ID i) u"
proof -
  let ?tx = "update_product_tx env i u"
  obtain x u1 where up: "update_stmt env i u = (x, u1)" by fastforce
  then have f: "faults u1 = []" using faults_update_stmt [of env i u] assms by simp
  have *: "tx_result u ?tx = staged env (Do_update i) (ui_ID i) u \<and> faults (snd ?tx) = []"
  proof (cases "for_update env (ui_ID i) u")
    case (Inl e)
    then show ?thesis
      by (simp add: update_product_tx_def staged_def seq_def on_err_def fst_select_product assms)
  next
    case (Inr r)
    then have sel: "on_err g (select_product env scanAdminProduct (ui_ID i)) u =
        (Inr (admin_product u r), u)" for g
      by (simp add: on_err_def fst_select_product assms scanAdminProduct_def)
    show ?thesis
      using Inr up f assms closing_tx [OF f]
      by (cases x)
         (simp_all add: update_product_tx_def staged_def seq_def [where m = "on_err _ _"] sel
           on_err_def [where m = "stmt _"] raise_def)
  qed
  then show ?thesis
    by (simp add: UpdateProduct_def begin_func_staged [OF assms])
qed

lemma staged_transition:
  assumes "faults u = []"
  shows "run_cmd env (Do_transition i) u = staged env (Do_transition i) (ti_ID i) u"
proof -
  let ?tx = "transition_tx env i u"
  have *: "tx_result u ?tx = staged env (Do_transition i) (ti_ID i) u \<and> faults (snd ?tx) = []"
  proof (cases "for_update env (ti_ID i) u")
    case (Inl e)
    then show ?thesis
      by (simp add: transition_tx_def staged_def seq_def on_err_def fst_select_product assms)
  next
    case (Inr r)
    then have sel: "on_err g (select_product env scan_state (ti_ID i)) u =
        (Inr (pr_status r, pr_version r), u)" for g
      by (simp add: on_err_def fst_select_product assms scan_state_def)
    show ?thesis
    proof (cases "NextStatus (pr_status r) (ti_Action i)")
      case e: (Inl e)
      with Inr assms show ?thesis
        by (simp add: transition_tx_def apply_transition_def staged_def
            seq_def [where m = "on_err _ _"] sel raise_def)
    next
      case nxt: (Inr nxt)
      obtain x u1 where up: "transition_stmt env (ti_ID i) nxt u = (x, u1)" by fastforce
      then have f: "faults u1 = []"
        using faults_transition_stmt [of env "ti_ID i" nxt u] assms by simp
      show ?thesis
        using Inr nxt up f assms closing_tx [OF f]
        by (cases x)
           (simp_all add: transition_tx_def apply_transition_def staged_def move_target_def
             seq_def [where m = "on_err _ _"] sel on_err_def [where m = "stmt _"])
    qed
  qed
  then show ?thesis
    by (simp add: Transition_def begin_func_staged [OF assms])
qed

lemma staged_run:
  assumes "faults u = []" and "subject c = Some ident"
  shows "run_cmd env c u = staged env c ident u"
  using assms staged_update staged_transition by (cases c) auto

lemma staged_create_run:
  assumes "faults u = []"
  shows "run_cmd env (Do_create i) u = staged_create env i u"
proof -
  let ?tx = "create_product_tx env i u"
  obtain x u1 where ins: "insert_new env i u = (x, u1)" by fastforce
  then have f: "faults u1 = []" using faults_insert_new [of env i u] assms by simp
  have "tx_result u ?tx = staged_create env i u \<and> faults (snd ?tx) = []"
    using ins f assms closing_tx [OF f]
    by (cases x)
       (simp_all add: create_product_tx_def staged_create_def insert_new_def
         seq_def [where m = "on_err _ _"] on_err_def [where m = "stmt _"])
  then show ?thesis
    by (simp add: CreateProduct_def begin_func_staged [OF assms])
qed

end
