(* ===== verification/Row_Locks_Inv.thy ===== *)
theory Row_Locks_Inv
  imports Row_Locks
begin

section \<open>What interleaved writers keep true\<close>

text \<open>
  The invariant of the interleaved writers (\<open>conf_ok\<close>): what each session has read or written
  is still true of the committed tables, and no two sessions claim the same row, name or
  audit id. Every step of a session and every broken connection keeps it
  (\<open>session_step_fits\<close>, \<open>session_fault_fits\<close>, \<open>step_conf_ok\<close>); a step leaves the tables alone
  or makes one abstract step (\<open>conf_step_tables\<close>) and uses up some of the work
  (\<open>step_work\<close>).
\<close>

subsection \<open>What a session knows\<close>

text \<open>A write that is ready to commit, as its command, read row and log entry determine it.\<close>

inductive pending ::
  "dbenv \<Rightarrow> db \<Rightarrow> admin_cmd \<Rightarrow> int \<Rightarrow> prow option \<Rightarrow> prow \<Rightarrow> AuditEntry \<Rightarrow> bool"
  for env s where
  pending_create: "convert_params env (ci_Name i) (ci_Price i) = Inr cents \<Longrightarrow> 0 \<le> cents \<Longrightarrow>
    is_int4 pid \<Longrightarrow> 0 < pid \<Longrightarrow> pid < next_pid s \<Longrightarrow> \<forall>x \<in> set (products s). pr_id x \<noteq> pid \<Longrightarrow>
    set_option k \<subseteq> cr_id ` set (categories s) \<Longrightarrow> \<forall>x \<in> set (products s). pr_name x \<noteq> ci_Name i \<Longrightarrow>
    pending env s (Do_create i) tm None
      (product_row pid (ci_Name i) (ci_Description i) cents k StatusDraft tm) (create_audit i pid)"
| pending_edit: "r \<in> set (products s) \<Longrightarrow> int4in env (ui_ID i) = Some (pr_id r) \<Longrightarrow>
    pr_version r = ui_ExpectedVersion i \<Longrightarrow> pr_version r < max_int64 \<Longrightarrow>
    ap_Version b = pr_version r \<Longrightarrow>
    convert_params env (ui_Name i) (ui_Price i) = Inr cents \<Longrightarrow> 0 \<le> cents \<Longrightarrow>
    set_option k \<subseteq> cr_id ` set (categories s) \<Longrightarrow>
    \<forall>x \<in> set (products s). pr_id x \<noteq> pr_id r \<longrightarrow> pr_name x \<noteq> ui_Name i \<Longrightarrow>
    pending env s (Do_update i) tm (Some r) (update_row i cents k tm r) (update_audit i b)"
| pending_move: "r \<in> set (products s) \<Longrightarrow> int4in env (ti_ID i) = Some (pr_id r) \<Longrightarrow>
    NextStatus (pr_status r) (ti_Action i) = Inr nxt \<Longrightarrow> pr_version r < max_int64 \<Longrightarrow>
    pending env s (Do_transition i) tm (Some r) (move_row nxt tm r)
      (transition_audit i (pr_status r) nxt (pr_version r))"

fun session_ok :: "dbenv \<Rightarrow> db \<Rightarrow> session \<Rightarrow> bool" where
  "session_ok env s (c, Waiting) = True"
| "session_ok env s (c, Open tm) = (\<not> is_category_cmd c)"
| "session_ok env s (c, Drawn tm pid) = (\<exists>i cents. c = Do_create i \<and>
     convert_params env (ci_Name i) (ci_Price i) = Inr cents \<and> is_int4 pid \<and> 0 < pid \<and>
     pid < next_pid s \<and> (\<forall>x \<in> set (products s). pr_id x \<noteq> pid))"
| "session_ok env s (c, Holding tm r b) = (r \<in> set (products s) \<and>
     (\<exists>ident. subject c = Some ident \<and> int4in env ident = Some (pr_id r)) \<and>
     ap_Status b = pr_status r \<and> ap_Version b = pr_version r \<and> verdict c b = None)"
| "session_ok env s (c, Written tm p r' e) = pending env s c tm p r' e"
| "session_ok env s (c, Logged tm p r' a) = (\<exists>e aid. pending env s c tm p r' e \<and>
     a = audit_of e aid tm \<and> aid < next_aid s \<and> (\<forall>x \<in> set (audits s). ar_id x \<noteq> aid) \<and>
     is_int4 (TargetID e) \<and> audit_fits e)"
| "session_ok env s (c, Ended out) = True"

subsection \<open>What sessions claim\<close>

fun claimed_id :: "phase \<Rightarrow> int option" where
  "claimed_id (Drawn tm pid) = Some pid"
| "claimed_id (Holding tm r b) = Some (pr_id r)"
| "claimed_id (Written tm p r' e) = Some (pr_id r')"
| "claimed_id (Logged tm p r' a) = Some (pr_id r')"
| "claimed_id _ = None"

fun claimed_name :: "phase \<Rightarrow> string option" where
  "claimed_name (Written tm p r' e) = Some (pr_name r')"
| "claimed_name (Logged tm p r' a) = Some (pr_name r')"
| "claimed_name _ = None"

fun claimed_audit :: "phase \<Rightarrow> int option" where
  "claimed_audit (Logged tm p r' a) = Some (ar_id a)"
| "claimed_audit _ = None"

definition apart :: "('a \<Rightarrow> 'b option) \<Rightarrow> 'a \<Rightarrow> 'a \<Rightarrow> bool" where
  "apart f x y \<longleftrightarrow> f x = None \<or> f x \<noteq> f y"

definition no_clash :: "phase \<Rightarrow> phase \<Rightarrow> bool" where
  "no_clash x y \<longleftrightarrow> apart claimed_id x y \<and> apart claimed_name x y \<and> apart claimed_audit x y"

definition conf_ok :: "dbenv \<Rightarrow> conf \<Rightarrow> bool" where
  "conf_ok env x \<longleftrightarrow> db_inv (fst x) \<and> faults (fst x) = [] \<and>
     (\<forall>ss \<in> set (snd x). session_ok env (fst x) ss) \<and>
     (\<forall>j k. j < length (snd x) \<longrightarrow> k < length (snd x) \<longrightarrow> j \<noteq> k \<longrightarrow>
        no_clash (snd (snd x ! j)) (snd (snd x ! k)))"

lemma apart_sym: "apart f x y \<Longrightarrow> apart f y x"
  by (auto simp: apart_def)

lemma no_clash_sym: "no_clash x y \<Longrightarrow> no_clash y x"
  by (simp add: no_clash_def apart_sym)

lemma pending_ids:
  assumes "pending env s c tm p r' e"
  shows "(p = None \<longrightarrow> (\<forall>x \<in> set (products s). pr_id x \<noteq> pr_id r')) \<and>
    (\<forall>r. p = Some r \<longrightarrow> r \<in> set (products s) \<and> pr_id r' = pr_id r) \<and>
    ((\<forall>x \<in> set (products s). pr_id x \<noteq> pr_id r' \<longrightarrow> pr_name x \<noteq> pr_name r') \<or>
     (\<exists>r. p = Some r \<and> pr_name r' = pr_name r))"
  using assms by cases (auto simp: update_row_def move_row_def)

lemma pending_name:
  assumes "pending env s c tm p r' e" and "distinct (map pr_name (products s))"
    and "x \<in> set (products s)" and "pr_id x \<noteq> pr_id r'"
  shows "pr_name x \<noteq> pr_name r'"
proof -
  from pending_ids [OF assms(1)] assms(3,4) consider "pr_name x \<noteq> pr_name r'"
    | r where "r \<in> set (products s)" "pr_name r' = pr_name r" "pr_id r' = pr_id r" by blast
  then show ?thesis
  proof cases
    case (2 r)
    then show ?thesis using assms by (metis distinct_map inj_onD)
  qed
qed

lemma install_cases:
  assumes "pending env s c tm p r' e"
  shows "x \<in> set (install p r' (products s)) \<longleftrightarrow>
    x = r' \<or> (x \<in> set (products s) \<and> pr_id x \<noteq> pr_id r')"
  using pending_ids [OF assms]
  by (cases p) (auto simp: install_def replace_row_def image_iff)

text \<open>Nothing a session knows depends on what another one commits to other rows.\<close>

lemma pending_mono:
  assumes "pending env s c tm p r' e" and "next_pid s \<le> next_pid t"
    and "cr_id ` set (categories s) \<subseteq> cr_id ` set (categories t)"
    and "\<And>x. x \<in> set (products t) \<Longrightarrow> x \<in> set (products s) \<or>
      (pr_id x \<noteq> pr_id r' \<and> pr_name x \<noteq> pr_name r')"
    and "\<And>x. x \<in> set (products s) \<Longrightarrow> pr_id x = pr_id r' \<Longrightarrow> x \<in> set (products t)"
  shows "pending env t c tm p r' e"
  using assms(1)
proof cases
  case (pending_create i cents pid k)
  have "\<forall>x \<in> set (products t). pr_id x \<noteq> pid \<and> pr_name x \<noteq> ci_Name i"
    using pending_create assms(4) by auto
  then show ?thesis
    unfolding pending_create(1-4) using pending_create assms(2,3)
    by (intro pending.pending_create) auto
next
  case (pending_edit r i b cents k)
  have "r \<in> set (products t)" using pending_edit assms(5) [of r] by (simp add: update_row_def)
  moreover have "\<forall>x \<in> set (products t). pr_id x \<noteq> pr_id r \<longrightarrow> pr_name x \<noteq> ui_Name i"
    using pending_edit assms(4) by (auto simp: update_row_def)
  ultimately show ?thesis
    unfolding pending_edit(1-4) using pending_edit assms(3)
    by (intro pending.pending_edit) auto
next
  case (pending_move r i nxt)
  have "r \<in> set (products t)" using pending_move assms(5) [of r] by simp
  then show ?thesis
    unfolding pending_move(1-4) using pending_move by (intro pending.pending_move) auto
qed

text \<open>What one step may do to the tables as far as another session is concerned.\<close>

definition leaves :: "phase \<Rightarrow> db \<Rightarrow> db \<Rightarrow> bool" where
  "leaves ph s t \<longleftrightarrow> next_pid s \<le> next_pid t \<and> next_aid s \<le> next_aid t \<and>
     cr_id ` set (categories s) \<subseteq> cr_id ` set (categories t) \<and>
     (\<forall>x \<in> set (products t). x \<in> set (products s) \<or>
        (Some (pr_id x) \<noteq> claimed_id ph \<and> Some (pr_name x) \<noteq> claimed_name ph)) \<and>
     (\<forall>x \<in> set (products s). Some (pr_id x) = claimed_id ph \<longrightarrow> x \<in> set (products t)) \<and>
     (\<forall>a \<in> set (audits t). a \<in> set (audits s) \<or> next_aid s \<le> ar_id a \<or> Some (ar_id a) \<noteq> claimed_audit ph)"

lemma session_ok_leaves:
  assumes "session_ok env s (c, ph)" and "leaves ph s t"
  shows "session_ok env t (c, ph)"
proof (cases ph)
  case (Drawn tm pid)
  with assms(2) have "\<forall>x \<in> set (products t). x \<in> set (products s) \<or> pr_id x \<noteq> pid"
    and "next_pid s \<le> next_pid t" by (auto simp: leaves_def)
  with assms(1) Drawn show ?thesis by fastforce
next
  case (Holding tm r b)
  with assms show ?thesis by (auto simp: leaves_def)
next
  case (Written tm p r' e)
  with assms have "pending env s c tm p r' e" by simp
  then have "pending env t c tm p r' e"
    using assms(2) Written by (elim pending_mono) (auto simp: leaves_def)
  then show ?thesis by (simp add: Written)
next
  case (Logged tm p r' a)
  with assms obtain e aid where p: "pending env s c tm p r' e" and a: "a = audit_of e aid tm"
    and "aid < next_aid s" "\<forall>x \<in> set (audits s). ar_id x \<noteq> aid" "is_int4 (TargetID e)" "audit_fits e"
    by auto
  moreover from p have "pending env t c tm p r' e"
    using assms(2) Logged by (elim pending_mono) (auto simp: leaves_def)
  moreover have "\<forall>x \<in> set (audits t). ar_id x \<noteq> aid"
    using assms(2) Logged a calculation(3,4) by (fastforce simp: leaves_def)
  ultimately show ?thesis using assms(2) by (auto simp: Logged leaves_def intro!: exI [of _ e] exI [of _ aid])
qed (use assms in auto)

lemma leaves_quiet:
  assumes "tables_of t = tables_of s" and "next_pid s \<le> next_pid t" and "next_aid s \<le> next_aid t"
  shows "leaves ph s t"
  using assms by (auto simp: leaves_def tables_of_def)

lemma leaves_publish:
  assumes p: "pending env s c tm p r' e" and c: "no_clash (Logged tm p r' a) ph"
  shows "leaves ph s (publish_write p r' a s)"
proof -
  from c have r': "Some (pr_id r') \<noteq> claimed_id ph" "Some (pr_name r') \<noteq> claimed_name ph"
    and a: "Some (ar_id a) \<noteq> claimed_audit ph"
    by (simp_all add: no_clash_def apart_def)
  have "x \<in> set (products s) \<or> (Some (pr_id x) \<noteq> claimed_id ph \<and> Some (pr_name x) \<noteq> claimed_name ph)"
    if "x \<in> set (install p r' (products s))" for x
    using that r' unfolding install_cases [OF p] by blast
  moreover have "x \<in> set (install p r' (products s))"
    if "x \<in> set (products s)" "Some (pr_id x) = claimed_id ph" for x
    using that r' unfolding install_cases [OF p] by auto
  ultimately show ?thesis using a by (simp add: leaves_def publish_write_def)
qed

lemma leaves_category:
  assumes run: "run_cmd env c s = (out, t)" and cat: "is_category_cmd c" and inv: "db_inv s"
  shows "leaves ph s t \<and> products t = products s"
proof -
  have *: "leaves ph s t \<and> products t = products s"
    if "outcome (begin_func body s) = (out, t)" and k: "keeps_inv (begin_func body)"
      and eff: "\<And>fs v s1. body (s\<lparr>faults := fs\<rparr>) = (Inr v, s1) \<Longrightarrow> products s1 = products s \<and>
        cr_id ` set (categories s) \<subseteq> cr_id ` set (categories s1) \<and>
        (\<forall>a \<in> set (audits s1). a \<in> set (audits s) \<or> next_aid s \<le> ar_id a)"
    for body :: "(db, err, 'x) action"
  proof -
    from that(1) obtain r where b: "begin_func body s = (r, t)" by (auto simp: outcome_iff)
    have mono: "next_pid s \<le> next_pid t" "next_aid s \<le> next_aid t"
      using k inv b unfolding keeps_inv_def preserves_def db_inv_from_def
      by (metis db_inv_from_def db_inv_from_refl snd_conv)+
    from b show ?thesis
    proof (cases rule: begin_func_outcome)
      case (1 e)
      then show ?thesis using mono by (simp add: leaves_quiet tables_of_eq_iff)
    next
      case (2 fs v s1 fs')
      with eff [OF 2(1)] mono show ?thesis by (auto simp: leaves_def)
    qed
  qed
  show ?thesis
  proof (cases c)
    case (Do_create_category n d a q)
    show ?thesis
    proof (rule * [of "create_category_tx n d a q"])
      show "outcome (begin_func (create_category_tx n d a q) s) = (out, t)"
        using run by (simp add: Do_create_category CreateCategory_def)
      show "keeps_inv (begin_func (create_category_tx n d a q))"
        unfolding create_category_tx_def by (intro preserve_intros)
    next
      fix fs v s1 assume "create_category_tx n d a q (s\<lparr>faults := fs\<rparr>) = (Inr v, s1)"
      then show "products s1 = products s \<and>
        cr_id ` set (categories s) \<subseteq> cr_id ` set (categories s1) \<and>
        (\<forall>a \<in> set (audits s1). a \<in> set (audits s) \<or> next_aid s \<le> ar_id a)"
        by (rule create_category_tx_effect) auto
    qed
  next
    case (Do_update_category cid n d a q)
    show ?thesis
    proof (rule * [of "update_category_tx env cid n d a q"])
      show "outcome (begin_func (update_category_tx env cid n d a q) s) = (out, t)"
        using run by (simp add: Do_update_category UpdateCategory_def)
      show "keeps_inv (begin_func (update_category_tx env cid n d a q))"
        unfolding update_category_tx_def select_category_def by (intro preserve_intros)
    next
      fix fs v s1 assume "update_category_tx env cid n d a q (s\<lparr>faults := fs\<rparr>) = (Inr v, s1)"
      then obtain before where ps: "products s1 = products s"
        and cs: "categories s1 = map (\<lambda>r. if cr_id r = cid
             then retitle n d (clock s) r else r) (categories s)"
        and as: "audits s1 = audits s @ [audit_of (category_audit ''UPDATE'' cid a q
             (category_changed before n d)) (next_aid s) (clock s)]"
        by (rule update_category_tx_effect) simp
      have "map cr_id (categories s1) = map cr_id (categories s)" by (simp add: cs)
      then have "cr_id ` set (categories s1) = cr_id ` set (categories s)" by (metis set_map)
      with ps as show "products s1 = products s \<and>
        cr_id ` set (categories s) \<subseteq> cr_id ` set (categories s1) \<and>
        (\<forall>a \<in> set (audits s1). a \<in> set (audits s) \<or> next_aid s \<le> ar_id a)"
        by auto
    qed
  qed (use cat in \<open>simp_all add: is_category_cmd_def\<close>)
qed

subsection \<open>The facts of each step\<close>

lemma find_replace_row:
  assumes "r \<in> set rows" and "pr_id r' = pr_id r"
  shows "find (\<lambda>x. pr_id x = pr_id r) (replace_row r' rows) = Some r'"
  using assms by (induction rows) (auto simp: replace_row_def)

lemma replace_row_Cons:
  "replace_row r' (x # xs) = (if pr_id x = pr_id r' then r' else x) # replace_row r' xs"
  by (simp add: replace_row_def)

lemma distinct_names_replace:
  assumes "distinct (map pr_name rows)" and "distinct (map pr_id rows)"
    and "\<forall>x \<in> set rows. pr_id x \<noteq> pr_id r' \<longrightarrow> pr_name x \<noteq> pr_name r'"
  shows "distinct (map pr_name (replace_row r' rows))"
  using assms
proof (induction rows)
  case (Cons x xs)
  show ?case
  proof (cases "pr_id x = pr_id r'")
    case True
    then have "pr_id r' \<notin> pr_id ` set xs" using Cons.prems(2) by simp
    then have other: "\<forall>y \<in> set xs. pr_id y \<noteq> pr_id r'" by (metis imageI)
    then have "replace_row r' (x # xs) = r' # xs"
      using True by (simp add: replace_row_def map_idI)
    moreover have "\<forall>y \<in> set xs. pr_name y \<noteq> pr_name r'" using other Cons.prems(3) by simp
    then have "pr_name r' \<notin> pr_name ` set xs" by (metis imageE)
    ultimately show ?thesis using Cons.prems(1) by simp
  next
    case False
    have "pr_name ` set (replace_row r' xs) \<subseteq> insert (pr_name r') (pr_name ` set xs)"
      by (auto simp: replace_row_def)
    moreover have "pr_name x \<noteq> pr_name r'" using False Cons.prems(3) by simp
    ultimately have "pr_name x \<notin> pr_name ` set (replace_row r' xs)" using Cons.prems(1) by auto
    moreover have "distinct (map pr_name (replace_row r' xs))" using Cons by simp
    ultimately show ?thesis using False by (simp add: replace_row_Cons)
  qed
qed (simp add: replace_row_def)

lemma update_stmt_InrD:
  assumes "update_stmt env i s = (Inr k, t)" and "products_ok (tables_of s)"
    and "r \<in> set (products s)" and "int4in env (ui_ID i) = Some (pr_id r)"
    and "pr_version r = ui_ExpectedVersion i"
  obtains cents where "convert_params env (ui_Name i) (ui_Price i) = Inr cents" "0 \<le> cents"
    "pr_version r < max_int64" "k = 1"
    "products t = replace_row (update_row i cents (category_id_of s (ui_Category i)) (clock s) r)
       (products s)"
    "\<forall>x \<in> set (products s). pr_id x \<noteq> pr_id r \<longrightarrow> pr_name x \<noteq> ui_Name i"
proof -
  from assms(1,4) obtain cents where c: "convert_params env (ui_Name i) (ui_Price i) = Inr cents"
    and up: "update_products (\<lambda>x. pr_id x = pr_id r \<and> pr_version x = ui_ExpectedVersion i)
       (update_row i cents (category_id_of s (ui_Category i)) (clock s)) s = (Inr k, t)"
    by (auto simp: update_stmt_def split: sum.splits)
  let ?r = "update_row i cents (category_id_of s (ui_Category i)) (clock s) r"
  have sel: "pr_id ?r = pr_id r" "pr_name ?r = ui_Name i" "pr_price ?r = cents"
    "pr_version ?r = pr_version r + 1"
    by (simp_all add: update_row_def)
  note t = update_products_InrD [OF up]
  have rows: "products t = replace_row ?r (products s)"
    using t replace_by_id [where P = "\<lambda>x. pr_version x = ui_ExpectedVersion i",
        OF rows_distinct_ids [OF assms(2)] assms(3,5), of
        "update_row i cents (category_id_of s (ui_Category i)) (clock s)"]
    by (simp add: update_row_def)
  have mem: "?r \<in> set (products t)"
    using assms(3) sel(1) unfolding rows by (auto simp: replace_row_def image_iff)
  from t mem have "0 \<le> pr_price ?r \<and> pr_version ?r \<le> max_int64" by blast
  then have "0 \<le> cents" "pr_version r < max_int64" using sel by simp_all
  moreover have "k = 1"
    using t filter_distinct_id [where P = "\<lambda>x. pr_version x = ui_ExpectedVersion i",
        OF rows_distinct_ids [OF assms(2)] assms(3,5)] by simp
  moreover have "pr_name x \<noteq> ui_Name i" if "x \<in> set (products s)" "pr_id x \<noteq> pr_id r" for x
  proof
    assume "pr_name x = ui_Name i"
    moreover have "x \<in> set (products t)"
      using that sel(1) unfolding rows by (auto simp: replace_row_def image_iff)
    moreover have "distinct (map pr_name (products t))" using t by blast
    ultimately have "x = ?r" using mem sel(2) by (metis distinct_map inj_onD)
    with that sel(1) show False by simp
  qed
  ultimately show ?thesis using c rows that by blast
qed

lemma transition_stmt_InrD:
  assumes "transition_stmt env ident nxt s = (Inr k, t)" and "products_ok (tables_of s)"
    and "r \<in> set (products s)" and "int4in env ident = Some (pr_id r)"
  shows "pr_version r < max_int64 \<and>
    products t = replace_row (move_row nxt (clock s) r) (products s)"
proof -
  from assms(1,4) have up: "update_products (\<lambda>x. pr_id x = pr_id r) (move_row nxt (clock s)) s = (Inr k, t)"
    by (simp add: transition_stmt_def)
  note t = update_products_InrD [OF up]
  have rows: "products t = replace_row (move_row nxt (clock s) r) (products s)"
    using t replace_row_one [OF rows_distinct_ids [OF assms(2)] assms(3), of "move_row nxt (clock s)"]
    by simp
  have "move_row nxt (clock s) r \<in> set (products t)"
    using assms(3) unfolding rows by (auto simp: replace_row_def image_iff)
  with t have "pr_version (move_row nxt (clock s) r) \<le> max_int64" by blast
  with rows show ?thesis by simp
qed

lemma insert_new_InrD:
  assumes "insert_new env i s = (Inr n, t)"
  obtains cents where "convert_params env (ci_Name i) (ci_Price i) = Inr cents" "0 \<le> cents"
    "n = next_pid s" "is_int4 (next_pid s)"
    "\<forall>x \<in> set (products s). pr_name x \<noteq> ci_Name i"
    "products t = products s @ [product_row (next_pid s) (ci_Name i) (ci_Description i) cents
       (category_id_of s (ci_Category i)) StatusDraft (clock s)]"
proof -
  from assms obtain cents where "convert_params env (ci_Name i) (ci_Price i) = Inr cents" "0 \<le> cents"
    "n = next_pid s" "is_int4 (next_pid s)" and f: "ci_Name i \<notin> pr_name ` set (products s)"
    and "products t = products s @ [product_row (next_pid s) (ci_Name i) (ci_Description i) cents
       (category_id_of s (ci_Category i)) StatusDraft (clock s)]"
    unfolding insert_new_def insert_product_def Let_def by (auto split: sum.splits if_splits)
  moreover from f have "\<forall>x \<in> set (products s). pr_name x \<noteq> ci_Name i" by (metis imageI)
  ultimately show ?thesis by (intro that)
qed

lemma insertAudit_fits:
  assumes "insertAudit e s = (Inr u, t)" and "faults s = []"
  shows "is_int4 (TargetID e) \<and> audit_fits e \<and> next_aid t = next_aid s + 1 \<and>
    audits t = audits s @ [audit_of e (next_aid s) (clock s)]"
  using assms
  by (auto simp: insertAudit_def on_err_def insert_audit_row_def audit_of_def audit_fits_def Let_def
      split: if_splits)

lemma insertAudit_next: "faults s = [] \<Longrightarrow> next_aid s \<le> next_aid (snd (insertAudit e s))"
  by (simp add: insertAudit_def on_err_def insert_audit_row_def Let_def)

lemma for_update_InrD:
  assumes "for_update env ident s = Inr r" and "scan_ok env" and "faults s = []"
  shows "r \<in> set (products s) \<and> int4in env ident = Some (pr_id r)"
proof -
  from assms(1,3) obtain n rs where n: "int4in env ident = Some n"
    and f: "filter (\<lambda>x. pr_id x = n) (scan_order env (products s)) = r # rs"
    by (auto simp: for_update_def select_product_def with_int4_def first_row_def
        split: option.splits list.splits)
  then have "r \<in> set (filter (\<lambda>x. pr_id x = n) (scan_order env (products s)))" by simp
  with n show ?thesis using set_scan_order [OF assms(2)] by auto
qed

subsection \<open>Every step keeps the invariant\<close>

lemma claimed_below:
  assumes "session_ok env s (d, ph)" and "db_inv s"
  shows "claimed_id ph = Some n \<Longrightarrow> n < next_pid s"
    and "claimed_audit ph = Some a \<Longrightarrow> a < next_aid s"
proof -
  have P: "pr_id r' < next_pid s" if "pending env s c tm p r' e" for c tm p r' e
    using that assms(2) by cases (auto simp: db_inv_iff update_row_def)
  show "claimed_id ph = Some n \<Longrightarrow> n < next_pid s"
    using assms P by (cases ph) (auto simp: db_inv_iff)
  show "claimed_audit ph = Some a \<Longrightarrow> a < next_aid s"
    using assms(1) by (cases ph) auto
qed

lemma claimed_row:
  assumes "session_ok env s (d, ph)" and "r \<in> set (products s)" and "claimed_id ph = Some (pr_id r)"
  shows "row_lock ph = Some (pr_id r)"
proof -
  have P: "\<exists>x. p = Some x \<and> pr_id x = pr_id r'"
    if "pending env s c tm p r' e" "pr_id r' = pr_id r" for c tm p r' e
    using pending_ids [OF that(1)] that(2) assms(2) by (cases p) auto
  show ?thesis using assms by (cases ph) (auto dest: P)
qed

lemma claimed_name_other:
  assumes "session_ok env s (d, ph)" and "db_inv s" and "r \<in> set (products s)"
    and "claimed_id ph \<noteq> Some (pr_id r)"
  shows "claimed_name ph \<noteq> Some (pr_name r)"
  using assms(1,3,4) pending_name [OF _ db_inv_distinct_names [OF assms(2)] assms(3)]
  by (cases ph) fastforce+

lemma claimed_name_flight: "claimed_name ph = Some x \<Longrightarrow> x \<in> set (names_in_flight ph)"
  by (cases ph) auto

lemma write_row_pending:
  assumes "session_ok env s (c, Holding tm r b)" and "db_inv s"
    and "write_row env c b (s\<lparr>clock := tm\<rparr>) = (Inr k, t)"
  obtains r' where "pending env s c tm (Some r) r' (entry c b)" "products t = replace_row r' (products s)"
    "\<not> unmatched c k" "wanted c = None \<longrightarrow> pr_name r' = pr_name r"
    "\<forall>x. wanted c = Some x \<longrightarrow> pr_name r' = x"
    "\<forall>i. c = Do_update i \<longrightarrow> pr_category_id r' = category_id_of s (ui_Category i)"
proof -
  let ?s = "s\<lparr>clock := tm\<rparr>"
  have ok: "products_ok (tables_of ?s)" using assms(2) by (simp add: db_inv_def)
  from assms(1) obtain ident where r: "r \<in> set (products s)" and id: "subject c = Some ident"
    "int4in env ident = Some (pr_id r)" and b: "ap_Status b = pr_status r" "ap_Version b = pr_version r"
    and v: "verdict c b = None" by auto
  show ?thesis
  proof (cases c)
    case (Do_update i)
    with v b have ver: "pr_version r = ui_ExpectedVersion i" by (simp split: if_splits)
    from Do_update assms(3) have "update_stmt env i ?s = (Inr k, t)" by simp
    then obtain cents where c1: "convert_params env (ui_Name i) (ui_Price i) = Inr cents" "0 \<le> cents"
      "pr_version r < max_int64" "k = 1"
      and rows: "products t = replace_row
        (update_row i cents (category_id_of ?s (ui_Category i)) (clock ?s) r) (products ?s)"
      and nm: "\<forall>x \<in> set (products ?s). pr_id x \<noteq> pr_id r \<longrightarrow> pr_name x \<noteq> ui_Name i"
      using update_stmt_InrD [OF _ ok, of env i k t r] r id Do_update ver by auto
    have k: "category_id_of ?s = category_id_of s" by (simp add: fun_eq_iff category_id_of_def)
    have "pending env s (Do_update i) tm (Some r)
        (update_row i cents (category_id_of s (ui_Category i)) tm r) (update_audit i b)"
      using r id Do_update ver c1 nm b category_id_of_mem
      by (intro pending_edit) simp_all
    then show ?thesis
      using rows c1(4) Do_update k
      by (intro that [of "update_row i cents (category_id_of s (ui_Category i)) tm r"])
         (simp_all add: update_row_def)
  next
    case (Do_transition i)
    with v b obtain nxt where nxt: "NextStatus (pr_status r) (ti_Action i) = Inr nxt"
      by (auto split: sum.splits)
    with b have mt: "move_target i b = nxt" by (simp add: move_target_def)
    from Do_transition assms(3) have "transition_stmt env (ti_ID i) nxt ?s = (Inr k, t)"
      by (simp add: mt)
    from transition_stmt_InrD [OF this ok] r id Do_transition
    have "pr_version r < max_int64" and rows: "products t = replace_row (move_row nxt tm r) (products s)"
      by auto
    moreover from this have "pending env s (Do_transition i) tm (Some r) (move_row nxt tm r)
        (transition_audit i (pr_status r) nxt (pr_version r))"
      using r id Do_transition nxt by (intro pending_move) simp_all
    ultimately show ?thesis
      using Do_transition b mt
      by (intro that [of "move_row nxt tm r"]) (simp_all add: move_row_def)
  qed (use id in simp_all)
qed

lemma insert_row_pending:
  assumes "insert_new env i (s\<lparr>clock := tm, next_pid := pid\<rparr>) = (Inr n, t)"
    and "session_ok env s (Do_create i, Drawn tm pid)"
  shows "n = pid \<and> pending env s (Do_create i) tm None (last (products t)) (create_audit i pid) \<and>
    pr_id (last (products t)) = pid \<and> pr_name (last (products t)) = ci_Name i \<and>
    pr_category_id (last (products t)) = category_id_of s (ci_Category i)"
proof -
  let ?s = "s\<lparr>clock := tm, next_pid := pid\<rparr>"
  have k: "category_id_of ?s = category_id_of s" by (simp add: fun_eq_iff category_id_of_def)
  from assms(1) obtain cents where "convert_params env (ci_Name i) (ci_Price i) = Inr cents" "0 \<le> cents"
    "n = next_pid ?s" "is_int4 (next_pid ?s)" "\<forall>x \<in> set (products ?s). pr_name x \<noteq> ci_Name i"
    "products t = products ?s @ [product_row (next_pid ?s) (ci_Name i) (ci_Description i) cents
       (category_id_of ?s (ci_Category i)) StatusDraft (clock ?s)]"
    by (rule insert_new_InrD)
  with assms(2) show ?thesis
    using k category_id_of_mem [of s "ci_Category i"] by (auto intro!: pending_create)
qed

lemma pending_catalog_step:
  assumes "pending env s c tm p r' e" and "db_inv s" and "a = audit_of e aid tm"
  shows "catalog_step (tables_of s) (pr_id r') a (tables_of (publish_write p r' a s)) \<and>
    TargetType e = ''product'' \<and> (plain_id env c \<longrightarrow> TargetID e = pr_id r')"
  using assms(1)
proof cases
  case (pending_create i cents pid k)
  have "catalog_step (tables_of s) (pr_id r') a (tables_of s\<lparr>t_products := t_products (tables_of s) @ [r'],
      t_audits := t_audits (tables_of s) @ [a]\<rparr>)"
    using pending_create assms(3)
    by (intro step_create) (auto simp: tables_of_def create_audit_def)
  then show ?thesis
    using pending_create by (simp add: publish_write_def install_def tables_of_def create_audit_def)
next
  case (pending_edit r i b cents k)
  have v: "wrap64 (pr_version r + 1) = pr_version r + 1"
    using version_step [OF db_inv_row [OF assms(2) pending_edit(5)]] pending_edit(8) by simp
  have "catalog_step (tables_of s) (pr_id r) a (tables_of s\<lparr>t_products := replace_row r' (t_products (tables_of s)),
      t_audits := t_audits (tables_of s) @ [a]\<rparr>)"
    using pending_edit assms(3) v
    by (intro step_edit) (simp_all add: tables_of_def update_audit_def update_row_def)
  then show ?thesis
    using pending_edit by (simp add: publish_write_def install_def tables_of_def update_audit_def
        audit_target_def update_row_def)
next
  case (pending_move r i nxt)
  have v: "wrap64 (pr_version r + 1) = pr_version r + 1"
    using version_step [OF db_inv_row [OF assms(2) pending_move(5)]] pending_move(8) by simp
  have "catalog_step (tables_of s) (pr_id r) a (tables_of s\<lparr>t_products := replace_row r' (t_products (tables_of s)),
      t_audits := t_audits (tables_of s) @ [a]\<rparr>)"
    using pending_move assms(3) v
    by (intro step_move [where nxt = nxt and tm = tm])
       (simp_all add: tables_of_def transition_audit_def NextStatus_edge)
  then show ?thesis
    using pending_move by (simp add: publish_write_def install_def tables_of_def transition_audit_def
        audit_target_def)
qed

lemma pending_row_ok:
  assumes "pending env s c tm p r' e" and "db_inv s" and "numeric2_ok env"
  shows "row_ok r' \<and> pr_id r' < next_pid s \<and>
    set_option (pr_category_id r') \<subseteq> cr_id ` set (categories s)"
  using assms(1)
proof cases
  case (pending_create i cents pid k)
  then show ?thesis
    using convert_params_range [OF assms(3)] by (simp add: row_ok_def max_int64_def)
next
  case (pending_edit r i b cents k)
  then have "row_ok r'"
    using update_row_ok db_inv_row [OF assms(2)] convert_params_range [OF assms(3)] by simp
  with pending_edit assms(2) show ?thesis by (simp add: db_inv_iff update_row_def)
next
  case (pending_move r i nxt)
  with db_inv_row [OF assms(2) pending_move(5)] NextStatus_Valid [OF pending_move(7)]
  have "row_ok r'" by (simp add: row_ok_def move_row_def)
  with pending_move assms(2) show ?thesis by (simp add: db_inv_iff move_row_def)
qed

lemma publish_inv:
  assumes p: "pending env s c tm p r' e" and inv: "db_inv s" and num: "numeric2_ok env"
    and a: "a = audit_of e aid tm" "aid < next_aid s" "\<forall>x \<in> set (audits s). ar_id x \<noteq> aid"
      "is_int4 (TargetID e)"
  shows "db_inv (publish_write p r' a s)"
proof -
  let ?rows = "install p r' (products s)"
  have "distinct (map pr_id ?rows)" "distinct (map pr_name ?rows)"
    using pending_ids [OF p] db_inv_distinct_ids [OF inv] db_inv_distinct_names [OF inv]
      pending_name [OF p db_inv_distinct_names [OF inv]]
    by (cases p; force simp: install_def intro!: distinct_names_replace)+
  moreover have "row_ok x \<and> pr_id x < next_pid s \<and>
      set_option (pr_category_id x) \<subseteq> cr_id ` set (categories s)" if "x \<in> set ?rows" for x
    using that install_cases [OF p] pending_row_ok [OF p inv num] inv by (auto simp: db_inv_iff)
  moreover have "TargetType e = ''product''" using pending_catalog_step [OF p inv refl] by blast
  ultimately show ?thesis using inv a unfolding db_inv_iff publish_write_def by auto
qed

lemma no_clash_free: "claimed_id ph = None \<Longrightarrow> claimed_name ph = None \<Longrightarrow> claimed_audit ph = None \<Longrightarrow> no_clash ph x"
  by (simp add: no_clash_def apart_def)

lemma no_clash_Ended [simp]: "no_clash (Ended out) x"
  by (simp add: no_clash_free)

lemma leaves_refl [simp]: "leaves ph s s"
  by (simp add: leaves_quiet)

lemma leaves_clock [simp]: "leaves ph (s\<lparr>clock := tm\<rparr>) t = leaves ph s t"
  by (simp add: leaves_def)

lemma db_inv_next_aid: "db_inv s \<Longrightarrow> next_aid s \<le> n \<Longrightarrow> db_inv (s\<lparr>next_aid := n\<rparr>)"
  unfolding db_inv_iff by (auto intro: order_less_le_trans)

lemma leaves_next_aid: "next_aid s \<le> n \<Longrightarrow> leaves ph s (s\<lparr>next_aid := n\<rparr>)"
  by (simp add: leaves_quiet tables_of_def)

lemma begin_func_faults:
  "faults s = [] \<Longrightarrow> faults (snd (body s)) = [] \<Longrightarrow> faults (snd (begin_func body s)) = []"
  by (auto simp: begin_func_no_faults rollback_def split: prod.splits sum.splits)

lemma insertAudit_no_faults: "insertAudit e s = (x, t) \<Longrightarrow> faults s = [] \<Longrightarrow> faults t = []"
  by (metis faults_insertAudit snd_conv)

lemma category_cmd_faults:
  assumes "is_category_cmd c" and "faults s = []"
  shows "faults (snd (run_cmd env c s)) = []"
proof (cases c)
  case (Do_create_category n d a q)
  have "faults (snd (insert_category n d s)) = []"
    using assms(2) by (simp add: insert_category_def Let_def)
  then show ?thesis
    using assms(2) Do_create_category
    by (cases "insert_category n d s")
       (auto simp: CreateCategory_def create_category_tx_def seq_def on_err_def give_def
         intro!: begin_func_faults split: sum.splits prod.splits dest: insertAudit_no_faults)
next
  case (Do_update_category cid n d a q)
  have "faults (snd (update_category_row cid n d s)) = []"
    using assms(2) by (simp add: update_category_row_def Let_def split: option.splits)
  then show ?thesis
    using assms(2) Do_update_category
    by (cases "update_category_row cid n d s")
       (auto simp: UpdateCategory_def update_category_tx_def select_category_def seq_def on_err_def
         give_def intro!: begin_func_faults split: sum.splits prod.splits dest: insertAudit_no_faults)
qed (use assms in \<open>simp_all add: is_category_cmd_def\<close>)

lemma name_free_claims:
  assumes "name_free c os" and "wanted c = Some x" and "ph \<in> set os"
  shows "claimed_name ph \<noteq> Some x"
  using assms claimed_name_flight by (fastforce simp: name_free_def)

text \<open>A step of one session, as the others see it.\<close>

definition step_fits :: "dbenv \<Rightarrow> phase list \<Rightarrow> admin_cmd \<Rightarrow> db \<Rightarrow> db \<Rightarrow> phase \<Rightarrow> bool" where
  "step_fits env os c s s' ph' \<longleftrightarrow> db_inv s' \<and> faults s' = [] \<and> session_ok env s' (c, ph') \<and>
     (\<forall>x \<in> set os. no_clash ph' x \<and> leaves x s s')"

lemma publish_fits:
  assumes "session_ok env s (c, Logged tm p r' a)" and "db_inv s" and "faults s = []"
    and "numeric2_ok env" and "\<forall>x \<in> set os. no_clash (Logged tm p r' a) x"
  shows "step_fits env os c s (publish_write p r' a s) (Ended out)"
proof -
  from assms(1) obtain e aid where p: "pending env s c tm p r' e" and a: "a = audit_of e aid tm"
    "aid < next_aid s" "\<forall>x \<in> set (audits s). ar_id x \<noteq> aid" "is_int4 (TargetID e)"
    by auto
  from publish_inv [OF p assms(2,4) a] leaves_publish [OF p] assms(3,5) show ?thesis
    by (simp add: step_fits_def publish_write_def)
qed

lemma session_step_fits:
  assumes "session_step env os c s ph s' ph'" and inv: "db_inv s" and f: "faults s = []"
    and ok: "session_ok env s (c, ph)" and scan: "scan_ok env" and num: "numeric2_ok env"
    and oks: "\<forall>x \<in> set os. no_clash ph x \<and> (\<exists>d. session_ok env s (d, x))"
  shows "step_fits env os c s s' ph'"
  using assms(1)
proof cases
  case (begin_tx tm)
  with inv f show ?thesis by (simp add: step_fits_def no_clash_free leaves_quiet tables_of_def)
next
  case (lock_row ident r tm)
  from for_update_InrD [OF lock_row(5) scan f] have r: "r \<in> set (products s)"
    "int4in env ident = Some (pr_id r)" by simp_all
  have "no_clash ph' x" if "x \<in> set os" for x
  proof -
    from oks that obtain d where "session_ok env s (d, x)" by blast
    with claimed_row [OF this r(1)] that lock_row show ?thesis
      by (force simp: no_clash_def apart_def row_locked_def)
  qed
  with lock_row inv f r show ?thesis by (simp add: step_fits_def)
next
  case (write_done b tm k t r r')
  from write_done ok have "session_ok env s (c, Holding tm r b)" by simp
  from write_row_pending [OF this inv write_done(4)] obtain r1 where
    p: "pending env s c tm (Some r) r1 (entry c b)" and rows: "products t = replace_row r1 (products s)"
    and nm: "wanted c = None \<longrightarrow> pr_name r1 = pr_name r" "\<forall>x. wanted c = Some x \<longrightarrow> pr_name r1 = x"
    by metis
  from pending_ids [OF p] have r: "r \<in> set (products s)" "pr_id r1 = pr_id r" by auto
  with rows write_done find_replace_row have r1: "r1 = r'" by fastforce
  have "no_clash ph' x" if x: "x \<in> set os" for x
  proof -
    from oks x obtain d where d: "session_ok env s (d, x)" by blast
    from oks x write_done have id: "claimed_id x \<noteq> Some (pr_id r)"
      by (auto simp: no_clash_def apart_def)
    have "claimed_name x \<noteq> Some (pr_name r')"
      using claimed_name_other [OF d inv r(1) id] name_free_claims [OF write_done(6) _ x] nm r1
      by (cases "wanted c") auto
    with id r r1 write_done show ?thesis by (auto simp: no_clash_def apart_def)
  qed
  with write_done inv f p r1 show ?thesis by (simp add: step_fits_def)
next
  case (draw_id i cents tm)
  have pos: "0 < next_pid s" and below: "\<forall>x \<in> set (products s). pr_id x \<noteq> next_pid s"
    using inv by (auto simp: db_inv_iff)
  have "no_clash ph' x" if "x \<in> set os" for x
  proof -
    from oks that obtain d where "session_ok env s (d, x)" by blast
    from claimed_below(1) [OF this inv] have "claimed_id x \<noteq> Some (next_pid s)" by blast
    with draw_id show ?thesis by (auto simp: no_clash_def apart_def)
  qed
  with draw_id db_inv_skip_pid [OF inv] f pos below show ?thesis
    by (simp add: step_fits_def leaves_quiet tables_of_def)
next
  case (insert_row i pid tm n t)
  from insert_row ok have "session_ok env s (Do_create i, Drawn tm pid)" by simp
  from insert_row_pending [OF insert_row(5) this]
  have n: "n = pid" and p: "pending env s c tm None (last (products t)) (create_audit i pid)"
    and sel: "pr_id (last (products t)) = pid" "pr_name (last (products t)) = ci_Name i"
    using insert_row by simp_all
  have "no_clash ph' x" if x: "x \<in> set os" for x
    using oks x insert_row sel name_free_claims [OF insert_row(6) _ x]
    by (auto simp: no_clash_def apart_def)
  with insert_row inv f p n show ?thesis by (simp add: step_fits_def)
next
  case (log_entry e tm t p r')
  from insertAudit_fits [OF log_entry(4)] f have e: "is_int4 (TargetID e)" "audit_fits e"
    "next_aid t = next_aid s + 1" "audits t = audits s @ [audit_of e (next_aid s) tm]" by simp_all
  let ?s = "s\<lparr>next_aid := next_aid s + 1\<rparr>"
  have inv': "db_inv ?s" by (rule db_inv_next_aid [OF inv]) simp
  have l: "leaves x s ?s" for x by (rule leaves_next_aid) simp
  have "\<forall>x \<in> set (audits s). ar_id x \<noteq> next_aid s" using inv by (auto simp: db_inv_iff)
  moreover have "pending env ?s c tm p r' e"
    using session_ok_leaves [OF ok l] log_entry by simp
  ultimately have "session_ok env ?s (c, Logged tm p r' (audit_of e (next_aid s) tm))"
    using e by auto
  moreover have "no_clash (Logged tm p r' (audit_of e (next_aid s) tm)) x" if "x \<in> set os" for x
  proof -
    from oks that obtain d where "session_ok env s (d, x)" by blast
    from claimed_below(2) [OF this inv] have "claimed_audit x \<noteq> Some (next_aid s)" by blast
    with oks that log_entry show ?thesis by (auto simp: no_clash_def apart_def)
  qed
  ultimately show ?thesis using inv' l f e log_entry by (simp add: step_fits_def)
next
  case (log_failed e tm x t p r')
  have "next_aid s \<le> next_aid t"
    using insertAudit_next [of "s\<lparr>clock := tm\<rparr>" e] f log_failed by simp
  with log_failed inv f show ?thesis
    by (simp add: step_fits_def db_inv_next_aid leaves_next_aid)
next
  case (commit tm p r' a)
  with publish_fits [of env s c tm p r' a os None] ok inv f num oks show ?thesis by simp
next
  case (category_cmd tm out)
  have "db_inv (s\<lparr>clock := tm\<rparr>)" using inv by simp
  with run_cmd_inv [OF num this, of c] leaves_category [OF category_cmd(6,3) this] category_cmd
    category_cmd_faults [of c "s\<lparr>clock := tm\<rparr>" env] f
  show ?thesis by (simp add: step_fits_def)
qed (use inv f in \<open>simp_all add: step_fits_def\<close>)

lemma session_fault_fits:
  assumes "session_fault env os c s ph s' ph'" and inv: "db_inv s" and f: "faults s = []"
    and ok: "session_ok env s (c, ph)" and num: "numeric2_ok env"
    and oks: "\<forall>x \<in> set os. no_clash ph x"
  shows "step_fits env os c s s' ph'"
  using assms(1)
proof cases
  case (undone e)
  with inv f show ?thesis by (simp add: step_fits_def)
next
  case (unanswered tm p r' a)
  with publish_fits [of env s c tm p r' a os] ok inv f num oks show ?thesis by simp
next
  case (category_unanswered tm)
  have "db_inv (s\<lparr>clock := tm\<rparr>)" using inv by simp
  with run_cmd_inv [OF num this, of c] leaves_category [OF category_unanswered(6,3) this]
    category_unanswered category_cmd_faults [of c "s\<lparr>clock := tm\<rparr>" env] f
  show ?thesis by (simp add: step_fits_def)
qed

lemma set_others:
  assumes "k < length ss"
  shows "set (others k ss) = {snd (ss ! j) |j. j < length ss \<and> j \<noteq> k}"
proof -
  have "set (take k ss) = {ss ! j |j. j < k}"
    using nth_image [of k ss] assms by (force simp: image_def)
  moreover have "set (drop (Suc k) ss) = {ss ! j |j. k < j \<and> j < length ss}"
  proof (intro set_eqI iffI)
    fix x assume "x \<in> set (drop (Suc k) ss)"
    then obtain i where "i < length ss - Suc k" "x = ss ! (Suc k + i)"
      by (auto simp: in_set_conv_nth)
    then have "k < Suc k + i \<and> Suc k + i < length ss \<and> x = ss ! (Suc k + i)" by auto
    then show "x \<in> {ss ! j |j. k < j \<and> j < length ss}" by blast
  next
    fix x assume "x \<in> {ss ! j |j. k < j \<and> j < length ss}"
    then obtain j where j: "k < j" "j < length ss" "x = ss ! j" by blast
    then have "drop (Suc k) ss ! (j - Suc k) = x" "j - Suc k < length (drop (Suc k) ss)" by auto
    then show "x \<in> set (drop (Suc k) ss)" by (metis nth_mem)
  qed
  ultimately have "set (others k ss) = snd ` ({ss ! j |j. j < k} \<union> {ss ! j |j. k < j \<and> j < length ss})"
    by (simp add: others_def image_Un)
  also have "\<dots> = {snd (ss ! j) |j. j < length ss \<and> j \<noteq> k}"
    using assms by (auto simp: nat_neq_iff)
  finally show ?thesis .
qed

lemma conf_ok_others:
  assumes "conf_ok env (s, ss)" and "k < length ss" and "ss ! k = (c, ph)"
  shows "\<forall>x \<in> set (others k ss). no_clash ph x \<and> (\<exists>d. session_ok env s (d, x))"
proof
  fix x assume "x \<in> set (others k ss)"
  then obtain j where j: "j < length ss" "j \<noteq> k" "x = snd (ss ! j)"
    unfolding set_others [OF assms(2)] by blast
  then have "session_ok env s (ss ! j)" using assms(1) by (simp add: conf_ok_def)
  then have "session_ok env s (fst (ss ! j), x)" using j(3) by simp
  moreover have "no_clash ph x"
    using assms j unfolding conf_ok_def by (metis fst_conv snd_conv)
  ultimately show "no_clash ph x \<and> (\<exists>d. session_ok env s (d, x))" by blast
qed

lemma conf_ok_update:
  assumes ok: "conf_ok env (s, ss)" and k: "k < length ss" and "ss ! k = (c, ph)"
    and fits: "step_fits env (others k ss) c s s' ph'"
  shows "conf_ok env (s', ss[k := (c, ph')])"
proof -
  have fit: "no_clash ph' (snd (ss ! j)) \<and> leaves (snd (ss ! j)) s s'" if "j < length ss" "j \<noteq> k" for j
    using fits that unfolding step_fits_def set_others [OF k] by blast
  have "session_ok env s' (ss[k := (c, ph')] ! j)" if "j < length ss" for j
  proof (cases "j = k")
    case True
    then show ?thesis using fits k by (simp add: step_fits_def)
  next
    case False
    obtain d x where dx: "ss ! j = (d, x)" by fastforce
    have "session_ok env s (ss ! j)" using ok that by (simp add: conf_ok_def)
    then have "session_ok env s' (d, x)"
      using session_ok_leaves [of env s d x s'] fit [OF that False] dx by simp
    then show ?thesis using dx False by simp
  qed
  then have "\<forall>x \<in> set (ss[k := (c, ph')]). session_ok env s' x"
    by (metis in_set_conv_nth length_list_update)
  moreover have "no_clash (snd (ss[k := (c, ph')] ! i)) (snd (ss[k := (c, ph')] ! j))"
    if "i < length ss" "j < length ss" "i \<noteq> j" for i j
    using that fit no_clash_sym ok k by (cases "i = k"; cases "j = k") (auto simp: conf_ok_def)
  ultimately show ?thesis using fits by (simp add: conf_ok_def step_fits_def)
qed

lemma step_elim:
  assumes "step env (s, ss) (s', ss')"
  obtains k c ph ph' where "k < length ss" "ss ! k = (c, ph)" "ss' = ss[k := (c, ph')]"
    "session_step env (others k ss) c s ph s' ph' \<or> session_fault env (others k ss) c s ph s' ph'"
  using assms unfolding step_def by (auto elim!: healthy_step.cases fault_step.cases)

lemma step_conf_ok:
  assumes "step env x y" and "conf_ok env x" and "scan_ok env" and "numeric2_ok env"
  shows "conf_ok env y"
proof -
  obtain s ss s' ss' where xy: "x = (s, ss)" "y = (s', ss')" by fastforce
  from assms(1) obtain k c ph ph' where k: "k < length ss" "ss ! k = (c, ph)"
    and ss': "ss' = ss[k := (c, ph')]"
    and st: "session_step env (others k ss) c s ph s' ph' \<or> session_fault env (others k ss) c s ph s' ph'"
    unfolding xy by (rule step_elim)
  have ok: "db_inv s" "faults s = []" "session_ok env s (c, ph)"
    using assms(2) k by (auto simp: xy conf_ok_def dest: nth_mem)
  note oks = conf_ok_others [OF assms(2) [unfolded xy] k]
  from st have "step_fits env (others k ss) c s s' ph'"
    using session_step_fits [OF _ ok assms(3,4) oks] session_fault_fits [OF _ ok assms(4)] oks
    by blast
  from conf_ok_update [OF assms(2) [unfolded xy] k this] show ?thesis by (simp add: xy ss')
qed

lemma conf_ok_start: "db_inv s \<Longrightarrow> faults s = [] \<Longrightarrow> conf_ok env (s, start cs)"
  by (auto simp: conf_ok_def start_def no_clash_free)

text \<open>Whatever every step keeps, together with the invariant, holds after every schedule.\<close>

lemma schedule_induct:
  assumes "schedule env x ys" and "conf_ok env x" and "I x" and "scan_ok env" and "numeric2_ok env"
    and "\<And>x y. conf_ok env x \<Longrightarrow> conf_ok env y \<Longrightarrow> I x \<Longrightarrow> step env x y \<Longrightarrow> I y"
  shows "conf_ok env (reached x ys) \<and> I (reached x ys)"
  using assms(1-3)
proof (induction ys arbitrary: x)
  case Nil
  then show ?case by (simp add: reached_def)
next
  case (Cons y ys)
  then have "step env x y" by simp
  with Cons.prems assms(4-6) have "conf_ok env y" "I y" by (metis step_conf_ok)+
  with Cons show ?case by (simp add: reached_def)
qed

lemma step_fst: "step env x y \<Longrightarrow> map fst (snd y) = map fst (snd x)"
  by (cases x; cases y) (auto elim!: step_elim simp: map_update list_update_same_conv)

lemma schedule_commands: "schedule env x ys \<Longrightarrow> map fst (snd (reached x ys)) = map fst (snd x)"
  by (induction ys arbitrary: x) (auto simp: reached_def dest: step_fst)

subsection \<open>What a step does to the tables\<close>

lemma session_tables:
  assumes "session_step env os c s ph s' ph' \<or> session_fault env os c s ph s' ph'"
    and ok: "session_ok env s (c, ph)" and inv: "db_inv s" and scan: "scan_ok env"
  shows "tables_of s' = tables_of s \<or> (\<exists>n a. catalog_step (tables_of s) n a (tables_of s') \<and>
     (plain_id env c \<longrightarrow> ar_target_id a = n))"
proof -
  have pub: ?thesis if "s' = publish_write p r' a s" "ph = Logged tm p r' a" for tm p r' a
  proof -
    from ok that obtain e aid where p: "pending env s c tm p r' e" and a: "a = audit_of e aid tm"
      by auto
    from pending_catalog_step [OF p inv a] have "catalog_step (tables_of s) (pr_id r') a (tables_of s')"
      "plain_id env c \<longrightarrow> ar_target_id a = pr_id r'"
      unfolding that(1) by (simp_all add: a)
    then show ?thesis by blast
  qed
  have cat: ?thesis if "run_cmd env c (s\<lparr>clock := tm\<rparr>) = (out, s')" for tm out
    using run_cmd_step [OF scan _ that] inv by (auto simp: makes_step_def)
  from assms(1) show ?thesis
  proof
    assume "session_step env os c s ph s' ph'"
    then show ?thesis
    proof cases
      case (commit tm p r' a)
      then show ?thesis by (intro pub)
    next
      case (category_cmd tm out)
      then show ?thesis by (intro cat)
    qed (simp_all add: tables_of_def)
  next
    assume "session_fault env os c s ph s' ph'"
    then show ?thesis
    proof cases
      case (unanswered tm p r' a)
      then show ?thesis by (intro pub)
    next
      case (category_unanswered tm)
      then show ?thesis by (intro cat)
    qed simp
  qed
qed

lemma conf_step_tables:
  assumes "step env (s, ss) (s', ss')" and "conf_ok env (s, ss)" and "scan_ok env"
  shows "tables_of s' = tables_of s \<or> (\<exists>n a. catalog_step (tables_of s) n a (tables_of s') \<and>
     (list_all (\<lambda>x. plain_id env (fst x)) ss \<longrightarrow> ar_target_id a = n))"
proof -
  from assms(1) obtain k c ph ph' where k: "k < length ss" "ss ! k = (c, ph)"
    and st: "session_step env (others k ss) c s ph s' ph' \<or> session_fault env (others k ss) c s ph s' ph'"
    by (rule step_elim)
  have ok: "db_inv s" "session_ok env s (c, ph)"
    using assms(2) k by (auto simp: conf_ok_def dest: nth_mem)
  have "list_all (\<lambda>x. plain_id env (fst x)) ss \<longrightarrow> plain_id env c"
    using k by (auto simp: list_all_length)
  with session_tables [OF st ok(2,1) assms(3)] show ?thesis by blast
qed

subsection \<open>Every schedule ends, and none gets stuck\<close>

fun work_left :: "phase \<Rightarrow> nat" where
  "work_left Waiting = 6"
| "work_left (Open _) = 5"
| "work_left (Drawn _ _) = 4"
| "work_left (Holding _ _ _) = 4"
| "work_left (Written _ _ _ _) = 3"
| "work_left (Logged _ _ _ _) = 2"
| "work_left (Ended _) = 0"

definition total_work :: "conf \<Rightarrow> nat" where
  "total_work x = sum_list (map (work_left \<circ> snd) (snd x))"

lemma session_work: "session_step env os c s ph s' ph' \<Longrightarrow> work_left ph' < work_left ph"
  by (cases rule: session_step.cases) auto

lemma fault_work: "session_fault env os c s ph s' ph' \<Longrightarrow> work_left ph' < work_left ph"
  by (cases rule: session_fault.cases) (auto, cases ph, auto)

lemma sum_list_update_less:
  "k < length xs \<Longrightarrow> f y < f (xs ! k) \<Longrightarrow> sum_list (map f (xs[k := y])) < sum_list (map f (xs :: 'a list)) "
  for f :: "'a \<Rightarrow> nat"
proof (induction xs arbitrary: k)
  case (Cons x xs)
  then show ?case by (cases k) auto
qed simp

lemma step_work: "step env x y \<Longrightarrow> total_work y < total_work x"
  by (cases x; cases y)
     (auto simp: total_work_def dest: session_work fault_work elim!: step_elim intro!: sum_list_update_less)

lemma schedule_length: "schedule env x ys \<Longrightarrow> length ys + total_work (reached x ys) \<le> total_work x"
proof (induction ys arbitrary: x)
  case (Cons y ys)
  then have "length ys + total_work (reached y ys) \<le> total_work y" "total_work y < total_work x"
    using step_work [of env x y] by simp_all
  then show ?case by (simp add: reached_def)
qed (simp add: reached_def)

end
