(* ===== verification/Row_Locks_Spec.thy ===== *)
theory Row_Locks_Spec
  imports Row_Locks_Inv
begin

section \<open>What operators can rely on when they work at the same time\<close>

text \<open>
  Every schedule of the interleaved writers ends with every command answered, the audit trail
  stays complete, and of two edits that carry the same version of a product at most one
  succeeds.
\<close>

subsection \<open>Some session can always go on\<close>

lemma quiet_phases:
  "4 \<le> work_left ph \<or> work_left ph = 0 \<Longrightarrow> names_in_flight ph = [] \<and> key_share ph = None"
  "5 \<le> work_left ph \<or> work_left ph = 0 \<Longrightarrow> row_lock ph = None"
  by (cases ph; simp)+

lemma create_can_go:
  assumes "c = Do_create i"
  shows "\<exists>s' ph'. session_step env os c s (Open tm) s' ph'"
proof (cases "convert_params env (ci_Name i) (ci_Price i)")
  case (Inl e)
  then have "insert_new env i (s\<lparr>clock := tm\<rparr>) = (Inl e, s\<lparr>clock := tm\<rparr>)"
    by (simp add: insert_new_def insert_product_def)
  from draw_failed [OF assms this] show ?thesis by auto
next
  case (Inr cents)
  show ?thesis
  proof (cases "is_int4 (next_pid s)")
    case True
    with assms Inr show ?thesis by (blast intro: draw_id)
  next
    case False
    with Inr have "insert_new env i (s\<lparr>clock := tm\<rparr>) = (Inl (PgError ''2200H''), s\<lparr>clock := tm\<rparr>)"
      by (simp add: insert_new_def insert_product_def Let_def)
    from draw_failed [OF assms this] show ?thesis by auto
  qed
qed

lemma session_can_go:
  assumes ok: "session_ok env s (c, ph)" and inv: "db_inv s" and busy: "\<And>out. ph \<noteq> Ended out"
    and least: "\<forall>x \<in> set os. work_left ph \<le> work_left x \<or> work_left x = 0"
  shows "\<exists>s' ph'. session_step env os c s ph s' ph'"
proof -
  have names: "name_free c os" if "4 \<le> work_left ph"
    using that least quiet_phases(1) by (fastforce simp: name_free_def split: option.split)
  show ?thesis
  proof (cases ph)
    case Waiting
    then have "\<forall>x \<in> set os. key_share x = None" using least quiet_phases(1) by fastforce
    then have cf: "category_free c os" by (cases c) auto
    show ?thesis
    proof (cases "is_category_cmd c")
      case True
      obtain out t where "run_cmd env c (s\<lparr>clock := clock s\<rparr>) = (out, t)" by fastforce
      from category_cmd [OF True cf order_refl this] Waiting show ?thesis by blast
    next
      case False
      from begin_tx [OF False order_refl] Waiting show ?thesis by blast
    qed
  next
    case (Open tm)
    then have "\<forall>x \<in> set os. row_lock x = None" using least quiet_phases(2) by fastforce
    then have free: "\<not> row_locked n os" for n by (auto simp: row_locked_def)
    show ?thesis
    proof (cases "subject c")
      case None
      with ok Open obtain i where "c = Do_create i" by (cases c) (auto simp: is_category_cmd_def)
      from create_can_go [OF this] Open show ?thesis by blast
    next
      case (Some ident)
      show ?thesis
      proof (cases "for_update env ident s")
        case (Inl e)
        from read_failed [OF Some Inl] Open show ?thesis by blast
      next
        case (Inr r)
        show ?thesis
        proof (cases "verdict c (admin_product s r)")
          case None
          from lock_row [OF Some Inr free None] Open show ?thesis by blast
        next
          case v: (Some e)
          from refuse [OF Some Inr free v] Open show ?thesis by blast
        qed
      qed
    qed
  next
    case (Drawn tm pid)
    with ok obtain i where c: "c = Do_create i" by auto
    have nf: "name_free c os" using names Drawn by simp
    show ?thesis
    proof (cases "insert_new env i (s\<lparr>clock := tm, next_pid := pid\<rparr>)")
      case (Pair x t)
      show ?thesis
      proof (cases x)
        case (Inl e)
        with Pair nf have "session_step env os c s (Drawn tm pid) s (Ended (Some (write_err c e)))"
          by (intro insert_failed [OF c]) simp_all
        with Drawn show ?thesis by blast
      next
        case (Inr n)
        with Pair have "insert_new env i (s\<lparr>clock := tm, next_pid := pid\<rparr>) = (Inr n, t)" by simp
        from insert_row [OF c this nf] Drawn show ?thesis by blast
      qed
    qed
  next
    case (Holding tm r b)
    have nf: "name_free c os" using names Holding by simp
    show ?thesis
    proof (cases "write_row env c b (s\<lparr>clock := tm\<rparr>)")
      case (Pair x t)
      show ?thesis
      proof (cases x)
        case (Inl e)
        with Pair nf have "session_step env os c s (Holding tm r b) s (Ended (Some (write_err c e)))"
          by (intro write_failed) simp_all
        with Holding show ?thesis by blast
      next
        case (Inr k)
        with Pair have w: "write_row env c b (s\<lparr>clock := tm\<rparr>) = (Inr k, t)" by simp
        from write_row_pending [OF ok [unfolded Holding] inv w] obtain r' where
          p: "pending env s c tm (Some r) r' (entry c b)" and rows: "products t = replace_row r' (products s)"
          and k: "\<not> unmatched c k" by metis
        from pending_ids [OF p] have "r \<in> set (products s)" "pr_id r' = pr_id r" by auto
        from write_done [OF w k nf find_replace_row [OF this, folded rows]] Holding
        show ?thesis by blast
      qed
    qed
  next
    case (Written tm p r' e)
    show ?thesis
    proof (cases "insertAudit e (s\<lparr>clock := tm\<rparr>)")
      case (Pair x t)
      show ?thesis
      proof (cases x)
        case (Inl err)
        with Pair have "insertAudit e (s\<lparr>clock := tm\<rparr>) = (Inl err, t)" by simp
        from log_failed [OF this] Written show ?thesis by blast
      next
        case (Inr u)
        with Pair have "insertAudit e (s\<lparr>clock := tm\<rparr>) = (Inr (), t)" by simp
        from log_entry [OF this] Written show ?thesis by blast
      qed
    qed
  next
    case (Logged tm p r' a)
    with commit show ?thesis by blast
  qed (use busy in blast)
qed

lemma unfinished_can_go:
  assumes ok: "conf_ok env (s, ss)" and "\<exists>x \<in> set ss. \<forall>out. snd x \<noteq> Ended out"
  shows "\<exists>y. healthy_step env (s, ss) y"
proof -
  define busy where "busy k \<longleftrightarrow> k < length ss \<and> work_left (snd (ss ! k)) \<noteq> 0" for k
  have ended: "work_left ph = 0 \<longleftrightarrow> (\<exists>out. ph = Ended out)" for ph by (cases ph) auto
  from assms(2) obtain x where x: "x \<in> set ss" "\<forall>out. snd x \<noteq> Ended out" by blast
  from x(1) obtain k0 where "k0 < length ss" "ss ! k0 = x" by (auto simp: in_set_conv_nth)
  with x(2) have "busy k0" by (simp add: busy_def ended)
  from this obtain k where k: "busy k" and min: "\<And>j. busy j \<Longrightarrow> work_left (snd (ss ! k)) \<le> work_left (snd (ss ! j))"
    using arg_min_natI [of busy k0 "\<lambda>k. work_left (snd (ss ! k))"]
      arg_min_nat_le [of busy _ "\<lambda>k. work_left (snd (ss ! k))"] by blast
  obtain c ph where cp: "ss ! k = (c, ph)" by fastforce
  have len: "k < length ss" using k by (simp add: busy_def)
  have "session_ok env s (c, ph)" "db_inv s"
    using ok len cp by (auto simp: conf_ok_def dest: nth_mem)
  moreover have "ph \<noteq> Ended out" for out using k cp by (auto simp: busy_def)
  moreover have "\<forall>x \<in> set (others k ss). work_left ph \<le> work_left x \<or> work_left x = 0"
    using min cp unfolding set_others [OF len] by (auto simp: busy_def)
  ultimately obtain s' ph' where "session_step env (others k ss) c s ph s' ph'"
    using session_can_go by blast
  from healthy [OF len cp this] show ?thesis by blast
qed

definition all_ended :: "conf \<Rightarrow> bool" where
  "all_ended x \<longleftrightarrow> list_all (\<lambda>y. \<exists>out. snd y = Ended out) (snd x)"

lemma not_all_ended: "\<not> all_ended x \<Longrightarrow> \<exists>y \<in> set (snd x). \<forall>out. snd y \<noteq> Ended out"
  by (auto simp: all_ended_def list_all_iff)

text \<open>From every configuration some schedule answers every command.\<close>

lemma complete_schedule:
  assumes "conf_ok env x" and "scan_ok env" and "numeric2_ok env"
  shows "\<exists>ys. schedule env x ys \<and> all_ended (reached x ys)"
  using assms(1)
proof (induction "total_work x" arbitrary: x rule: less_induct)
  case less
  show ?case
  proof (cases "all_ended x")
    case True
    then have "schedule env x [] \<and> all_ended (reached x [])" by (simp add: reached_def)
    then show ?thesis by blast
  next
    case False
    obtain s ss where x: "x = (s, ss)" by fastforce
    from unfinished_can_go [of env s ss] less.prems not_all_ended [OF False]
    obtain y where "healthy_step env x y" by (auto simp: x)
    then have st: "step env x y" by (simp add: step_def)
    from less.hyps [OF step_work [OF st] step_conf_ok [OF st less.prems assms(2,3)]]
    obtain ys where "schedule env y ys" "all_ended (reached y ys)" by blast
    with st have "schedule env x (y # ys) \<and> all_ended (reached x (y # ys))"
      by (simp add: reached_def)
    then show ?thesis by blast
  qed
qed

lemma start_schedule:
  assumes "schedule env (s, start cs) ys" and "db_inv s" and "faults s = []"
    and "scan_ok env" and "numeric2_ok env"
  shows "conf_ok env (reached (s, start cs) ys)"
  using schedule_induct [where I = "\<lambda>_. True", OF assms(1) conf_ok_start [OF assms(2,3)] _ assms(4,5)]
  by simp

subsection \<open>The audit trail of interleaved commands\<close>

lemma trails_schedule:
  assumes "schedule env (migrated_db, start cs) ys" and "scan_ok env" and "numeric2_ok env"
    and "list_all (plain_id env) cs"
  shows "trails_ok (tables_of (fst (reached (migrated_db, start cs) ys)))"
proof -
  let ?I = "\<lambda>x. trails_ok (tables_of (fst x)) \<and> list_all (\<lambda>y. plain_id env (fst y)) (snd x)"
  have ok: "conf_ok env (migrated_db, start cs)"
    by (rule conf_ok_start [OF migrated_db_inv]) (simp add: migrated_db_def)
  have I: "?I (migrated_db, start cs)"
    using assms(4)
    by (simp add: trails_ok_def trail_def tables_of_def migrated_db_def start_def list_all_iff)
  have "?I y" if x: "conf_ok env x" "?I x" and st: "step env x y" for x y
  proof -
    obtain s ss s' ss' where xy: "x = (s, ss)" "y = (s', ss')" by fastforce
    have pl: "list_all (plain_id env) (map fst (snd y))"
      unfolding step_fst [OF st] using x(2) by (simp add: list_all_iff)
    have inv: "products_ok (tables_of s)" using x(1) by (simp add: xy conf_ok_def db_inv_def)
    have "trails_ok (tables_of s')"
      using conf_step_tables [OF st [unfolded xy] x(1) [unfolded xy] assms(2)]
    proof
      assume "tables_of s' = tables_of s"
      with x(2) show ?thesis by (simp add: xy)
    next
      assume "\<exists>n a. catalog_step (tables_of s) n a (tables_of s') \<and>
        (list_all (\<lambda>x. plain_id env (fst x)) ss \<longrightarrow> ar_target_id a = n)"
      with x(2) show ?thesis using trails_step [OF inv] by (auto simp: xy)
    qed
    with pl show ?thesis by (simp add: xy list_all_iff)
  qed
  from schedule_induct [where I = ?I, OF assms(1) ok I assms(2,3)] this show ?thesis by blast
qed

subsection \<open>Edits that carry the same version\<close>

text \<open>
  An edit that committed left its product at a later version, so edits that committed differ
  in product or version.
\<close>

definition won :: "dbenv \<Rightarrow> session list \<Rightarrow> nat \<Rightarrow> int \<Rightarrow> int \<Rightarrow> bool" where
  "won env ss k n v \<longleftrightarrow> k < length ss \<and> (\<exists>i. ss ! k = (Do_update i, Ended None) \<and>
     int4in env (ui_ID i) = Some n \<and> ui_ExpectedVersion i = v)"

definition winners_ok :: "dbenv \<Rightarrow> conf \<Rightarrow> bool" where
  "winners_ok env x \<longleftrightarrow>
     (\<forall>k n v. won env (snd x) k n v \<longrightarrow> version_floor n (v + 1) (tables_of (fst x))) \<and>
     (\<forall>j k n v. won env (snd x) j n v \<longrightarrow> won env (snd x) k n v \<longrightarrow> j = k)"

lemma pending_edit_versions:
  assumes "pending env s (Do_update i) tm p r' e" and "int4in env (ui_ID i) = Some n"
  shows "\<exists>r \<in> set (products s). pr_id r = n \<and> pr_version r = ui_ExpectedVersion i \<and>
    p = Some r \<and> pr_id r' = n \<and> pr_version r' = pr_version r + 1"
  using assms by cases (auto simp: update_row_def)

lemma winners_step:
  assumes st: "step env x y" and ok: "conf_ok env x" and win: "winners_ok env x" and scan: "scan_ok env"
  shows "winners_ok env y"
proof -
  obtain s ss s' ss' where xy: "x = (s, ss)" "y = (s', ss')" by fastforce
  from st obtain k c ph ph' where k: "k < length ss" "ss ! k = (c, ph)" and ss': "ss' = ss[k := (c, ph')]"
    and st': "session_step env (others k ss) c s ph s' ph' \<or> session_fault env (others k ss) c s ph s' ph'"
    unfolding xy by (rule step_elim)
  have inv: "db_inv s" and sok: "session_ok env s (c, ph)"
    using ok k by (auto simp: xy conf_ok_def dest: nth_mem)
  have pok: "products_ok (tables_of s)" using inv by (simp add: db_inv_def)
  have floor: "version_floor n v (tables_of s')" if "version_floor n v (tables_of s)" for n v
    using conf_step_tables [OF st [unfolded xy] ok [unfolded xy] scan] that floor_step [OF pok that]
    by auto
  have old: "won env ss j n v" if "won env ss' j n v" "j \<noteq> k" for j n v
    using that by (simp add: won_def ss')
  have floors: "version_floor n (v + 1) (tables_of s)" if "won env ss j n v" for j n v
    using win that by (auto simp: winners_ok_def xy)
  have new: "(\<forall>j. \<not> won env ss j n v) \<and> version_floor n (v + 1) (tables_of s')"
    if w: "won env ss' k n v" for n v
  proof -
    from w k obtain i where c: "c = Do_update i" "ph' = Ended None"
      and i: "int4in env (ui_ID i) = Some n" "ui_ExpectedVersion i = v"
      by (auto simp: won_def ss')
    from st' c obtain tm p r' a where lg: "ph = Logged tm p r' a" and s': "s' = publish_write p r' a s"
      by (auto simp: is_category_cmd_def elim: session_step.cases session_fault.cases)
    from sok lg c obtain e where p: "pending env s (Do_update i) tm p r' e" by auto
    from pending_edit_versions [OF this i(1)] obtain r where r: "r \<in> set (products s)" "pr_id r = n"
      "pr_version r = v" "p = Some r" "pr_id r' = n" "pr_version r' = v + 1"
      using i(2) by auto
    have "\<not> won env ss j n v" for j
    proof
      assume "won env ss j n v"
      from floors [OF this] obtain z where "z \<in> set (products s)" "pr_id z = n" "v + 1 \<le> pr_version z"
        by (auto simp: version_floor_def tables_of_def)
      with rows_id_inj [OF pok _ r(1), of z] r show False by simp
    qed
    moreover have "r' \<in> set (products s')"
      unfolding s' publish_write_def using install_cases [OF p, of r'] by simp
    then have "version_floor n (v + 1) (tables_of s')"
      using r by (auto simp: version_floor_def tables_of_def)
    ultimately show ?thesis by blast
  qed
  have "version_floor n (v + 1) (tables_of s')" if "won env ss' j n v" for j n v
    using that new floor [OF floors [OF old]] by (cases "j = k") auto
  moreover have "i = j" if "won env ss' i n v" "won env ss' j n v" for i j n v
  proof (cases "i = k"; cases "j = k")
    assume "i \<noteq> k" "j \<noteq> k"
    with that old have "won env ss i n v" "won env ss j n v" by blast+
    then show ?thesis using win unfolding winners_ok_def xy snd_conv by blast
  qed (use that old new in blast)+
  ultimately show ?thesis by (simp add: winners_ok_def xy)
qed


subsection \<open>Properties\<close>



text \<open>
  C9. Of all the edits that carry the same version of the same product and run at the same
  time, at most one is answered with success, whatever else interleaves with them.
\<close>

theorem one_edit_wins:
  assumes "scan_ok env" and "numeric2_ok env" and "db_inv s" and "faults s = []"
    and "schedule env (s, start cs) ys" and "ss = snd (reached (s, start cs) ys)"
  shows "card {k. k < length ss \<and> (\<exists>i. ss ! k = (Do_update i, Ended None) \<and>
     int4in env (ui_ID i) = Some n \<and> ui_ExpectedVersion i = v)} \<le> 1"
proof -
  have "winners_ok env (s, start cs)" by (auto simp: winners_ok_def won_def start_def)
  from schedule_induct [where I = "winners_ok env", OF assms(5) conf_ok_start [OF assms(3,4)] this assms(1,2)]
  have "winners_ok env (reached (s, start cs) ys)" using winners_step assms(1) by blast
  then have one: "j = k" if "won env ss j n v" "won env ss k n v" for j k
    using that unfolding winners_ok_def assms(6) by blast
  have "{k. won env ss k n v} \<subseteq> {..<length ss}" by (auto simp: won_def)
  then have "finite {k. won env ss k n v}" by (rule finite_subset) simp
  then have "card {k. won env ss k n v} \<le> 1" using one by (simp add: card_le_Suc0_iff_eq)
  then show ?thesis unfolding won_def .
qed

subsection \<open>The properties at concrete inputs\<close>

lemma step_healthy:
  assumes "k < length ss" and "ss ! k = (c, ph)" and "session_step env (others k ss) c s ph s' ph'"
    and "ss' = ss[k := (c, ph')]"
  shows "step env (s, ss) (s', ss')"
  using healthy [OF assms(1-3)] assms(4) by (simp add: step_def)


theorem one_edit_wins_witness:
  "\<exists>ys. schedule std_env (sample_db, start [Do_update sample_edit, Do_update sample_edit]) ys \<and>
     all_ended (reached (sample_db, start [Do_update sample_edit, Do_update sample_edit]) ys) \<and>
     card {k. k < length (snd (reached (sample_db, start [Do_update sample_edit, Do_update sample_edit]) ys)) \<and>
       (\<exists>i. snd (reached (sample_db, start [Do_update sample_edit, Do_update sample_edit]) ys) ! k =
          (Do_update i, Ended None) \<and> int4in std_env (ui_ID i) = Some 1 \<and> ui_ExpectedVersion i = 2)} \<le> 1"
proof -
  let ?x = "(sample_db, start [Do_update sample_edit, Do_update sample_edit])"
  have "conf_ok std_env ?x" by (rule conf_ok_start [OF sample_db_inv]) simp
  from complete_schedule [OF this] obtain ys where ys: "schedule std_env ?x ys" "all_ended (reached ?x ys)"
    by auto
  with one_edit_wins [OF std_scan_ok std_numeric2_ok sample_db_inv _ ys(1) refl] show ?thesis by auto
qed

text \<open>One product created by a schedule of five steps.\<close>

lemma create_schedule:
  "\<exists>ys r. schedule std_env (migrated_db, start [Do_create sample_create]) ys \<and>
     r \<in> set (t_products (tables_of (fst (reached (migrated_db, start [Do_create sample_create]) ys))))"
proof -
  let ?c = "Do_create sample_create"
  have c0: "clock migrated_db = 0" "next_pid migrated_db = 1" "next_aid migrated_db = 1"
    and f0: "faults migrated_db = []" by (simp_all add: migrated_db_def)
  let ?row = "product_row 1 ''Mouse'' [] 100 None StatusDraft 0"
  let ?e = "create_audit sample_create 1"
  let ?s = "migrated_db\<lparr>next_pid := 2\<rparr>"
  let ?a = "audit_of ?e 1 0"
  have same: "migrated_db\<lparr>clock := 0\<rparr> = migrated_db" by (simp add: migrated_db_def)
  have 1: "step std_env (migrated_db, start [?c]) (migrated_db, [(?c, Open 0)])"
    by (rule step_healthy [where k = 0])
       (use begin_tx [of ?c migrated_db 0] c0 same in \<open>simp_all add: start_def is_category_cmd_def\<close>)
  have conv: "convert_params std_env (ci_Name sample_create) (ci_Price sample_create) = Inr 100"
    by (simp add: sample_create_def convert_params_def rune_count_def)
  have 2: "step std_env (migrated_db, [(?c, Open 0)]) (?s, [(?c, Drawn 0 1)])"
    by (rule step_healthy [where k = 0])
       (use draw_id [OF refl conv, of migrated_db "[]" 0] c0 in \<open>simp_all add: others_def is_int4_def\<close>)
  have ins: "insert_new std_env sample_create (?s\<lparr>clock := 0, next_pid := 1\<rparr>) =
      (Inr 1, migrated_db\<lparr>next_pid := 2, products := [?row]\<rparr>)"
    using conv by (simp add: insert_new_def insert_product_def Let_def is_int4_def
        sample_create_def migrated_db_def category_id_of_def reference_category_def)
  have 3: "step std_env (?s, [(?c, Drawn 0 1)]) (?s, [(?c, Written 0 None ?row ?e)])"
    by (rule step_healthy [where k = 0])
       (use insert_row [OF refl ins, of "[]"] in \<open>simp_all add: others_def name_free_def\<close>)
  let ?t = "?s\<lparr>clock := 0, next_aid := 2, audits := [?a]\<rparr>"
  have ins2: "insertAudit ?e (?s\<lparr>clock := 0\<rparr>) = (Inr (), ?t)"
    using insertAudit_run [of "?s\<lparr>clock := 0\<rparr>" ?e] f0
    by (simp add: create_audit_def is_int4_def audit_fits_def rune_count_def sample_create_def
        migrated_db_def)
  let ?u = "?s\<lparr>next_aid := 2\<rparr>"
  have 4: "step std_env (?s, [(?c, Written 0 None ?row ?e)]) (?u, [(?c, Logged 0 None ?row ?a)])"
    by (rule step_healthy [where k = 0])
       (use log_entry [OF ins2, of std_env "[]" ?c None ?row] in \<open>simp_all add: others_def\<close>)
  let ?v = "publish_write None ?row ?a ?u"
  have 5: "step std_env (?u, [(?c, Logged 0 None ?row ?a)]) (?v, [(?c, Ended None)])"
    by (rule step_healthy [where k = 0, OF _ _ commit]) simp_all
  let ?ys = "[(migrated_db, [(?c, Open 0)]), (?s, [(?c, Drawn 0 1)]), (?s, [(?c, Written 0 None ?row ?e)]),
     (?u, [(?c, Logged 0 None ?row ?a)]), (?v, [(?c, Ended None)])]"
  have "schedule std_env (migrated_db, start [?c]) ?ys" using 1 2 3 4 5 by simp
  moreover have "?row \<in> set (t_products (tables_of (fst (reached (migrated_db, start [?c]) ?ys))))"
    by (simp add: reached_def tables_of_def publish_write_def install_def)
  ultimately show ?thesis by blast
qed


end
