(* ===== verification/Serial_Order.thy ===== *)
theory Serial_Order
  imports Row_Locks_Spec
begin

section \<open>Interleaved commands have a serial order\<close>

text \<open>
  The simulation of the interleaved writers by the transactions of \<open>Admin_Repo\<close> run one
  after the other: a turn is a command together with the time and the sequence values its
  transaction drew, and \<open>replay\<close> runs turns in order with \<open>run_cmd\<close>. Commands on categories
  are excluded: an edit reads its category without locking it, and the last property shows
  what a rename between that read and the write does.
\<close>

subsection \<open>Turns\<close>

record turn =
  tn_session :: nat
  tn_cmd :: admin_cmd
  tn_time :: int
  tn_pid :: int
  tn_aid :: int
  tn_out :: "err option"

definition at_turn :: "int \<Rightarrow> int \<Rightarrow> int \<Rightarrow> db \<Rightarrow> db" where
  "at_turn tm pid aid s = s\<lparr>clock := tm, next_pid := pid, next_aid := aid\<rparr>"

fun replay :: "dbenv \<Rightarrow> turn list \<Rightarrow> db \<Rightarrow> db option" where
  "replay env [] s = Some s"
| "replay env (w # ws) s =
     (case run_cmd env (tn_cmd w) (at_turn (tn_time w) (tn_pid w) (tn_aid w) s) of
        (out, t) \<Rightarrow> if out = tn_out w then replay env ws t else None)"

text \<open>
  Turns account for a configuration: run in order they give its tables, they are turns of
  different sessions that ended as their turn says (or only lost the answer), and every
  session that was answered has its turn.
\<close>

definition accounts :: "dbenv \<Rightarrow> db \<Rightarrow> turn list \<Rightarrow> conf \<Rightarrow> bool" where
  "accounts env s0 ws x \<longleftrightarrow>
     (\<exists>t. replay env ws s0 = Some t \<and> tables_of t = tables_of (fst x)) \<and>
     distinct (map tn_session ws) \<and>
     (\<forall>w \<in> set ws. tn_session w < length (snd x) \<and>
        (snd x ! tn_session w = (tn_cmd w, Ended (tn_out w)) \<or>
         (tn_out w = None \<and> snd x ! tn_session w = (tn_cmd w, Ended (Some DriverErr))))) \<and>
     (\<forall>k < length (snd x). \<forall>out. snd (snd x ! k) = Ended out \<longrightarrow>
        (\<exists>w \<in> set ws. tn_session w = k \<and> tn_out w = out) \<or>
        (\<exists>e. out = Some e \<and> errors_Is e DriverErr))"

subsection \<open>What a session read is still what it would read\<close>

fun category_of :: "admin_cmd \<Rightarrow> string option" where
  "category_of (Do_create i) = Some (ci_Category i)"
| "category_of (Do_update i) = Some (ui_Category i)"
| "category_of _ = None"

definition exact_write :: "db \<Rightarrow> admin_cmd \<Rightarrow> prow option \<Rightarrow> prow \<Rightarrow> AuditEntry \<Rightarrow> bool" where
  "exact_write s c p r' e \<longleftrightarrow> (\<forall>r. p = Some r \<longrightarrow> e = entry c (admin_product s r)) \<and>
     (\<forall>x. category_of c = Some x \<longrightarrow> pr_category_id r' = category_id_of s x)"

fun exact :: "db \<Rightarrow> session \<Rightarrow> bool" where
  "exact s (c, Holding tm r b) = (b = admin_product s r)"
| "exact s (c, Written tm p r' e) = exact_write s c p r' e"
| "exact s (c, Logged tm p r' a) = (\<exists>e. a = audit_of e (ar_id a) tm \<and> exact_write s c p r' e)"
| "exact s (c, ph) = True"

lemma same_categories:
  assumes "categories s = categories t"
  shows "admin_product s = admin_product t" and "category_id_of s = category_id_of t"
  using assms admin_product_cong by (blast, simp add: fun_eq_iff category_id_of_def)

lemma exact_cong:
  assumes "categories s = categories t"
  shows "exact s x = exact t x"
  using same_categories [OF assms]
  by (cases "(s, x)" rule: exact.cases) (simp_all add: exact_write_def)

lemma step_categories:
  assumes "session_step env os c s ph s' ph' \<or> session_fault env os c s ph s' ph'"
    and "\<not> is_category_cmd c"
  shows "categories s' = categories s"
  using assms(1)
proof
  assume "session_step env os c s ph s' ph'"
  then show ?thesis by cases (use assms(2) in \<open>simp_all add: publish_write_def\<close>)
next
  assume "session_fault env os c s ph s' ph'"
  then show ?thesis by cases (use assms(2) in \<open>simp_all add: publish_write_def\<close>)
qed

lemma exact_step:
  assumes st: "session_step env os c s ph s' ph'" and inv: "db_inv s" and f: "faults s = []"
    and ok: "session_ok env s (c, ph)" and ex: "exact s (c, ph)" and cat: "\<not> is_category_cmd c"
  shows "exact s' (c, ph')"
proof -
  have "exact s (c, ph')"
    using st
  proof cases
    case (write_done b tm k t r r')
    from write_done ok have h: "session_ok env s (c, Holding tm r b)" by simp
    from write_row_pending [OF h inv write_done(4)] obtain r1 where
      p: "pending env s c tm (Some r) r1 (entry c b)" and rows: "products t = replace_row r1 (products s)"
      and k: "\<forall>i. c = Do_update i \<longrightarrow> pr_category_id r1 = category_id_of s (ui_Category i)"
      by metis
    from pending_ids [OF p] have "r \<in> set (products s)" "pr_id r1 = pr_id r" by auto
    with rows write_done find_replace_row have r1: "r1 = r'" by fastforce
    have "subject c \<noteq> None" using h by auto
    then have "\<forall>x. category_of c = Some x \<longrightarrow> pr_category_id r' = category_id_of s x"
      using k r1 by (cases c) auto
    with write_done ex show ?thesis by (simp add: exact_write_def)
  next
    case (insert_row i pid tm n t)
    from insert_row ok have "session_ok env s (Do_create i, Drawn tm pid)" by simp
    from insert_row_pending [OF _ this] insert_row show ?thesis by (auto simp: exact_write_def)
  next
    case (log_entry e tm t p r')
    from insertAudit_fits [OF log_entry(4)] f have "audits t = audits s @ [audit_of e (next_aid s) tm]"
      by simp
    then have "last (audits t) = audit_of e (next_aid s) tm" by simp
    with log_entry ex show ?thesis by auto
  qed (use ex in simp_all)
  then show ?thesis using exact_cong step_categories st cat by blast
qed

subsection \<open>Running a stage later gives the same\<close>

lemma for_update_cong:
  "products s = products t \<Longrightarrow> faults s = [] \<Longrightarrow> faults t = [] \<Longrightarrow>
     for_update env ident s = for_update env ident t"
  by (simp add: for_update_def select_product_def)

lemma for_update_run:
  assumes "products_ok (tables_of u)" and "scan_ok env" and "faults u = []"
    and "int4in env ident = Some (pr_id r)" and "r \<in> set (products u)"
  shows "for_update env ident u = Inr r"
  using select_product_run [OF rows_distinct_ids [OF assms(1)] assms(2-5), of "\<lambda>_. Inr"]
  by (simp add: for_update_def)

lemma update_stmt_err:
  assumes "update_stmt env i s = (Inl e, t)" and "products u = products s"
    and "categories u = categories s" and "clock u = clock s"
  shows "update_stmt env i u = (Inl e, u)"
proof -
  have "category_id_of u = category_id_of s" using assms by (simp add: category_id_of_def fun_eq_iff)
  with assms show ?thesis
    by (auto simp: update_stmt_def update_products_def Let_def split: sum.splits option.splits if_splits)
qed

lemma transition_stmt_err:
  assumes "transition_stmt env ident nxt s = (Inl e, t)" and "products u = products s" and "clock u = clock s"
  shows "transition_stmt env ident nxt u = (Inl e, u)"
  using assms
  by (auto simp: transition_stmt_def update_products_def Let_def split: option.splits if_splits)

lemma write_row_err:
  assumes "write_row env c b s = (Inl e, t)" and "tables_of u = tables_of s" and "clock u = clock s"
  shows "write_row env c b u = (Inl e, u)"
  using assms update_stmt_err transition_stmt_err
  by (cases c) (auto simp: tables_of_eq_iff give_def)

lemma insert_new_err:
  assumes "insert_new env i s = (Inl e, t)" and "products u = products s" and "next_pid u = next_pid s"
  shows "\<exists>v. insert_new env i u = (Inl e, v)"
  using assms by (auto simp: insert_new_def insert_product_def Let_def split: sum.splits if_splits)

lemma insertAudit_err:
  assumes "insertAudit e s = (Inl x, t)" and "faults s = []" and "faults u = []"
  shows "\<exists>v. insertAudit e u = (Inl x, v)"
  using assms by (auto simp: insertAudit_def on_err_def insert_audit_row_def Let_def split: if_splits)

lemma write_row_run:
  assumes p: "pending env s c tm (Some r) r' e0" and ex: "exact_write s c (Some r) r' e"
    and tab: "tables_of u = tables_of s" and tm: "clock u = tm" and ok: "products_ok (tables_of u)"
  shows "write_row env c (admin_product u r) u = (Inr 1, u\<lparr>products := replace_row r' (products u)\<rparr>) \<and>
    verdict c (admin_product u r) = None \<and> entry c (admin_product u r) = e \<and> \<not> unmatched c 1 \<and>
    (\<exists>ident. subject c = Some ident \<and> int4in env ident = Some (pr_id r))"
proof -
  have same: "products u = products s" "categories u = categories s"
    using tab by (simp_all add: tables_of_eq_iff)
  have ap: "admin_product u = admin_product s" "category_id_of u = category_id_of s"
    using same_categories [OF same(2)] by simp_all
  have e: "entry c (admin_product u r) = e" using ex ap by (simp add: exact_write_def)
  from p show ?thesis
  proof cases
    case (pending_edit i b cents k)
    have "k = category_id_of u (ui_Category i)"
      using ex pending_edit ap by (simp add: exact_write_def update_row_def)
    with update_stmt_run [OF ok _ pending_edit(5,7,6,9,10)] pending_edit same tm e
    show ?thesis by simp
  next
    case (pending_move i nxt)
    have "move_target i (admin_product u r) = nxt" using pending_move by (simp add: move_target_def)
    with transition_stmt_run [OF ok _ pending_move(5,7), of nxt] pending_move same tm e
    show ?thesis by simp
  qed
qed

lemma finish_tx_run:
  assumes "faults u1 = []" and "is_int4 (TargetID e)" and "audit_fits e"
    and "TargetType e = ''product''" and "scan_ok env" and "distinct (map pr_id (products u1))"
    and "x \<in> set (products u1)" and "int4in env ident = Some (pr_id x)"
  shows "finish_tx env ident e u u1 = (None, u1\<lparr>next_aid := next_aid u1 + 1,
     audits := audits u1 @ [audit_of e (next_aid u1) (clock u1)]\<rparr>)"
proof -
  let ?u2 = "u1\<lparr>next_aid := next_aid u1 + 1, audits := audits u1 @ [audit_of e (next_aid u1) (clock u1)]\<rparr>"
  have "insertAudit e u1 = (Inr (), ?u2)" using assms by (intro insertAudit_run) simp_all
  moreover have "for_update env ident ?u2 = Inr x"
    using assms select_product_run [of ?u2 env ident x "\<lambda>_. Inr"] by (simp add: for_update_def)
  ultimately show ?thesis by (simp add: finish_tx_def)
qed

lemma audit_of_fits:
  "audit_of e i tm = audit_of e' i' tm' \<Longrightarrow>
     TargetID e = TargetID e' \<and> TargetType e = TargetType e' \<and> audit_fits e = audit_fits e'"
  by (auto simp: audit_of_def audit_row_def audit_fits_def nullif_empty_def split: if_splits)

subsection \<open>Every answer is the answer of a turn\<close>

lemma at_turn_sel [simp]:
  "products (at_turn tm pid aid s) = products s" "categories (at_turn tm pid aid s) = categories s"
  "audits (at_turn tm pid aid s) = audits s" "faults (at_turn tm pid aid s) = faults s"
  "clock (at_turn tm pid aid s) = tm" "next_pid (at_turn tm pid aid s) = pid"
  "next_aid (at_turn tm pid aid s) = aid" "tables_of (at_turn tm pid aid s) = tables_of s"
  by (simp_all add: at_turn_def tables_of_def)

lemma finish_tx_faults: "faults u1 = [] \<Longrightarrow> faults (snd (finish_tx env ident e u u1)) = []"
  by (auto simp: finish_tx_def rollback_def split: prod.splits sum.splits dest: insertAudit_no_faults)

lemma run_cmd_faults:
  assumes "faults u = []" and "\<not> is_category_cmd c"
  shows "faults (snd (run_cmd env c u)) = []"
proof (cases "subject c")
  case None
  with assms(2) obtain i where c: "c = Do_create i" by (cases c) (auto simp: is_category_cmd_def)
  obtain x u1 where ins: "insert_new env i u = (x, u1)" by fastforce
  then have "faults u1 = []" using faults_insert_new [of env i u] assms(1) by simp
  with ins finish_tx_faults show ?thesis
    by (cases x) (simp_all add: c staged_create_run [OF assms(1)] staged_create_def rollback_def
        del: run_cmd.simps)
next
  case (Some ident)
  let ?b = "\<lambda>r. admin_product u r"
  have "faults (snd (case write_row env c b u of (Inl e, u1) \<Rightarrow> (Some (write_err c e), rollback u u1)
       | (Inr k, u1) \<Rightarrow> if unmatched c k then (Some ErrVersionConflict, rollback u u1)
           else finish_tx env ident (entry c b) u u1)) = []" for b
  proof -
    obtain x u1 where w: "write_row env c b u = (x, u1)" by fastforce
    then have "faults u1 = []" using faults_write_row [of env c b u] assms(1) by simp
    with w finish_tx_faults show ?thesis by (cases x) (simp_all add: rollback_def)
  qed
  with assms(1) show ?thesis
    by (simp add: staged_run [OF assms(1) Some] staged_def Let_def split: sum.split option.split
        del: run_cmd.simps)
qed

lemma insert_new_run:
  assumes p: "pending env s c tm None r' e" and ex: "exact_write s c None r' e0"
    and tab: "tables_of u = tables_of s" and inv: "db_inv s"
    and u: "clock u = tm" "next_pid u = pr_id r'"
  obtains i where "c = Do_create i" "e = create_audit i (pr_id r')" "is_int4 (pr_id r')"
    "distinct (map pr_id (products u @ [r']))"
    "insert_new env i u = (Inr (pr_id r'), u\<lparr>next_pid := pr_id r' + 1, products := products u @ [r']\<rparr>)"
  using p
proof cases
  case (pending_create i cents pid k)
  have same: "products u = products s" "categories u = categories s"
    using tab by (simp_all add: tables_of_eq_iff)
  have sel: "pr_id r' = pid" using pending_create by simp
  have "k = category_id_of s (ci_Category i)"
    using ex pending_create by (simp add: exact_write_def)
  then have k: "category_id_of u (ci_Category i) = k"
    using same_categories(2) [of u s] same by simp
  have new: "ci_Name i \<notin> pr_name ` set (products s)" "pid \<notin> pr_id ` set (products s)"
    using pending_create(9,11) by (metis imageE)+
  have "insert_new env i u = (Inr pid, u\<lparr>next_pid := pid + 1, products := products u @ [r']\<rparr>)"
    using pending_create k new same sel u by (simp add: insert_new_def insert_product_def Let_def)
  moreover have "distinct (map pr_id (products u @ [r']))"
    using new db_inv_distinct_ids [OF inv] same sel by simp
  ultimately show ?thesis using that [of i] pending_create sel by simp
qed

lemma commit_run:
  assumes ok: "session_ok env s (c, Logged tm p r' a)" and ex: "exact s (c, Logged tm p r' a)"
    and inv: "db_inv s" and tab: "tables_of u = tables_of s" and f: "faults u = []"
    and scan: "scan_ok env" and i4: "int4in_ok env" and num: "numeric2_ok env"
  shows "\<exists>v. run_cmd env c (at_turn tm (pr_id r') (ar_id a) u) = (None, v) \<and>
    tables_of v = tables_of (publish_write p r' a s)"
proof -
  from ok obtain e0 aid where p: "pending env s c tm p r' e0" and a0: "a = audit_of e0 aid tm"
    and e0: "is_int4 (TargetID e0)" "audit_fits e0" by auto
  from ex obtain e where a: "a = audit_of e (ar_id a) tm" and ex: "exact_write s c p r' e" by auto
  have ty: "TargetType e0 = ''product''" using pending_catalog_step [OF p inv refl] by blast
  have fit: "is_int4 (TargetID e)" "audit_fits e" "TargetType e = ''product''"
    using audit_of_fits [of e0 aid tm e "ar_id a" tm] a a0 e0 ty by metis+
  have pe: "pending env s c tm p r' e0" by (rule p)
  let ?u = "at_turn tm (pr_id r') (ar_id a) u"
  have fu: "faults ?u = []" using f by simp
  have pok: "products_ok (tables_of ?u)" using inv tab by (simp add: db_inv_def)
  have same: "products u = products s" "categories u = categories s" "audits u = audits s"
    using tab by (simp_all add: tables_of_eq_iff)
  show ?thesis
  proof (cases p)
    case None
    from insert_new_run [OF p [unfolded None] ex [unfolded None] _ inv, of ?u] tab obtain i where
      c: "c = Do_create i" "e0 = create_audit i (pr_id r')" "is_int4 (pr_id r')"
      and d: "distinct (map pr_id (products ?u @ [r']))"
      and ins: "insert_new env i ?u =
        (Inr (pr_id r'), ?u\<lparr>next_pid := pr_id r' + 1, products := products ?u @ [r']\<rparr>)"
      by auto
    let ?u1 = "?u\<lparr>next_pid := pr_id r' + 1, products := products ?u @ [r']\<rparr>"
    have "finish_tx env (Itoa (pr_id r')) e0 ?u ?u1 =
        (None, ?u1\<lparr>next_aid := aid + 1, audits := audits u @ [a]\<rparr>)"
      using finish_tx_run [OF _ e0 ty scan, of ?u1 r' "Itoa (pr_id r')" ?u] fu d
        int4in_Itoa [OF i4 c(3)] a0 by simp
    then have "run_cmd env c ?u = (None, ?u1\<lparr>next_aid := aid + 1, audits := audits u @ [a]\<rparr>)"
      using ins c by (simp add: staged_create_run [OF fu] staged_create_def del: run_cmd.simps)
    then show ?thesis
      using same None by (simp add: tables_of_eq_iff publish_write_def install_def)
  next
    case (Some r)
    from pending_ids [OF p] Some have r: "r \<in> set (products s)" "pr_id r' = pr_id r" by auto
    from write_row_run [OF p [unfolded Some] ex [unfolded Some] _ _ pok] tab obtain ident where
      w: "write_row env c (admin_product ?u r) ?u = (Inr 1, ?u\<lparr>products := replace_row r' (products ?u)\<rparr>)"
      and v: "verdict c (admin_product ?u r) = None" "entry c (admin_product ?u r) = e" "\<not> unmatched c 1"
      and id: "subject c = Some ident" "int4in env ident = Some (pr_id r)"
      by auto
    let ?u1 = "?u\<lparr>products := replace_row r' (products ?u)\<rparr>"
    have "for_update env ident ?u = Inr r"
      using for_update_run [OF pok scan fu id(2)] r same by simp
    moreover have "r' \<in> set (products ?u1)"
      using r same by (auto simp: replace_row_def image_iff)
    then have "finish_tx env ident e ?u ?u1 =
        (None, ?u1\<lparr>next_aid := ar_id a + 1, audits := audits u @ [a]\<rparr>)"
      using finish_tx_run [OF _ fit scan _ _, of ?u1 r' ident ?u] fu id r
        rows_distinct_ids [OF pok] a by simp
    ultimately have "run_cmd env c ?u = (None, ?u1\<lparr>next_aid := ar_id a + 1, audits := audits u @ [a]\<rparr>)"
      using w v by (simp add: staged_run [OF fu id(1)] staged_def Let_def)
    then show ?thesis
      using same Some by (simp add: tables_of_eq_iff publish_write_def install_def)
  qed
qed

lemma refusal_run:
  assumes st: "session_step env os c s ph s' (Ended (Some err))" and cat: "\<not> is_category_cmd c"
    and ok: "session_ok env s (c, ph)" and ex: "exact s (c, ph)" and inv: "db_inv s" and fs: "faults s = []"
    and tab: "tables_of u = tables_of s" and f: "faults u = []" and scan: "scan_ok env"
  shows "tables_of s' = tables_of s \<and> (\<exists>tm pid aid v. run_cmd env c (at_turn tm pid aid u) = (Some err, v) \<and>
    tables_of v = tables_of s)"
proof -
  have same: "products u = products s" "categories u = categories s" "audits u = audits s"
    using tab by (simp_all add: tables_of_eq_iff)
  have fu: "faults (at_turn tm pid aid u) = []" for tm pid aid using f by simp
  have pok: "products_ok (tables_of (at_turn tm pid aid u))" for tm pid aid
    using inv tab by (simp add: db_inv_def)
  have ap: "admin_product (at_turn tm pid aid u) = admin_product s" for tm pid aid
    by (rule same_categories(1)) (simp add: same)
  have fup: "for_update env ident (at_turn tm pid aid u) = for_update env ident s" for ident tm pid aid
    by (rule for_update_cong) (simp_all add: same f fs)
  from st show ?thesis
  proof cases
    case (refuse ident r tm)
    have "run_cmd env c (at_turn tm 0 0 u) = (Some err, at_turn tm 0 0 u)"
      using refuse by (simp add: staged_run [OF fu] staged_def Let_def fup ap)
    with refuse tab show ?thesis by (auto intro!: exI)
  next
    case (read_failed ident e tm)
    have "run_cmd env c (at_turn tm 0 0 u) = (Some err, at_turn tm 0 0 u)"
      using read_failed by (simp add: staged_run [OF fu] staged_def fup)
    with read_failed tab show ?thesis by (auto intro!: exI)
  next
    case (write_missed b tm k t r)
    from write_missed ok have "session_ok env s (c, Holding tm r b)" by simp
    from write_row_pending [OF this inv write_missed(4)] write_missed(5) show ?thesis by metis
  next
    case (write_failed b tm e t r)
    let ?u = "at_turn tm 0 0 u"
    from ok write_failed obtain ident where r: "r \<in> set (products s)" and id: "subject c = Some ident"
      "int4in env ident = Some (pr_id r)" and v: "verdict c b = None" by auto
    have "write_row env c b ?u = (Inl e, ?u)"
      using write_row_err [OF write_failed(4), of ?u] tab by (simp add: tables_of_eq_iff)
    moreover have "for_update env ident ?u = Inr r"
      using for_update_run [OF pok scan fu id(2)] r same by simp
    moreover have "admin_product ?u r = b" using ex write_failed ap by simp
    ultimately have "run_cmd env c ?u = (Some err, rollback ?u ?u)"
      using v write_failed by (simp add: staged_run [OF fu id(1)] staged_def Let_def)
    with write_failed tab show ?thesis by (auto intro!: exI)
  next
    case (draw_failed i tm e t)
    let ?u = "at_turn tm (next_pid s) 0 u"
    from insert_new_err [OF draw_failed(5), of ?u] same obtain v where "insert_new env i ?u = (Inl e, v)"
      by auto
    then have "run_cmd env c ?u = (Some err, rollback ?u v)"
      using draw_failed by (simp add: staged_create_run [OF fu] staged_create_def del: run_cmd.simps)
    with draw_failed tab show ?thesis by (auto intro!: exI)
  next
    case (insert_failed i pid tm e t)
    let ?u = "at_turn tm pid 0 u"
    from insert_new_err [OF insert_failed(5), of ?u] same obtain v where "insert_new env i ?u = (Inl e, v)"
      by auto
    then have "run_cmd env c ?u = (Some err, rollback ?u v)"
      using insert_failed by (simp add: staged_create_run [OF fu] staged_create_def del: run_cmd.simps)
    with insert_failed tab show ?thesis by (auto intro!: exI)
  next
    case (log_failed e tm t p r')
    let ?u = "at_turn tm (pr_id r') 0 u"
    from ok ex log_failed have p: "pending env s c tm p r' e" and ex': "exact_write s c p r' e"
      by simp_all
    have tu: "tables_of ?u = tables_of s" using tab by simp
    have fail: "\<exists>v. insertAudit e w = (Inl err, v)" if "faults w = []" for w
      using insertAudit_err [OF log_failed(3) _ that] fs by simp
    have "\<exists>v. run_cmd env c ?u = (Some err, rollback ?u v)"
    proof (cases p)
      case None
      from insert_new_run [OF p [unfolded None] ex' [unfolded None] tu inv] obtain i where
        c: "c = Do_create i" "e = create_audit i (pr_id r')"
        and ins: "insert_new env i ?u =
          (Inr (pr_id r'), ?u\<lparr>next_pid := pr_id r' + 1, products := products ?u @ [r']\<rparr>)"
        by auto
      from fail [of "?u\<lparr>next_pid := pr_id r' + 1, products := products ?u @ [r']\<rparr>"] fu
      show ?thesis
        using ins c by (auto simp: staged_create_run [OF fu] staged_create_def finish_tx_def
            simp del: run_cmd.simps)
    next
      case (Some r)
      from pending_ids [OF p] Some have r: "r \<in> set (products s)" by auto
      from write_row_run [OF p [unfolded Some] ex' [unfolded Some] tu _ pok] obtain ident where
        w: "write_row env c (admin_product ?u r) ?u = (Inr 1, ?u\<lparr>products := replace_row r' (products ?u)\<rparr>)"
        and v: "verdict c (admin_product ?u r) = None" "entry c (admin_product ?u r) = e" "\<not> unmatched c 1"
        and id: "subject c = Some ident" "int4in env ident = Some (pr_id r)"
        by auto
      have "for_update env ident ?u = Inr r"
        using for_update_run [OF pok scan fu id(2)] r same by simp
      with fail [of "?u\<lparr>products := replace_row r' (products ?u)\<rparr>"] fu w v
      show ?thesis by (auto simp: staged_run [OF fu id(1)] staged_def Let_def finish_tx_def)
    qed
    then obtain v where "run_cmd env c ?u = (Some err, rollback ?u v)" by blast
    moreover have "tables_of (rollback ?u v) = tables_of s" using tab by simp
    moreover have "tables_of s' = tables_of s" by (simp add: log_failed tables_of_def)
    ultimately show ?thesis by blast
  next
    case (category_cmd tm)
    with cat show ?thesis by simp
  qed
qed

lemma replay_append:
  "replay env (ws @ [w]) s = (case replay env ws s of None \<Rightarrow> None | Some t \<Rightarrow> replay env [w] t)"
  by (induction ws arbitrary: s) (auto split: prod.split)

lemma replay_faults:
  assumes "replay env ws s = Some t" and "faults s = []"
    and "\<forall>w \<in> set ws. \<not> is_category_cmd (tn_cmd w)"
  shows "faults t = []"
  using assms
proof (induction ws arbitrary: s)
  case (Cons w ws)
  let ?s = "at_turn (tn_time w) (tn_pid w) (tn_aid w) s"
  obtain out v where run: "run_cmd env (tn_cmd w) ?s = (out, v)" by fastforce
  then have "replay env ws v = Some t" using Cons.prems(1) by (auto split: if_splits)
  moreover have "faults v = []"
    using run_cmd_faults [of ?s "tn_cmd w" env] Cons.prems run by simp
  ultimately show ?case using Cons by simp
qed simp

lemma accountsD:
  assumes "accounts env s0 ws (s, ss)" and "w \<in> set ws"
  shows "tn_session w < length ss \<and> fst (ss ! tn_session w) = tn_cmd w \<and>
    (\<exists>out. snd (ss ! tn_session w) = Ended out)"
  using assms unfolding accounts_def by (metis fst_conv snd_conv)

lemma accounts_other:
  assumes "accounts env s0 ws (s, ss)" and "ss ! k = (c, ph)" and "\<And>out. ph \<noteq> Ended out"
    and "w \<in> set ws"
  shows "tn_session w \<noteq> k"
  using accountsD [OF assms(1,4)] assms(2,3) by auto

lemma session_step_quiet:
  "session_step env os c s ph s' ph' \<Longrightarrow> \<forall>out. ph' \<noteq> Ended out \<Longrightarrow> tables_of s' = tables_of s"
  by (cases rule: session_step.cases) (auto simp: tables_of_def)

lemma accounts_same:
  assumes acc: "accounts env s0 ws (s, ss)" and k: "k < length ss" "ss ! k = (c, ph)"
    and busy: "\<And>out. ph \<noteq> Ended out" and tab: "tables_of s' = tables_of s"
    and lost: "\<And>out. ph' = Ended out \<Longrightarrow> \<exists>e. out = Some e \<and> errors_Is e DriverErr"
  shows "accounts env s0 ws (s', ss[k := (c, ph')])"
proof -
  have ne: "tn_session w \<noteq> k" if "w \<in> set ws" for w
    by (rule accounts_other [OF acc k(2) busy that])
  have "(\<exists>w \<in> set ws. tn_session w = j \<and> tn_out w = out) \<or>
        (\<exists>e. out = Some e \<and> errors_Is e DriverErr)"
    if "j < length ss" "snd (ss[k := (c, ph')] ! j) = Ended out" for j out
    using that acc lost k(1) by (cases "j = k") (auto simp: accounts_def)
  moreover have "ss[k := (c, ph')] ! tn_session w = ss ! tn_session w" if "w \<in> set ws" for w
    using ne [OF that] by simp
  ultimately show ?thesis using acc tab unfolding accounts_def by simp
qed

lemma accounts_turn:
  assumes acc: "accounts env s0 ws (s, ss)" and k: "k < length ss" "ss ! k = (c, ph)"
    and busy: "\<And>out. ph \<noteq> Ended out" and f: "faults s0 = []"
    and cats: "\<forall>x \<in> set ss. \<not> is_category_cmd (fst x)"
    and run: "\<And>u. tables_of u = tables_of s \<Longrightarrow> faults u = [] \<Longrightarrow>
      \<exists>tm pid aid v. run_cmd env c (at_turn tm pid aid u) = (out, v) \<and> tables_of v = tables_of s'"
    and ph': "ph' = Ended out \<or> (out = None \<and> ph' = Ended (Some DriverErr))"
  shows "\<exists>ws. accounts env s0 ws (s', ss[k := (c, ph')])"
proof -
  from acc obtain u where u: "replay env ws s0 = Some u" "tables_of u = tables_of s"
    by (auto simp: accounts_def)
  have "\<not> is_category_cmd (tn_cmd w)" if "w \<in> set ws" for w
  proof -
    from accountsD [OF acc that] have "ss ! tn_session w \<in> set ss" by simp
    then have "\<not> is_category_cmd (fst (ss ! tn_session w))" using cats by blast
    with accountsD [OF acc that] show ?thesis by simp
  qed
  then have "\<forall>w \<in> set ws. \<not> is_category_cmd (tn_cmd w)" by blast
  with u(1) f have "faults u = []" by (rule replay_faults)
  from run [OF u(2) this] obtain tm pid aid v where v: "run_cmd env c (at_turn tm pid aid u) = (out, v)"
    "tables_of v = tables_of s'" by blast
  let ?w = "\<lparr>tn_session = k, tn_cmd = c, tn_time = tm, tn_pid = pid, tn_aid = aid, tn_out = out\<rparr>"
  let ?ss = "ss[k := (c, ph')]"
  have ne: "tn_session w \<noteq> k" if "w \<in> set ws" for w
    by (rule accounts_other [OF acc k(2) busy that])
  have "replay env (ws @ [?w]) s0 = Some v" using u v by (simp add: replay_append)
  moreover have "distinct (map tn_session (ws @ [?w]))"
    using acc ne by (auto simp: accounts_def)
  moreover have "tn_session w < length ?ss \<and> (?ss ! tn_session w = (tn_cmd w, Ended (tn_out w)) \<or>
      (tn_out w = None \<and> ?ss ! tn_session w = (tn_cmd w, Ended (Some DriverErr))))"
    if "w \<in> set (ws @ [?w])" for w
  proof (cases "w \<in> set ws")
    case True
    have "?ss ! tn_session w = ss ! tn_session w" using ne [OF True] by simp
    with acc True show ?thesis by (simp add: accounts_def)
  next
    case False
    with that k ph' show ?thesis by auto
  qed
  moreover have "(\<exists>w \<in> set (ws @ [?w]). tn_session w = j \<and> tn_out w = o') \<or>
      (\<exists>e. o' = Some e \<and> errors_Is e DriverErr)"
    if "j < length ?ss" "snd (?ss ! j) = Ended o'" for j o'
    using that acc k ph' by (cases "j = k") (auto simp: accounts_def)
  ultimately have "accounts env s0 (ws @ [?w]) (s', ?ss)"
    unfolding accounts_def using v(2) by simp
  then show ?thesis by blast
qed

lemma accounts_step:
  assumes st: "step env (s, ss) (s', ss')" and ok: "conf_ok env (s, ss)"
    and acc: "accounts env s0 ws (s, ss)" and f: "faults s0 = []"
    and cats: "\<forall>x \<in> set ss. \<not> is_category_cmd (fst x)" and ex: "\<forall>x \<in> set ss. exact s x"
    and scan: "scan_ok env" and i4: "int4in_ok env" and num: "numeric2_ok env"
  shows "\<exists>ws. accounts env s0 ws (s', ss')"
proof -
  from st obtain k c ph ph' where k: "k < length ss" "ss ! k = (c, ph)" and ss': "ss' = ss[k := (c, ph')]"
    and st: "session_step env (others k ss) c s ph s' ph' \<or> session_fault env (others k ss) c s ph s' ph'"
    by (rule step_elim)
  have mem: "(c, ph) \<in> set ss" using k by (metis nth_mem)
  have facts: "session_ok env s (c, ph)" "exact s (c, ph)" "\<not> is_category_cmd c" "db_inv s" "faults s = []"
    using ok ex cats mem by (auto simp: conf_ok_def)
  have busy: "ph \<noteq> Ended out" for out using st session_work fault_work by (cases ph) fastforce+
  note same = accounts_same [OF acc k busy, where s' = s' and ph' = ph', folded ss']
  note turn = accounts_turn [OF acc k busy f cats, where s' = s' and ph' = ph', folded ss']
  have pub: "\<exists>tm pid aid v. run_cmd env c (at_turn tm pid aid u) = (None, v) \<and> tables_of v = tables_of s'"
    if "ph = Logged tm p r' a" "s' = publish_write p r' a s" "tables_of u = tables_of s" "faults u = []"
    for tm p r' a u
    using commit_run [of env s c tm p r' a u] facts that scan i4 num by blast
  from st show ?thesis
  proof
    assume step: "session_step env (others k ss) c s ph s' ph'"
    show ?thesis
    proof (cases "\<exists>out. ph' = Ended out")
      case False
      then have "tables_of s' = tables_of s" using session_step_quiet [OF step] by blast
      with False same show ?thesis by blast
    next
      case True
      then obtain out where out: "ph' = Ended out" by blast
      show ?thesis
      proof (cases out)
        case None
        from step have "\<exists>tm p r' a. ph = Logged tm p r' a \<and> s' = publish_write p r' a s"
          using facts(3) out None by cases auto
        with pub out None show ?thesis by (intro turn [of None]) blast+
      next
        case (Some e)
        have "\<exists>tm pid aid v. run_cmd env c (at_turn tm pid aid u) = (Some e, v) \<and>
            tables_of v = tables_of s'" if "tables_of u = tables_of s" "faults u = []" for u
          using refusal_run [OF step [unfolded out Some] facts(3,1,2,4,5) that scan] by metis
        then show ?thesis by (rule turn [of "Some e"]) (simp_all add: out Some)
      qed
    qed
  next
    assume fault: "session_fault env (others k ss) c s ph s' ph'"
    then show ?thesis
    proof cases
      case (undone e)
      with same show ?thesis by blast
    next
      case (unanswered tm p r' a)
      with pub show ?thesis by (intro turn [of None]) blast+
    next
      case (category_unanswered tm)
      with facts(3) show ?thesis by simp
    qed
  qed
qed

lemma exact_conf_step:
  assumes st: "step env (s, ss) (s', ss')" and ok: "conf_ok env (s, ss)"
    and cats: "\<forall>x \<in> set ss. \<not> is_category_cmd (fst x)" and ex: "\<forall>x \<in> set ss. exact s x"
  shows "\<forall>x \<in> set ss'. exact s' x"
proof -
  from st obtain k c ph ph' where k: "k < length ss" "ss ! k = (c, ph)" and ss': "ss' = ss[k := (c, ph')]"
    and st: "session_step env (others k ss) c s ph s' ph' \<or> session_fault env (others k ss) c s ph s' ph'"
    by (rule step_elim)
  have mem: "(c, ph) \<in> set ss" using k by (metis nth_mem)
  have facts: "session_ok env s (c, ph)" "exact s (c, ph)" "\<not> is_category_cmd c" "db_inv s" "faults s = []"
    using ok ex cats mem by (auto simp: conf_ok_def)
  have "categories s' = categories s" by (rule step_categories [OF st facts(3)])
  then have "\<forall>x \<in> set ss. exact s' x" using ex exact_cong [of s' s] by blast
  moreover have "exact s' (c, ph')"
    using st
  proof
    assume "session_step env (others k ss) c s ph s' ph'"
    from exact_step [OF this facts(4,5,1,2,3)] show ?thesis .
  next
    assume "session_fault env (others k ss) c s ph s' ph'"
    then show ?thesis by cases auto
  qed
  ultimately show ?thesis unfolding ss' using set_update_subset_insert by fastforce
qed

lemma schedule_accounts:
  assumes "schedule env x ys" and "conf_ok env x" and "\<exists>ws. accounts env s0 ws x" and "faults s0 = []"
    and "\<forall>y \<in> set (snd x). \<not> is_category_cmd (fst y)" and "\<forall>y \<in> set (snd x). exact (fst x) y"
    and "scan_ok env" and "int4in_ok env" and "numeric2_ok env"
  shows "\<exists>ws. accounts env s0 ws (reached x ys)"
proof -
  let ?I = "\<lambda>x. (\<exists>ws. accounts env s0 ws x) \<and> (\<forall>y \<in> set (snd x). \<not> is_category_cmd (fst y)) \<and>
    (\<forall>y \<in> set (snd x). exact (fst x) y)"
  have "?I y" if "conf_ok env x" "?I x" "step env x y" for x y
  proof -
    obtain s ss s' ss' where xy: "x = (s, ss)" "y = (s', ss')" by fastforce
    have "fst ` set ss' = fst ` set ss" using step_fst [OF that(3)] by (metis list.set_map snd_conv xy)
    moreover have "\<forall>c \<in> fst ` set ss. \<not> is_category_cmd c" using that(2) xy by simp
    ultimately have "\<forall>y \<in> set ss'. \<not> is_category_cmd (fst y)" by (metis image_eqI)
    moreover from that(2) obtain ws where "accounts env s0 ws (s, ss)" unfolding xy by blast
    from accounts_step [OF that(3) [unfolded xy] that(1) [unfolded xy] this assms(4)] that(2) assms(7-9)
    have "\<exists>ws. accounts env s0 ws (s', ss')" by (simp add: xy)
    moreover have "\<forall>x \<in> set ss'. exact s' x"
      using exact_conf_step [OF that(3) [unfolded xy] that(1) [unfolded xy]] that(2) by (simp add: xy)
    ultimately show ?thesis by (simp add: xy)
  qed
  from schedule_induct [where I = ?I, OF assms(1,2) _ assms(7,9)] this assms(3,5,6) show ?thesis by blast
qed

subsection \<open>Properties\<close>

text \<open>
  C4. Interleaved product commands are as good as run one after the other: for every
  schedule of creations, edits and lifecycle commands, with any broken connections, there
  are turns, in the order in which the sessions took effect, such that running the
  transactions of the repository in that order produces the tables, and every session that
  was answered got the answer of its turn; a session whose connection broke has a turn that
  committed, or none.
\<close>

theorem interleavings_serialize:
  assumes "scan_ok env" and "int4in_ok env" and "numeric2_ok env" and "db_inv s0" and "faults s0 = []"
    and "\<forall>c \<in> set cs. \<not> is_category_cmd c" and "schedule env (s0, start cs) ys"
    and "reached (s0, start cs) ys = (t, ss)"
  shows "\<exists>ws u. replay env ws s0 = Some u \<and> tables_of u = tables_of t \<and>
     distinct (map tn_session ws) \<and>
     (\<forall>w \<in> set ws. tn_session w < length ss \<and>
        (ss ! tn_session w = (tn_cmd w, Ended (tn_out w)) \<or>
         (tn_out w = None \<and> ss ! tn_session w = (tn_cmd w, Ended (Some DriverErr))))) \<and>
     (\<forall>k < length ss. \<forall>out. snd (ss ! k) = Ended out \<longrightarrow>
        (\<exists>w \<in> set ws. tn_session w = k \<and> tn_out w = out) \<or>
        (\<exists>e. out = Some e \<and> errors_Is e DriverErr))"
proof -
  have "accounts env s0 [] (s0, start cs)" by (auto simp: accounts_def start_def)
  then have "\<exists>ws. accounts env s0 ws (s0, start cs)" by blast
  from schedule_accounts [OF assms(7) conf_ok_start [OF assms(4,5)] this assms(5)] assms(1-3,6)
  have "\<exists>ws. accounts env s0 ws (reached (s0, start cs) ys)" by (auto simp: start_def)
  then show ?thesis unfolding accounts_def assms(8) by auto
qed

theorem interleavings_serialize_witness:
  "\<exists>ys ws u. all_ended (reached (sample_db, start [Do_update sample_edit, Do_transition sample_publish]) ys) \<and>
     replay std_env ws sample_db = Some u \<and> tables_of u = tables_of (fst (reached
       (sample_db, start [Do_update sample_edit, Do_transition sample_publish]) ys))"
proof -
  let ?cs = "[Do_update sample_edit, Do_transition sample_publish]"
  have "conf_ok std_env (sample_db, start ?cs)" by (rule conf_ok_start [OF sample_db_inv]) simp
  from complete_schedule [OF this] obtain ys where ys: "schedule std_env (sample_db, start ?cs) ys"
    "all_ended (reached (sample_db, start ?cs) ys)"
    by auto
  obtain t ss where r: "reached (sample_db, start ?cs) ys = (t, ss)" by fastforce
  have "\<forall>c \<in> set ?cs. \<not> is_category_cmd c" by (simp add: is_category_cmd_def)
  from interleavings_serialize [OF std_scan_ok std_int4in_ok std_numeric2_ok sample_db_inv _ this ys(1) r]
  show ?thesis using ys(2) r by (metis fst_conv sample_db_sel(8))
qed

subsection \<open>A rename between the read and the write of an edit\<close>

definition race_edit :: UpdateProductInput where
  "race_edit = \<lparr>ui_ID = ''1'', ui_Name = ''Mouse'', ui_Price = price_of_cents 1999,
     ui_Description = ''new'', ui_Category = ''Electronics'', ui_ExpectedVersion = 2,
     ui_ActorSub = ''alice'', ui_Reason = [], ui_RequestID = []\<rparr>"

definition race_rename :: admin_cmd where
  "race_rename = Do_update_category 1 ''Gadgets'' ''Electronic devices and accessories'' ''bob'' []"

definition renamed_db :: db where
  "renamed_db = sample_db\<lparr>categories := reference_category 1 ''Gadgets'' ''Electronic devices and accessories''
      \<lparr>cr_updated_at := 9\<rparr> # tl (categories migrated_db), next_aid := 2,
     audits := [audit_of (category_audit ''UPDATE'' 1 ''bob'' [] [(''name'',
       JObj [(''after'', JStr ''Gadgets''), (''before'', JStr ''Electronics'')])]) 1 9]\<rparr>"

lemma rename_run: "run_cmd std_env race_rename sample_db = (None, renamed_db)"
proof -
  have f: "faults sample_db = []" by simp
  have cats: "categories sample_db = reference_category 1 ''Electronics'' ''Electronic devices and accessories'' # tl (categories migrated_db)"
    by (simp add: migrated_db_def)
  have "update_category_tx std_env 1 ''Gadgets'' ''Electronic devices and accessories'' ''bob'' [] sample_db =
     (Inr (scan_category (reference_category 1 ''Gadgets'' ''Electronic devices and accessories''
      \<lparr>cr_updated_at := 9\<rparr>)), renamed_db)"
    by (simp add: update_category_tx_def select_category_def seq_def on_err_def first_row_def
      update_category_row_def Let_def rune_count_def migrated_db_def reference_category_def std_env_def is_int4_def
      retitle_def nullif_empty_def insertAudit_def insert_audit_row_def category_audit_def category_changed_def
      diff_field_def coalesce_def renamed_db_def audit_of_def give_def)
  from begin_func_run(2) [where body = "update_category_tx std_env 1 _ _ _ _", OF f this] show ?thesis
    by (simp add: race_rename_def UpdateCategory_def outcome_def renamed_db_def)
qed

lemma run_update_effect:
  assumes "run_cmd env (Do_update i) s = (None, t)" and "scan_ok env"
  obtains r c where "int4in env (ui_ID i) = Some (pr_id r)" "r \<in> set (products s)"
    "products t = map (\<lambda>x. if pr_id x = pr_id r \<and> pr_version x = ui_ExpectedVersion i
       then update_row i c (category_id_of s (ui_Category i)) (clock s) x else x) (products s)"
    "audits t = audits s @ [audit_of (update_audit i (admin_product s r)) (next_aid s) (clock s)]"
proof -
  from assms(1) obtain p where "UpdateProduct env i s = (Inr p, t)" by (auto simp: outcome_iff)
  then obtain fs s1 fs' where tx: "update_product_tx env i (s\<lparr>faults := fs\<rparr>) = (Inr p, s1)"
    and t: "t = s1\<lparr>faults := fs'\<rparr>"
    unfolding UpdateProduct_def by (rule begin_func_Inr)
  have same: "category_id_of (s\<lparr>faults := fs\<rparr>) = category_id_of s"
    "admin_product (s\<lparr>faults := fs\<rparr>) = admin_product s"
    by (simp_all add: category_id_of_def fun_eq_iff)
  from tx assms(2) show ?thesis
    by (rule update_product_tx_effect) (use t same in \<open>auto intro: that\<close>)
qed

lemma run_rename_effect:
  assumes "run_cmd env (Do_update_category cid n d a q) s = (None, t)"
  shows "products t = products s \<and> categories t = map (\<lambda>r. if cr_id r = cid
     then retitle n d (clock s) r else r) (categories s) \<and> (\<exists>x. audits t = audits s @ [x])"
proof -
  from assms obtain cat where "UpdateCategory env cid n d a q s = (Inr cat, t)"
    by (auto simp: outcome_iff)
  then obtain fs s1 fs' where tx: "update_category_tx env cid n d a q (s\<lparr>faults := fs\<rparr>) = (Inr cat, s1)"
    and t: "t = s1\<lparr>faults := fs'\<rparr>"
    unfolding UpdateCategory_def by (rule begin_func_Inr)
  from tx show ?thesis by (rule update_category_tx_effect) (simp add: t)
qed

abbreviation race_row :: prow where
  "race_row \<equiv> sample_row 1 ''Mouse'' 1999 (Some 1) StatusActive 2"

abbreviation lost_row :: prow where
  "lost_row \<equiv> update_row race_edit 1999 None 9 race_row"

abbreviation race_entry :: AuditEntry where
  "race_entry \<equiv> update_audit race_edit (admin_product sample_db race_row)"

abbreviation raced_db :: db where
  "raced_db \<equiv> publish_write (Some race_row) lost_row (audit_of race_entry 2 9) (renamed_db\<lparr>next_aid := 3\<rparr>)"

lemma race_sel [simp]:
  "ui_ID race_edit = ''1''" "ui_Name race_edit = ''Mouse''" "ui_Category race_edit = ''Electronics''"
  "ui_ExpectedVersion race_edit = 2"
  by (simp_all add: race_edit_def)

lemma renamed_db_inv: "db_inv renamed_db"
proof -
  have "db_inv (snd (run_cmd std_env race_rename sample_db))"
    by (rule run_cmd_inv [OF std_numeric2_ok sample_db_inv])
  then show ?thesis by (simp add: rename_run)
qed

lemma race_before: "ap_Category (admin_product sample_db race_row) = ''Electronics''"
  by (simp add: admin_product_def category_name_def migrated_db_def reference_category_def coalesce_def)

lemma race_changed: "ar_changed_fields (audit_of race_entry 2 9) =
    Some (JObj [(''description'', JObj [(''after'', JStr ''new''), (''before'', JStr ''text'')])])"
  by (simp add: update_audit_def changed_json_def update_changed_def diff_field_def race_before
      admin_product_def race_edit_def coalesce_def category_name_def migrated_db_def
      reference_category_def)

lemma race_schedule:
  "\<exists>ys. schedule std_env (sample_db, start [Do_update race_edit, race_rename]) ys \<and>
     reached (sample_db, start [Do_update race_edit, race_rename]) ys =
       (raced_db, [(Do_update race_edit, Ended None), (race_rename, Ended None)])"
proof -
  let ?c = "Do_update race_edit" and ?d = "race_rename"
  let ?b = "admin_product sample_db race_row"
  have clk: "sample_db\<lparr>clock := 9\<rparr> = sample_db" "renamed_db\<lparr>clock := 9\<rparr> = renamed_db"
    by (simp_all add: sample_db_def renamed_db_def)
  have sel: "products renamed_db = products sample_db" "faults renamed_db = []" "clock renamed_db = 9"
    "next_aid renamed_db = 2"
    by (simp_all add: renamed_db_def)
  have isc: "\<not> is_category_cmd ?c" "is_category_cmd ?d"
    by (simp_all add: is_category_cmd_def race_rename_def)
  have 1: "step std_env (sample_db, start [?c, ?d]) (sample_db, [(?c, Open 9), (?d, Waiting)])"
    by (rule step_healthy [where k = 0])
       (use begin_tx [OF isc(1), of sample_db 9] clk in \<open>simp_all add: start_def\<close>)
  have "for_update std_env ''1'' sample_db = Inr race_row"
    using for_update_run [OF db_inv_products_ok [OF sample_db_inv] std_scan_ok, of "''1''" race_row] by simp
  from lock_row [of ?c "''1''" std_env sample_db race_row "[Waiting]" 9, OF _ this]
  have 2: "step std_env (sample_db, [(?c, Open 9), (?d, Waiting)])
      (sample_db, [(?c, Holding 9 race_row ?b), (?d, Waiting)])"
    by (intro step_healthy [where k = 0]) (simp_all add: others_def row_locked_def)
  have 3: "step std_env (sample_db, [(?c, Holding 9 race_row ?b), (?d, Waiting)])
      (renamed_db, [(?c, Holding 9 race_row ?b), (?d, Ended None)])"
    by (rule step_healthy [where k = 1])
       (use category_cmd [OF isc(2), of "[Holding 9 race_row ?b]" sample_db 9 std_env None renamed_db]
         rename_run clk in \<open>simp_all add: others_def race_rename_def\<close>)
  have conv: "convert_params std_env (ui_Name race_edit) (ui_Price race_edit) = Inr 1999"
  proof -
    have "numeric2 std_env (price_of_cents 1999) = Some 1999"
      using std_numeric2_ok by (simp add: numeric2_ok_def max_cents_def)
    then show ?thesis by (simp add: race_edit_def convert_params_def rune_count_def)
  qed
  have cid: "category_id_of renamed_db ''Electronics'' = None"
    by (simp add: category_id_of_def renamed_db_def migrated_db_def reference_category_def)
  let ?t = "renamed_db\<lparr>products := replace_row lost_row (products sample_db)\<rparr>"
  have "update_stmt std_env race_edit renamed_db = (Inr 1, ?t)"
    using update_stmt_run [OF db_inv_products_ok [OF renamed_db_inv] _ _ _ _ conv, of race_row] sel cid
    by (simp add: max_int64_def)
  then have w: "write_row std_env ?c ?b (renamed_db\<lparr>clock := 9\<rparr>) = (Inr 1, ?t)" by (simp add: clk)
  have lost: "pr_id lost_row = pr_id race_row" by (simp add: update_row_def)
  have "find (\<lambda>x. pr_id x = pr_id race_row) (products ?t) = Some lost_row"
    using find_replace_row [of race_row "products sample_db" lost_row] lost by simp
  from write_done [OF w _ _ this, of "[Ended None]"]
  have 4: "step std_env (renamed_db, [(?c, Holding 9 race_row ?b), (?d, Ended None)])
      (renamed_db, [(?c, Written 9 (Some race_row) lost_row race_entry), (?d, Ended None)])"
    by (intro step_healthy [where k = 0]) (simp_all add: others_def name_free_def)
  have "audit_fits race_entry" "is_int4 (TargetID race_entry)" "TargetType race_entry = ''product''"
    by (simp_all add: audit_fits_def update_audit_def race_edit_def rune_count_def audit_target_def is_int4_def)
  then have ins: "insertAudit race_entry (renamed_db\<lparr>clock := 9\<rparr>) = (Inr (), renamed_db\<lparr>next_aid := 3,
      audits := audits renamed_db @ [audit_of race_entry 2 9]\<rparr>)"
    using insertAudit_run [of renamed_db race_entry] sel by (simp add: clk)
  from log_entry [OF ins, of std_env "[Ended None]" ?c "Some race_row" lost_row]
  have 5: "step std_env (renamed_db, [(?c, Written 9 (Some race_row) lost_row race_entry), (?d, Ended None)])
      (renamed_db\<lparr>next_aid := 3\<rparr>, [(?c, Logged 9 (Some race_row) lost_row (audit_of race_entry 2 9)), (?d, Ended None)])"
    by (intro step_healthy [where k = 0]) (simp_all add: others_def)
  have 6: "step std_env (renamed_db\<lparr>next_aid := 3\<rparr>,
      [(?c, Logged 9 (Some race_row) lost_row (audit_of race_entry 2 9)), (?d, Ended None)])
      (raced_db, [(?c, Ended None), (?d, Ended None)])"
    by (rule step_healthy [where k = 0, OF _ _ commit]) simp_all
  show ?thesis
    by (rule exI [of _ "[(sample_db, [(?c, Open 9), (?d, Waiting)]),
       (sample_db, [(?c, Holding 9 race_row ?b), (?d, Waiting)]),
       (renamed_db, [(?c, Holding 9 race_row ?b), (?d, Ended None)]),
       (renamed_db, [(?c, Written 9 (Some race_row) lost_row race_entry), (?d, Ended None)]),
       (renamed_db\<lparr>next_aid := 3\<rparr>,
         [(?c, Logged 9 (Some race_row) lost_row (audit_of race_entry 2 9)), (?d, Ended None)]),
       (raced_db, [(?c, Ended None), (?d, Ended None)])]"])
       (simp add: 1 2 3 4 5 6 reached_def del: One_nat_def)
qed

lemma accounts_entry:
  "accounts env s0 ws (s, ss) \<Longrightarrow> w \<in> set ws \<Longrightarrow>
     ss ! tn_session w = (tn_cmd w, Ended (tn_out w)) \<or> tn_out w = None"
  by (auto simp: accounts_def)

lemma two_turns:
  assumes acc: "accounts env s0 ws (s, [(c, Ended None), (d, Ended None)])"
  obtains a b where "ws = [a, b]" "{(tn_cmd a, tn_out a), (tn_cmd b, tn_out b)} = {(c, None), (d, None)}"
    "tn_cmd a = c \<and> tn_cmd b = d \<or> tn_cmd a = d \<and> tn_cmd b = c"
proof -
  let ?ss = "[(c, Ended None), (d, Ended None)]"
  have turn: "\<exists>w \<in> set ws. tn_session w = k \<and> tn_out w = None" if "k < 2" for k
  proof -
    have "snd (?ss ! k) = Ended None" "k < length ?ss" using that by (auto simp: less_2_cases_iff)
    with acc show ?thesis unfolding accounts_def snd_conv by blast
  qed
  have ses: "tn_session w < 2 \<and> tn_cmd w = fst (?ss ! tn_session w) \<and> tn_out w = None" if "w \<in> set ws" for w
  proof -
    have lt: "tn_session w < 2" using accountsD [OF acc that] by simp
    then have ended: "snd (?ss ! tn_session w) = Ended None" by (auto simp: less_2_cases_iff)
    have "?ss ! tn_session w = (tn_cmd w, Ended (tn_out w)) \<or> tn_out w = None"
      by (rule accounts_entry [OF acc that])
    then have "tn_out w = None"
    proof
      assume eq: "?ss ! tn_session w = (tn_cmd w, Ended (tn_out w))"
      have "snd (?ss ! tn_session w) = Ended (tn_out w)" by (simp only: eq snd_conv)
      with ended show ?thesis by simp
    qed
    with lt accountsD [OF acc that] show ?thesis by simp
  qed
  have "tn_session ` set ws = {0, 1}"
  proof
    have "tn_session w \<in> {0, 1}" if "w \<in> set ws" for w
      using ses [OF that] less_2_cases by fastforce
    then show "tn_session ` set ws \<subseteq> {0, 1}" by (rule image_subsetI)
    show "{0, 1} \<subseteq> tn_session ` set ws" using turn [of 0] turn [of 1] by (auto simp: image_iff) metis+
  qed
  moreover have d: "distinct (map tn_session ws)" using acc by (simp add: accounts_def)
  ultimately have "length ws = 2" using distinct_card [OF d] by simp
  then obtain a b where ws: "ws = [a, b]" by (auto simp: numeral_2_eq_2 length_Suc_conv)
  with d have ne: "tn_session a \<noteq> tn_session b" by simp
  with ses [of a] ses [of b] have
    "tn_cmd a = c \<and> tn_cmd b = d \<or> tn_cmd a = d \<and> tn_cmd b = c" "tn_out a = None" "tn_out b = None"
    by (auto simp: ws less_2_cases_iff)
  then show ?thesis using that [OF ws] by auto
qed

lemma replay_two:
  assumes "replay env [a, b] s = Some u" and "tn_out a = None" and "tn_out b = None"
  obtains v where
    "run_cmd env (tn_cmd a) (at_turn (tn_time a) (tn_pid a) (tn_aid a) s) = (None, v)"
    "run_cmd env (tn_cmd b) (at_turn (tn_time b) (tn_pid b) (tn_aid b) v) = (None, u)"
  using assms by (auto split: prod.splits if_splits)

lemma category_rows:
  assumes "categories s = categories sample_db"
  shows "category_id_of s ''Electronics'' = Some 1"
  by (simp add: category_id_of_def assms migrated_db_def reference_category_def)

text \<open>Run in either order the two commands leave something else than the race does.\<close>

lemma race_no_order:
  "\<not> (\<exists>ws. accounts std_env sample_db ws
     (raced_db, [(Do_update race_edit, Ended None), (race_rename, Ended None)]))"
proof
  assume "\<exists>ws. accounts std_env sample_db ws
     (raced_db, [(Do_update race_edit, Ended None), (race_rename, Ended None)])"
  then obtain ws where acc: "accounts std_env sample_db ws
     (raced_db, [(Do_update race_edit, Ended None), (race_rename, Ended None)])" by blast
  then obtain u where u: "replay std_env ws sample_db = Some u" "tables_of u = tables_of raced_db"
    by (auto simp: accounts_def)
  from acc obtain a b where ws: "ws = [a, b]" and outs: "tn_out a = None" "tn_out b = None"
    and cmds: "tn_cmd a = Do_update race_edit \<and> tn_cmd b = race_rename \<or>
      tn_cmd a = race_rename \<and> tn_cmd b = Do_update race_edit"
    by (rule two_turns) (auto simp: doubleton_eq_iff race_rename_def)
  from u(1) obtain v where
    1: "run_cmd std_env (tn_cmd a) (at_turn (tn_time a) (tn_pid a) (tn_aid a) sample_db) = (None, v)" and
    2: "run_cmd std_env (tn_cmd b) (at_turn (tn_time b) (tn_pid b) (tn_aid b) v) = (None, u)"
    using replay_two [OF _ outs] unfolding ws by blast
  have pu: "products u = products raced_db" and au: "audits u = audits raced_db"
    using u(2) by (simp_all add: tables_of_eq_iff)
  let ?s = "at_turn (tn_time a) (tn_pid a) (tn_aid a) sample_db"
  from cmds show False
  proof (elim disjE conjE)
    assume c: "tn_cmd a = Do_update race_edit" "tn_cmd b = race_rename"
    have cid: "category_id_of ?s ''Electronics'' = Some 1" by (rule category_rows) simp
    from 1 [unfolded c] obtain r x where r: "int4in std_env ''1'' = Some (pr_id r)" "r \<in> set (products sample_db)"
      and v: "products v = map (\<lambda>y. if pr_id y = pr_id r \<and> pr_version y = 2
         then update_row race_edit x (Some 1) (tn_time a) y else y) (products sample_db)"
      by (rule run_update_effect [OF _ std_scan_ok]) (simp add: cid)
    from r have "pr_id r = 1" by simp
    with v have "pr_category_id (hd (products v)) = Some 1" by (simp add: update_row_def)
    moreover have "products u = products v"
      using run_rename_effect 2 [unfolded c race_rename_def] by fastforce
    moreover have "pr_category_id (hd (products raced_db)) = None"
      by (simp add: publish_write_def install_def renamed_db_def replace_row_def update_row_def)
    ultimately show False using pu by simp
  next
    assume c: "tn_cmd a = race_rename" "tn_cmd b = Do_update race_edit"
    let ?v = "at_turn (tn_time b) (tn_pid b) (tn_aid b) v"
    from run_rename_effect [OF 1 [unfolded c race_rename_def]]
    have v: "products v = products sample_db"
      "categories v = map (\<lambda>r. if cr_id r = 1
         then retitle ''Gadgets'' ''Electronic devices and accessories'' (tn_time a) r else r)
         (categories sample_db)" by simp_all
    from 2 [unfolded c] obtain r where r: "int4in std_env ''1'' = Some (pr_id r)" "r \<in> set (products v)"
      and a: "audits u = audits v @ [audit_of (update_audit race_edit (admin_product ?v r)) (tn_aid b) (tn_time b)]"
      by (rule run_update_effect [OF _ std_scan_ok]) simp
    from r v have rr: "r = race_row" by auto
    have cat: "ap_Category (admin_product ?v r) = ''Gadgets''"
      by (simp add: rr admin_product_def category_name_def v migrated_db_def reference_category_def
          retitle_def coalesce_def)
    have "last (audits u) = audit_of race_entry 2 9"
      by (simp add: au publish_write_def)
    then have "audit_of race_entry 2 9 =
        audit_of (update_audit race_edit (admin_product ?v r)) (tn_aid b) (tn_time b)"
      by (simp add: a)
    then have "ar_changed_fields (audit_of (update_audit race_edit (admin_product ?v r)) (tn_aid b) (tn_time b)) =
       Some (JObj [(''description'', JObj [(''after'', JStr ''new''), (''before'', JStr ''text'')])])"
      using race_changed by metis
    then show False using cat by (simp add: update_audit_def changed_json_def update_changed_def diff_field_def)
  qed
qed

text \<open>
  C11. Commands on categories break the serial order: an operator edits a product that is in
  category Electronics, and keeps the category; between the locking read of the edit and its
  write another operator renames the category. Both succeed, the product ends up in no
  category, its audit row reports only the new description, and no order of the two commands
  run one after the other gives these tables.
\<close>

theorem rename_race_not_serial:
  "\<exists>ys t r a. schedule std_env (sample_db, start [Do_update race_edit, race_rename]) ys \<and>
     reached (sample_db, start [Do_update race_edit, race_rename]) ys =
       (t, [(Do_update race_edit, Ended None), (race_rename, Ended None)]) \<and>
     r \<in> set (products t) \<and> pr_id r = 1 \<and> pr_category_id r = None \<and>
     trail (tables_of t) 1 = [a] \<and> ar_changed_fields a = Some (JObj [(''description'',
       JObj [(''after'', JStr ''new''), (''before'', JStr ''text'')])]) \<and>
     \<not> (\<exists>ws. accounts std_env sample_db ws
       (t, [(Do_update race_edit, Ended None), (race_rename, Ended None)]))"
proof -
  from race_schedule obtain ys where
    "schedule std_env (sample_db, start [Do_update race_edit, race_rename]) ys"
    "reached (sample_db, start [Do_update race_edit, race_rename]) ys =
       (raced_db, [(Do_update race_edit, Ended None), (race_rename, Ended None)])" by blast
  moreover have "lost_row \<in> set (products raced_db)" "pr_id lost_row = 1" "pr_category_id lost_row = None"
    by (simp_all add: publish_write_def install_def renamed_db_def replace_row_def update_row_def)
  moreover have "trail (tables_of raced_db) 1 = [audit_of race_entry 2 9]"
    by (simp add: trail_def tables_of_def publish_write_def renamed_db_def category_audit_def
        update_audit_def audit_target_def)
  ultimately show ?thesis using race_changed race_no_order by blast
qed

end
