(* ===== verification/Go_Floats.thy ===== *)
theory Go_Floats
  imports Domain
begin

section \<open>Floating-point numbers in texts\<close>

text \<open>
  \<open>strconv.ParseFloat(s, 64)\<close>, which reads the sampling rate: special values, decimal and
  hexadecimal literals, underscores between digits, and the order of \<open>float64\<close> values. A
  finite value is the rational number it denotes, so the two zeros are one. An error, also a
  number too large for a \<open>float64\<close>, is \<open>None\<close>.
\<close>

datatype gofloat = Fin rat | NaN | Inf bool

subsection \<open>The order\<close>

fun go_less :: "gofloat \<Rightarrow> gofloat \<Rightarrow> bool" where
  "go_less (Fin a) (Fin b) = (a < b)"
| "go_less (Fin a) (Inf up) = up"
| "go_less (Inf up) (Fin b) = (\<not> up)"
| "go_less (Inf up) (Inf up') = (\<not> up \<and> up')"
| "go_less NaN _ = False"
| "go_less _ NaN = False"

text \<open>Go's comparisons: nothing is below, above or equal to NaN.\<close>

instantiation gofloat :: ord
begin

definition less_gofloat :: "gofloat \<Rightarrow> gofloat \<Rightarrow> bool" where
  "less_gofloat x y = go_less x y"

definition less_eq_gofloat :: "gofloat \<Rightarrow> gofloat \<Rightarrow> bool" where
  "less_eq_gofloat x y = (go_less x y \<or> (x = y \<and> x \<noteq> NaN))"

instance ..

end

subsection \<open>Literals\<close>

definition base_digit :: "int \<Rightarrow> char \<Rightarrow> int option" where
  "base_digit base c = (let l = int (of_char (ascii_lower c)) in
     if is_digit c then Some (digit_val c)
     else if base = 16 \<and> 97 \<le> l \<and> l \<le> 102 then Some (l - 87) else None)"

text \<open>
  The mantissa: all its digits as one number, how many of them stand behind the point, whether
  there was a digit, and the rest of the text.
\<close>

fun scan_mantissa :: "int \<Rightarrow> bool \<Rightarrow> int \<times> nat \<times> bool \<Rightarrow> string \<Rightarrow> (int \<times> nat \<times> bool) \<times> string" where
  "scan_mantissa base dot acc [] = (acc, [])"
| "scan_mantissa base dot (m, k, saw) (c # cs) =
     (if c = CHR ''_'' then scan_mantissa base dot (m, k, saw) cs
      else if c = CHR ''.'' then
        (if dot then ((m, k, saw), c # cs) else scan_mantissa base True (m, k, saw) cs)
      else case base_digit base c of None \<Rightarrow> ((m, k, saw), c # cs)
        | Some v \<Rightarrow> scan_mantissa base dot (m * base + v, if dot then Suc k else k, True) cs)"

text \<open>The digits of an exponent, which stops growing once it has passed ten thousand.\<close>

fun scan_exponent :: "int \<Rightarrow> string \<Rightarrow> int \<times> string" where
  "scan_exponent e [] = (e, [])"
| "scan_exponent e (c # cs) = (if c = CHR ''_'' then scan_exponent e cs
     else if is_digit c then scan_exponent (if e < 10000 then e * 10 + digit_val c else e) cs
     else (e, c # cs))"

text \<open>Underscores separate digits, or the base prefix from a digit: \<open>underscoreOK\<close>.\<close>

datatype last_seen = At_start | At_digit | At_underscore | At_other

fun underscores_ok :: "bool \<Rightarrow> last_seen \<Rightarrow> string \<Rightarrow> bool" where
  "underscores_ok hex saw [] \<longleftrightarrow> saw \<noteq> At_underscore"
| "underscores_ok hex saw (c # cs) \<longleftrightarrow>
     (if base_digit (if hex then 16 else 10) c \<noteq> None then underscores_ok hex At_digit cs
      else if c = CHR ''_'' then saw = At_digit \<and> underscores_ok hex At_underscore cs
      else saw \<noteq> At_underscore \<and> underscores_ok hex At_other cs)"

definition has_base_prefix :: "string \<Rightarrow> bool" where
  "has_base_prefix s \<longleftrightarrow> 2 \<le> length s \<and> s ! 0 = CHR ''0'' \<and> ascii_lower (s ! 1) \<in> set ''box''"

definition underscoreOK :: "string \<Rightarrow> bool" where
  "underscoreOK s = (let u = snd (split_sign s) in
     if has_base_prefix u
     then underscores_ok (ascii_lower (u ! 1) = CHR ''x'') At_digit (drop 2 u)
     else underscores_ok False At_start u)"

definition special :: "string \<Rightarrow> gofloat option" where
  "special s = (let (neg, u) = split_sign s in
     if to_lower u \<in> {''inf'', ''infinity''} then Some (Inf (\<not> neg))
     else if to_lower s = ''nan'' then Some NaN else None)"

text \<open>The exponent after the mantissa: \<open>None\<close> when the rest of the text is not one.\<close>

definition read_exponent :: "char \<Rightarrow> string \<Rightarrow> int option" where
  "read_exponent exp_char s = (case s of [] \<Rightarrow> if exp_char = CHR ''p'' then None else Some 0
     | c # cs \<Rightarrow> if ascii_lower c \<noteq> exp_char then None
         else (let (neg, u) = split_sign cs in
           if u = [] \<or> \<not> is_digit (hd u) then None
           else (case scan_exponent 0 u of (e, rest) \<Rightarrow>
             if rest = [] then Some (if neg then - e else e) else None)))"

definition read_literal :: "string \<Rightarrow> rat option" where
  "read_literal s =
     (let (neg, u) = split_sign s; hex = (2 < length u \<and> u ! 0 = CHR ''0'' \<and> ascii_lower (u ! 1) = CHR ''x'');
          base = (if hex then 16 else 10 :: int)
      in case scan_mantissa base False (0, 0, False) (if hex then drop 2 u else u) of
        ((m, k, saw), rest) \<Rightarrow>
          if \<not> saw \<or> (CHR ''_'' \<in> set s \<and> \<not> underscoreOK s) then None
          else map_option (\<lambda>e. (if neg then - 1 else 1) * of_int m / of_int base ^ k *
              (if hex then pow2 e else 10 powi e))
            (read_exponent (if hex then CHR ''p'' else CHR ''e'') rest))"

definition ParseFloat :: "string \<Rightarrow> gofloat option" where
  "ParseFloat s = (case special s of Some x \<Rightarrow> Some x
     | None \<Rightarrow> (case read_literal s of None \<Rightarrow> None
         | Some q \<Rightarrow> if \<bar>q\<bar> < 2 ^ 1024 - 2 ^ 970 then Some (Fin (fl64 q)) else None))"

subsection \<open>Decimal fractions\<close>

text \<open>Digits on either side of a point are read as the number they write, rounded once.\<close>

lemma digits_val_Cons_from:
  "foldl (\<lambda>n c. 10 * n + digit_val c) m ds = m * 10 ^ length ds + digits_val ds"
proof (induction ds arbitrary: m)
  case (Cons c ds)
  from Cons [of "10 * m + digit_val c"] Cons [of "digit_val c"] show ?case
    by (simp add: digits_val_def algebra_simps)
qed (simp add: digits_val_def)

lemma scan_mantissa_digits:
  assumes "list_all is_digit ds"
  shows "scan_mantissa 10 dot (m, k, saw) (ds @ rest) = scan_mantissa 10 dot
    (m * 10 ^ length ds + digits_val ds, if dot then k + length ds else k, saw \<or> ds \<noteq> []) rest"
  using assms
proof (induction ds arbitrary: m k saw)
  case (Cons c ds)
  have "\<not> is_digit (CHR ''_'')" "\<not> is_digit (CHR ''.'')" by code_simp+
  with Cons.prems have c: "c \<noteq> CHR ''_''" "c \<noteq> CHR ''.''" by auto
  have d: "digits_val (c # ds) = digit_val c * 10 ^ length ds + digits_val ds"
    using digits_val_Cons_from [of "digit_val c" ds] by (simp add: digits_val_def)
  have "scan_mantissa 10 dot (m, k, saw) ((c # ds) @ rest) =
      scan_mantissa 10 dot (m * 10 + digit_val c, if dot then Suc k else k, True) (ds @ rest)"
    using c Cons.prems by (simp add: base_digit_def)
  also have "\<dots> = scan_mantissa 10 dot (m * 10 ^ length (c # ds) + digits_val (c # ds),
      if dot then k + length (c # ds) else k, True) rest"
    using Cons.prems by (simp add: Cons.IH d algebra_simps)
  finally show ?case by simp
qed (simp add: digits_val_def)

lemma digit_plain:
  assumes "is_digit c"
  shows "ascii_lower c = c" and "c \<notin> {CHR ''-'', CHR ''+'', CHR ''_'', CHR ''.'', CHR ''i'', CHR ''n'', CHR ''x''}"
proof -
  show "ascii_lower c = c" using assms by (simp add: is_digit_def ascii_lower_def Let_def)
  have "\<not> is_digit x" if "x \<in> set ''-+_.inx''" for x using that by (simp add: is_digit_def) auto
  with assms show "c \<notin> {CHR ''-'', CHR ''+'', CHR ''_'', CHR ''.'', CHR ''i'', CHR ''n'', CHR ''x''}" by auto
qed

lemma ParseFloat_decimal:
  assumes "list_all is_digit a" and "list_all is_digit b" and "a \<noteq> []"
    and "of_int (digits_val (a @ b)) / 10 ^ length b < (2 ^ 1024 - 2 ^ 970 :: rat)"
  shows "ParseFloat (a @ ''.'' @ b) = Some (Fin (fl64 (of_int (digits_val (a @ b)) / 10 ^ length b)))"
proof -
  let ?s = "a @ ''.'' @ b"
  obtain c cs where a: "a = c # cs" using assms(3) by (cases a) auto
  then have c: "is_digit c" using assms(1) by simp
  note p = digit_plain [OF c]
  have sign: "split_sign ?s = (False, ?s)" using p(2) by (simp add: split_sign_def a)
  have all: "x \<noteq> CHR ''_'' \<and> ascii_lower x \<noteq> CHR ''x''" if "x \<in> set ?s" for x
  proof (cases "x = CHR ''.''")
    case False
    with that assms(1,2) have "is_digit x" by (auto simp: list_all_iff)
    from digit_plain [OF this] show ?thesis by auto
  qed (simp add: ascii_lower_def)
  have 1: "special ?s = None"
    using p sign by (auto simp: special_def Let_def to_lower_def a)
  have hex: "(2 < length ?s \<and> ?s ! 0 = CHR ''0'' \<and> ascii_lower (?s ! 1) = CHR ''x'') = False"
    using all nth_mem [of 1 ?s] by (metis One_nat_def Suc_1 Suc_lessD)
  have scan: "scan_mantissa 10 False (0, 0, False) ?s = ((digits_val (a @ b), length b, True), [])"
    using scan_mantissa_digits [OF assms(1), of False 0 0 False "''.'' @ b"]
      scan_mantissa_digits [OF assms(2), of True "digits_val a" 0 True "[]"] assms(3)
      digits_val_Cons_from [of "digits_val a" b] by (simp add: digits_val_def)
  have "(CHR ''_'' \<in> set ?s) = False" using all by blast
  then have 2: "read_literal ?s = Some (of_int (digits_val (a @ b)) / 10 ^ length b)"
    unfolding read_literal_def sign Let_def prod.case hex if_False scan
    by (simp add: read_exponent_def)
  have "0 \<le> digits_val ds" if "list_all is_digit ds" for ds
    using that by (induction ds rule: rev_induct)
      (auto simp: digits_val_snoc is_digit_def digit_val_def, simp add: digits_val_def)
  then have "0 \<le> digits_val (a @ b)" using assms(1,2) by simp
  then have "0 \<le> (of_int (digits_val (a @ b)) / 10 ^ length b :: rat)" by simp
  with 1 2 assms(4) show ?thesis by (simp add: ParseFloat_def)
qed

end
