(* ===== verification/Config.thy ===== *)
theory Config
  imports Go_Floats
begin

section \<open>Configuration: the environment, its parsing and its validation\<close>

text \<open>
  \<open>config/config.go\<close>. The environment, with the \<open>.env\<close> file already loaded by \<open>godotenv\<close>,
  is the function \<open>os.Getenv\<close>: an unset variable reads as the empty string. What
  \<open>strconv.Atoi\<close>, \<open>strconv.ParseFloat\<close> and \<open>time.ParseDuration\<close> make of a text is computed.
  Durations are nanoseconds. Validation answers the list of its complaints.
\<close>

type_synonym getenv = "string \<Rightarrow> string"

subsection \<open>\<open>time.ParseDuration\<close>\<close>

text \<open>Digits as a number up to \<open>2 ^ 63\<close>, or an overflow; and the rest of the text.\<close>

fun leadingInt :: "int \<Rightarrow> string \<Rightarrow> (int \<times> string) option" where
  "leadingInt x [] = Some (x, [])"
| "leadingInt x (c # cs) = (if \<not> is_digit c then Some (x, c # cs)
     else if 2 ^ 63 div 10 < x then None
     else if 2 ^ 63 < x * 10 + digit_val c then None
     else leadingInt (x * 10 + digit_val c) cs)"

text \<open>The digits of a fraction, with the power of ten they are over; surplus ones are dropped.\<close>

fun leadingFraction :: "bool \<Rightarrow> int \<Rightarrow> int \<Rightarrow> string \<Rightarrow> int \<times> int \<times> string" where
  "leadingFraction over x scale [] = (x, scale, [])"
| "leadingFraction over x scale (c # cs) = (if \<not> is_digit c then (x, scale, c # cs)
     else if over \<or> (2 ^ 63 - 1) div 10 < x \<or> 2 ^ 63 < x * 10 + digit_val c
     then leadingFraction True x scale cs
     else leadingFraction False (x * 10 + digit_val c) (scale * 10) cs)"

definition unit_of :: "string \<Rightarrow> int option" where
  "unit_of u = map_of [(''ns'', 1), (''us'', 1000), ([CHR 0xC2, CHR 0xB5, CHR ''s''], 1000),
     ([CHR 0xCE, CHR 0xBC, CHR ''s''], 1000), (''ms'', 1000000), (''s'', 1000000000),
     (''m'', 60000000000), (''h'', 3600000000000)] u"

definition unit_char :: "char \<Rightarrow> bool" where
  "unit_char c \<longleftrightarrow> c \<noteq> CHR ''.'' \<and> \<not> is_digit c"

text \<open>\<open>v * unit + f * unit / scale\<close>, in \<open>uint64\<close> and \<open>float64\<close> as the library computes it.\<close>

definition segment_value :: "int \<Rightarrow> int \<Rightarrow> int \<Rightarrow> int \<Rightarrow> int option" where
  "segment_value v f scale u = (if 2 ^ 63 div u < v then None
     else let w = v * u + (if 0 < f
            then \<lfloor>fl64 (fl64 (of_int f) * fl64 (of_int u / of_int scale))\<rfloor> else 0)
       in if 2 ^ 63 < w then None else Some w)"

text \<open>One number with its unit, and the rest of the text.\<close>

definition segment :: "string \<Rightarrow> (int \<times> string) option" where
  "segment s = (case leadingInt 0 s of None \<Rightarrow> None
     | Some (v, s1) \<Rightarrow>
       let (f, scale, s2) = (if s1 \<noteq> [] \<and> hd s1 = CHR ''.''
              then leadingFraction False 0 1 (tl s1) else (0, 1, s1));
           pre = (length s1 \<noteq> length s);
           post = (s1 \<noteq> [] \<and> hd s1 = CHR ''.'' \<and> length s2 \<noteq> length (tl s1));
           u = takeWhile unit_char s2
       in if \<not> pre \<and> \<not> post then None
          else (case unit_of u of None \<Rightarrow> None
            | Some n \<Rightarrow> (case segment_value v f scale n of None \<Rightarrow> None
                | Some w \<Rightarrow> Some (w, dropWhile unit_char s2))))"

lemma leadingInt_length: "leadingInt x s = Some (v, r) \<Longrightarrow> length r \<le> length s"
  by (induction x s arbitrary: v r rule: leadingInt.induct) (fastforce split: if_splits)+

lemma leadingFraction_length:
  "leadingFraction b x sc s = (f, sc', r) \<Longrightarrow> length r \<le> length s"
  by (induction b x sc s arbitrary: f sc' r rule: leadingFraction.induct)
    (fastforce split: if_splits)+

lemma unit_of_Nil [simp]: "unit_of [] = None"
  by (simp add: unit_of_def)

lemma takeWhile_Nil_dropWhile: "takeWhile P s \<noteq> [] \<Longrightarrow> length (dropWhile P s) < length s"
  by (cases s) (auto simp: le_imp_less_Suc length_dropWhile_le split: if_splits)

text \<open>Every segment consumes at least its unit, so the loop over them ends.\<close>

lemma segment_shorter:
  assumes "segment s = Some (w, r)"
  shows "length r < length s"
proof -
  obtain v s1 where 1: "leadingInt 0 s = Some (v, s1)"
    using assms by (auto simp: segment_def split: option.splits)
  obtain f scale s2 where 2: "(if s1 \<noteq> [] \<and> hd s1 = CHR ''.''
      then leadingFraction False 0 1 (tl s1) else (0, 1, s1)) = (f, scale, s2)"
    by (metis prod_cases3)
  have "takeWhile unit_char s2 \<noteq> []" and r: "r = dropWhile unit_char s2"
    using assms by (auto simp: segment_def 1 2 Let_def split: option.splits if_splits)
  then have "length r < length s2" by (simp add: takeWhile_Nil_dropWhile)
  also have "length s2 \<le> length s1"
  proof (cases "s1 \<noteq> [] \<and> hd s1 = CHR ''.''")
    case True
    with 2 leadingFraction_length [of False 0 1 "tl s1" f scale s2] show ?thesis by simp
  next
    case False
    with 2 have "s2 = s1" by (simp split: if_splits)
    then show ?thesis by simp
  qed
  also have "length s1 \<le> length s" using leadingInt_length [OF 1] .
  finally show ?thesis .
qed

function segments :: "int \<Rightarrow> string \<Rightarrow> int option" where
  "segments d s = (if s = [] then Some d
     else if \<not> (hd s = CHR ''.'' \<or> is_digit (hd s)) then None
     else (case segment s of None \<Rightarrow> None
       | Some (w, r) \<Rightarrow> let d' = (d + w) mod 2 ^ 64 in
           if 2 ^ 63 < d' then None else segments d' r))"
  by pat_completeness auto

termination
  by (relation "measure (\<lambda>(d, s). length s)") (auto dest: segment_shorter)

declare segments.simps [simp del]

definition ParseDuration :: "string \<Rightarrow> int option" where
  "ParseDuration s = (let neg = (s \<noteq> [] \<and> hd s = CHR ''-'');
       s' = (if s \<noteq> [] \<and> (hd s = CHR ''-'' \<or> hd s = CHR ''+'') then tl s else s)
     in if s' = ''0'' then Some 0 else if s' = [] then None
        else (case segments 0 s' of None \<Rightarrow> None
          | Some d \<Rightarrow> if neg then Some (wrap64 (- wrap64 d))
              else if 2 ^ 63 - 1 < d then None else Some d))"

subsection \<open>Reading the environment\<close>

definition getEnv :: "getenv \<Rightarrow> string \<Rightarrow> string \<Rightarrow> string" where
  "getEnv env key defaultValue = (if env key \<noteq> [] then env key else defaultValue)"

definition getEnvBool :: "getenv \<Rightarrow> string \<Rightarrow> bool \<Rightarrow> bool" where
  "getEnvBool env key defaultValue = (if env key = [] then defaultValue
     else to_lower (env key) \<in> {''true'', ''1'', ''yes''})"

definition getEnvInt :: "getenv \<Rightarrow> string \<Rightarrow> int \<Rightarrow> int" where
  "getEnvInt env key defaultValue = (if env key = [] then defaultValue
     else case Atoi (env key) of None \<Rightarrow> defaultValue | Some n \<Rightarrow> n)"

definition getEnvFloat :: "getenv \<Rightarrow> string \<Rightarrow> gofloat \<Rightarrow> gofloat" where
  "getEnvFloat env key defaultValue = (if env key = [] then defaultValue
     else case ParseFloat (env key) of None \<Rightarrow> defaultValue | Some x \<Rightarrow> x)"

definition getEnvDuration :: "getenv \<Rightarrow> string \<Rightarrow> int \<Rightarrow> int" where
  "getEnvDuration env key defaultValue = (if env key = [] then defaultValue
     else case ParseDuration (env key) of None \<Rightarrow> defaultValue
       | Some d \<Rightarrow> if d \<le> 0 then defaultValue else d)"

text \<open>\<open>int(d.Seconds())\<close>: whole seconds plus the fraction, as a \<open>float64\<close>, cut off.\<close>

definition trunc :: "rat \<Rightarrow> int" where
  "trunc x = (if 0 \<le> x then \<lfloor>x\<rfloor> else \<lceil>x\<rceil>)"

definition quot :: "int \<Rightarrow> int \<Rightarrow> int" where "quot a b = sgn a * (\<bar>a\<bar> div b)"

definition Seconds :: "int \<Rightarrow> rat" where
  "Seconds d = (let sec = quot d (10 ^ 9); nsec = d - sec * 10 ^ 9
     in fl64 (fl64 (of_int sec) + fl64 (of_int nsec / 10 ^ 9)))"

definition getEnvDurationSecondsWithMax :: "getenv \<Rightarrow> string \<Rightarrow> int \<Rightarrow> int \<Rightarrow> int" where
  "getEnvDurationSecondsWithMax env key defaultValueSeconds maxSeconds =
     (if env key = [] then defaultValueSeconds
      else case ParseDuration (env key) of None \<Rightarrow> defaultValueSeconds
        | Some d \<Rightarrow> let seconds = trunc (Seconds d) in
            if seconds \<le> 0 \<or> maxSeconds < seconds then defaultValueSeconds else seconds)"

definition getEnvDurationSeconds :: "getenv \<Rightarrow> string \<Rightarrow> int \<Rightarrow> int" where
  "getEnvDurationSeconds env key defaultValueSeconds = (if env key = [] then defaultValueSeconds
      else case ParseDuration (env key) of None \<Rightarrow> defaultValueSeconds
        | Some d \<Rightarrow> let seconds = trunc (Seconds d) in
            if seconds \<le> 0 \<or> 60 < seconds then defaultValueSeconds else seconds)"

definition getEnvOptionalDuration :: "getenv \<Rightarrow> string \<Rightarrow> int" where
  "getEnvOptionalDuration env key = (case ParseDuration (env key) of None \<Rightarrow> 0
     | Some d \<Rightarrow> if d < 0 then 0 else d)"

subsection \<open>The configuration\<close>

record ServiceConfig =
  sc_Name :: string
  sc_Port :: string
  sc_Version :: string
  sc_Env :: string

record TracingConfig =
  tc_Enabled :: bool
  tc_Endpoint :: string
  tc_SampleRate :: gofloat
  tc_ServiceName :: string

record ProfilingConfig =
  fc_Enabled :: bool
  fc_Endpoint :: string
  fc_ServiceName :: string

record LoggingConfig =
  lc_Level :: string
  lc_Format :: string

record CacheConfig =
  cc_Enabled :: bool
  cc_Host :: string
  cc_Port :: string
  cc_Password :: string
  cc_DB :: int
  cc_TTLProductList :: int
  cc_TTLProductDetail :: int

record DatabaseConfig =
  db_Host :: string
  db_Port :: string
  db_Name :: string
  db_User :: string
  db_Password :: string
  db_PasswordFile :: string
  db_SSLMode :: string
  db_MaxConnections :: int
  db_MaxConnLifetime :: int
  db_HealthCheckPeriod :: int
  db_ReadReplica :: bool
  db_PoolMode :: string
  db_PoolerType :: string

record GRPCConfig =
  gc_Port :: string

record Config =
  Service :: ServiceConfig
  Tracing :: TracingConfig
  Profiling :: ProfilingConfig
  Logging :: LoggingConfig
  Database :: DatabaseConfig
  Cache :: CacheConfig
  GRPC :: GRPCConfig
  ShutdownTimeout :: int
  ReadinessDrainDelay :: int
  ReviewGRPCAddr :: string
  OIDCStaffIssuer :: string
  OIDCAudience :: string
  OIDCStaffJWKSURL :: string
  InventoryGRPCAddr :: string

definition defaultServiceName :: string where "defaultServiceName = ''unknown''"

definition Load :: "getenv \<Rightarrow> Config" where
  "Load env = \<lparr>
     Service = \<lparr> sc_Name = getEnv env ''SERVICE_NAME'' defaultServiceName,
       sc_Port = getEnv env ''PORT'' ''8080'', sc_Version = getEnv env ''VERSION'' ''dev'',
       sc_Env = getEnv env ''ENV'' ''development'' \<rparr>,
     Tracing = \<lparr> tc_Enabled = getEnvBool env ''TRACING_ENABLED'' True,
       tc_Endpoint = getEnv env ''OTEL_COLLECTOR_ENDPOINT''
         ''otel-collector-opentelemetry-collector.monitoring.svc.cluster.local:4318'',
       tc_SampleRate = getEnvFloat env ''OTEL_SAMPLE_RATE'' (Fin (fl64 (1 / 10))),
       tc_ServiceName = getEnv env ''SERVICE_NAME'' defaultServiceName \<rparr>,
     Profiling = \<lparr> fc_Enabled = getEnvBool env ''PROFILING_ENABLED'' True,
       fc_Endpoint = getEnv env ''PYROSCOPE_ENDPOINT''
         ''http://pyroscope.monitoring.svc.cluster.local:4040'',
       fc_ServiceName = getEnv env ''SERVICE_NAME'' ''unknown'' \<rparr>,
     Logging = \<lparr> lc_Level = getEnv env ''LOG_LEVEL'' ''info'',
       lc_Format = getEnv env ''LOG_FORMAT'' ''json'' \<rparr>,
     Database = \<lparr> db_Host = getEnv env ''DB_HOST'' [], db_Port = getEnv env ''DB_PORT'' ''5432'',
       db_Name = getEnv env ''DB_NAME'' [], db_User = getEnv env ''DB_USER'' [],
       db_Password = getEnv env ''DB_PASSWORD'' [],
       db_PasswordFile = getEnv env ''DB_PASSWORD_FILE'' [],
       db_SSLMode = getEnv env ''DB_SSLMODE'' ''disable'',
       db_MaxConnections = getEnvInt env ''DB_POOL_MAX_CONNECTIONS'' 25,
       db_MaxConnLifetime = getEnvOptionalDuration env ''DB_POOL_MAX_CONN_LIFETIME'',
       db_HealthCheckPeriod = getEnvOptionalDuration env ''DB_POOL_HEALTH_CHECK_PERIOD'',
       db_ReadReplica = getEnvBool env ''DB_READ_REPLICA'' False,
       db_PoolMode = getEnv env ''DB_POOL_MODE'' [],
       db_PoolerType = getEnv env ''DB_POOLER_TYPE'' [] \<rparr>,
     Cache = \<lparr> cc_Enabled = getEnvBool env ''CACHE_ENABLED'' True,
       cc_Host = getEnv env ''CACHE_HOST'' ''valkey.cache-system.svc.cluster.local'',
       cc_Port = getEnv env ''CACHE_PORT'' ''6379'',
       cc_Password = getEnv env ''CACHE_PASSWORD'' [],
       cc_DB = getEnvInt env ''CACHE_DB'' 0,
       cc_TTLProductList = getEnvDuration env ''CACHE_TTL_PRODUCT_LIST'' 300000000000,
       cc_TTLProductDetail = getEnvDuration env ''CACHE_TTL_PRODUCT_DETAIL'' 600000000000 \<rparr>,
     GRPC = \<lparr> gc_Port = getEnv env ''GRPC_PORT'' ''9090'' \<rparr>,
     ShutdownTimeout = getEnvDurationSeconds env ''SHUTDOWN_TIMEOUT'' 10,
     ReadinessDrainDelay = getEnvDurationSecondsWithMax env ''READINESS_DRAIN_DELAY'' 5 30,
     ReviewGRPCAddr = getEnv env ''REVIEW_GRPC_ADDR''
       ''dns:///review.review.svc.cluster.local:9090'',
     OIDCStaffIssuer = getEnv env ''OIDC_STAFF_ISSUER''
       ''https://id.duynh.me/realms/duynhlab-staff'',
     OIDCAudience = getEnv env ''OIDC_AUDIENCE'' ''duynhlab-platform'',
     OIDCStaffJWKSURL = getEnv env ''OIDC_STAFF_JWKS_URL'' [],
     InventoryGRPCAddr = getEnv env ''INVENTORY_GRPC_ADDR''
       ''dns:///inventory-grpc.inventory.svc.cluster.local:9090'' \<rparr>"

definition GetShutdownTimeoutDuration :: "Config \<Rightarrow> int" where
  "GetShutdownTimeoutDuration c = wrap64 (ShutdownTimeout c * 1000000000)"

definition GetReadinessDrainDelayDuration :: "Config \<Rightarrow> int" where
  "GetReadinessDrainDelayDuration c = wrap64 (ReadinessDrainDelay c * 1000000000)"

definition IsDevelopment :: "Config \<Rightarrow> bool" where
  "IsDevelopment c = (to_lower (sc_Env (Service c)) \<in> {''development'', ''dev''})"

definition IsProduction :: "Config \<Rightarrow> bool" where
  "IsProduction c = (to_lower (sc_Env (Service c)) \<in> {''production'', ''prod''})"

subsection \<open>Validation\<close>

text \<open>
  \<open>strings.EqualFold\<close> against an ASCII text: letters fold to lower case, and the two runes
  beyond ASCII that fold to a letter, the long s and the Kelvin sign, count as that letter.
\<close>

fun fold_text :: "string \<Rightarrow> string" where
  "fold_text (a # b # c # cs) =
     (if a = CHR 0xC5 \<and> b = CHR 0xBF then CHR ''s'' # fold_text (c # cs)
      else if a = CHR 0xE2 \<and> b = CHR 0x84 \<and> c = CHR 0xAA then CHR ''k'' # fold_text cs
      else ascii_lower a # fold_text (b # c # cs))"
| "fold_text [a, b] = (if a = CHR 0xC5 \<and> b = CHR 0xBF then ''s''
     else [ascii_lower a, ascii_lower b])"
| "fold_text [a] = [ascii_lower a]"
| "fold_text [] = []"

definition EqualFold :: "string \<Rightarrow> string \<Rightarrow> bool" where
  "EqualFold s t \<longleftrightarrow> fold_text s = fold_text t"

definition contains :: "string list \<Rightarrow> string \<Rightarrow> bool" where
  "contains slice item \<longleftrightarrow> list_ex (\<lambda>s. EqualFold s item) slice"

datatype issue = Name_required | Port_required | Port_not_number string | Env_invalid string
  | Otel_endpoint_required | Sample_rate_range gofloat | Tracing_name_required
  | Pyroscope_endpoint_required | Profiling_name_required
  | Log_level_invalid string | Log_format_invalid string
  | DB_name_required | DB_user_required | DB_password_required | DB_port_not_number string
  | Cache_host_required | Cache_port_not_number string | Cache_DB_negative int

definition complain :: "bool \<Rightarrow> issue \<Rightarrow> issue list" where
  "complain bad i = (if bad then [i] else [])"

definition validEnvs :: "string list" where
  "validEnvs = [''development'', ''dev'', ''staging'', ''stage'', ''production'', ''prod'']"

definition Validate :: "Config \<Rightarrow> issue list" where
  "Validate c =
     complain (sc_Name (Service c) = [] \<or> sc_Name (Service c) = defaultServiceName) Name_required @
     complain (sc_Port (Service c) = []) Port_required @
     complain (Atoi (sc_Port (Service c)) = None) (Port_not_number (sc_Port (Service c))) @
     complain (\<not> contains validEnvs (sc_Env (Service c))) (Env_invalid (sc_Env (Service c))) @
     (if tc_Enabled (Tracing c) then
        complain (tc_Endpoint (Tracing c) = []) Otel_endpoint_required @
        complain (tc_SampleRate (Tracing c) < Fin 0 \<or> Fin 1 < tc_SampleRate (Tracing c))
          (Sample_rate_range (tc_SampleRate (Tracing c))) @
        complain (tc_ServiceName (Tracing c) = [] \<or> tc_ServiceName (Tracing c) = defaultServiceName)
          Tracing_name_required
      else []) @
     (if fc_Enabled (Profiling c) then
        complain (fc_Endpoint (Profiling c) = []) Pyroscope_endpoint_required @
        complain (fc_ServiceName (Profiling c) = []
            \<or> fc_ServiceName (Profiling c) = defaultServiceName) Profiling_name_required
      else []) @
     complain (\<not> contains [''debug'', ''info'', ''warn'', ''error''] (to_lower (lc_Level (Logging c))))
       (Log_level_invalid (lc_Level (Logging c))) @
     complain (\<not> contains [''json'', ''console''] (to_lower (lc_Format (Logging c))))
       (Log_format_invalid (lc_Format (Logging c))) @
     (if db_Host (Database c) \<noteq> [] then
        complain (db_Name (Database c) = []) DB_name_required @
        complain (db_User (Database c) = []) DB_user_required @
        complain (db_Password (Database c) = [] \<and> db_PasswordFile (Database c) = [])
          DB_password_required @
        complain (db_Port (Database c) \<noteq> [] \<and> Atoi (db_Port (Database c)) = None)
          (DB_port_not_number (db_Port (Database c)))
      else []) @
     (if cc_Enabled (Cache c) then
        complain (cc_Host (Cache c) = []) Cache_host_required @
        complain (cc_Port (Cache c) \<noteq> [] \<and> Atoi (cc_Port (Cache c)) = None)
          (Cache_port_not_number (cc_Port (Cache c))) @
        complain (cc_DB (Cache c) < 0) (Cache_DB_negative (cc_DB (Cache c)))
      else [])"

end
