(* ===== verification/Dsn.thy ===== *)
theory Dsn
  imports Config
begin

section \<open>Connection strings\<close>

text \<open>
  \<open>DatabaseConfig.BuildDSN\<close> of \<open>config/config.go\<close> and \<open>replicaDSN\<close> of
  \<open>internal/core/database.go\<close>, over the escaping of \<open>net/url\<close> and \<open>net.JoinHostPort\<close>. The
  reference reader takes a connection URL apart again, and reading back what was built gives
  every field of the configuration.
\<close>

subsection \<open>Escaping\<close>

datatype mode = encodePath | encodeUserPassword | encodeHost | encodeQueryComponent

definition is_alnum :: "char \<Rightarrow> bool" where
  "is_alnum c = (let n = (of_char c :: nat) in
     (97 \<le> n \<and> n \<le> 122) \<or> (65 \<le> n \<and> n \<le> 90) \<or> (48 \<le> n \<and> n \<le> 57))"

definition shouldEscape :: "mode \<Rightarrow> char \<Rightarrow> bool" where
  "shouldEscape m c = (if is_alnum c then False
     else if m = encodeHost \<and> c \<in> set ''!$&'' \<union> {CHR 0x27} \<union> set ''()*+,;=:[]<>'' \<union> {CHR 0x22} then False
     else if c \<in> set ''-_.~'' then False
     else if c \<in> set ''$&+,/:;=?@'' then
       (case m of encodePath \<Rightarrow> c = CHR ''?''
        | encodeUserPassword \<Rightarrow> c \<in> set ''@/?:''
        | encodeHost \<Rightarrow> True
        | encodeQueryComponent \<Rightarrow> True)
     else True)"

definition upperhex :: "nat \<Rightarrow> char" where "upperhex n = ''0123456789ABCDEF'' ! n"

definition escape_char :: "mode \<Rightarrow> char \<Rightarrow> string" where
  "escape_char m c = (if \<not> shouldEscape m c then [c]
     else if c = CHR '' '' \<and> m = encodeQueryComponent then ''+''
     else [CHR ''%'', upperhex (of_char c div 16), upperhex (of_char c mod 16)])"

definition escape :: "mode \<Rightarrow> string \<Rightarrow> string" where
  "escape m s = concat (map (escape_char m) s)"

definition QueryEscape :: "string \<Rightarrow> string" where
  "QueryEscape s = escape encodeQueryComponent s"

definition JoinHostPort :: "string \<Rightarrow> string \<Rightarrow> string" where
  "JoinHostPort host port = (if CHR '':'' \<in> set host then ''['' @ host @ '']:'' @ port
     else host @ '':'' @ port)"

text \<open>\<open>url.URL.String\<close> for a URL with a user, a password, a host, a rooted path and a query.\<close>

definition url_String :: "string \<Rightarrow> string \<Rightarrow> string \<Rightarrow> string \<Rightarrow> string \<Rightarrow> string \<Rightarrow> string" where
  "url_String scheme user password host path rawQuery =
     scheme @ ''://'' @ escape encodeUserPassword user @ '':'' @ escape encodeUserPassword password @
     ''@'' @ escape encodeHost host @ escape encodePath path @
     (if rawQuery = [] then [] else ''?'' @ rawQuery)"

definition BuildDSN :: "DatabaseConfig \<Rightarrow> string" where
  "BuildDSN c = url_String ''postgresql'' (db_User c) (db_Password c)
     (JoinHostPort (db_Host c) (db_Port c)) (''/'' @ db_Name c)
     (''sslmode='' @ QueryEscape (db_SSLMode c))"

definition replicaDSN :: "DatabaseConfig \<Rightarrow> string" where
  "replicaDSN c = BuildDSN c @ ''&options='' @ QueryEscape ''-c pgdog.role=replica''"

subsection \<open>A reader of connection URLs\<close>

definition unhex :: "char \<Rightarrow> nat option" where
  "unhex c = (let n = (of_char c :: nat) in
     if 48 \<le> n \<and> n \<le> 57 then Some (n - 48)
     else if 65 \<le> n \<and> n \<le> 70 then Some (n - 55)
     else if 97 \<le> n \<and> n \<le> 102 then Some (n - 87) else None)"

fun unescape :: "bool \<Rightarrow> string \<Rightarrow> string option" where
  "unescape form [] = Some []"
| "unescape form (c # cs) =
     (if c = CHR ''%'' then
        (case cs of a # b # rest \<Rightarrow> (case (unhex a, unhex b) of
             (Some i, Some j) \<Rightarrow> map_option (Cons (char_of (16 * i + j))) (unescape form rest)
           | _ \<Rightarrow> None)
         | _ \<Rightarrow> None)
      else map_option (Cons (if form \<and> c = CHR ''+'' then CHR '' '' else c)) (unescape form cs))"

definition cut_at :: "char \<Rightarrow> string \<Rightarrow> (string \<times> string) option" where
  "cut_at c s = (if c \<in> set s then Some (takeWhile (\<lambda>x. x \<noteq> c) s, tl (dropWhile (\<lambda>x. x \<noteq> c) s))
     else None)"

definition cut_last :: "char \<Rightarrow> string \<Rightarrow> (string \<times> string) option" where
  "cut_last c s = map_option (\<lambda>(a, b). (rev b, rev a)) (cut_at c (rev s))"

fun split_on :: "char \<Rightarrow> string \<Rightarrow> string list" where
  "split_on c [] = [[]]"
| "split_on c (x # xs) = (if x = c then [] # split_on c xs
     else (case split_on c xs of [] \<Rightarrow> [[x]] | w # ws \<Rightarrow> (x # w) # ws))"

definition read_pair :: "string \<Rightarrow> (string \<times> string) option" where
  "read_pair s = (case cut_at (CHR ''='') s of None \<Rightarrow> None
     | Some (k, v) \<Rightarrow> (case (unescape True k, unescape True v) of
         (Some k', Some v') \<Rightarrow> Some (k', v') | _ \<Rightarrow> None))"

definition read_query :: "string \<Rightarrow> (string \<times> string) list option" where
  "read_query q = those (map read_pair (split_on (CHR ''&'') q))"

definition unbracket :: "string \<Rightarrow> string" where
  "unbracket h = (if h \<noteq> [] \<and> hd h = CHR ''['' then butlast (tl h) else h)"

record dsn_parts =
  dp_user :: string
  dp_password :: string
  dp_host :: string
  dp_port :: string
  dp_name :: string
  dp_params :: "(string \<times> string) list"

definition read_location :: "string \<Rightarrow> (string \<times> string \<times> string \<times> string \<times> string) option" where
  "read_location loc = (case cut_at (CHR ''/'') loc of None \<Rightarrow> None
     | Some (authority, name) \<Rightarrow> (case cut_last (CHR ''@'') authority of None \<Rightarrow> None
       | Some (userinfo, hostport) \<Rightarrow> (case cut_at (CHR '':'') userinfo of None \<Rightarrow> None
         | Some (user, password) \<Rightarrow> (case cut_last (CHR '':'') hostport of None \<Rightarrow> None
           | Some (host, port) \<Rightarrow>
             (case (unescape False user, unescape False password, unescape False host,
                 unescape False port, unescape False name) of
               (Some u, Some p, Some h, Some pt, Some n) \<Rightarrow> Some (u, p, unbracket h, pt, n)
             | _ \<Rightarrow> None)))))"

definition read_dsn :: "string \<Rightarrow> dsn_parts option" where
  "read_dsn s = (if take 13 s \<noteq> ''postgresql://'' then None
     else case cut_at (CHR ''?'') (drop 13 s) of None \<Rightarrow> None
       | Some (loc, query) \<Rightarrow> (case (read_location loc, read_query query) of
           (Some (u, p, h, pt, n), Some ps) \<Rightarrow>
             Some \<lparr> dp_user = u, dp_password = p, dp_host = h, dp_port = pt, dp_name = n,
                dp_params = ps \<rparr>
         | _ \<Rightarrow> None))"

subsection \<open>Reading back what was escaped\<close>

lemma unhex_upperhex: "n < 16 \<Longrightarrow> unhex (upperhex n) = Some n"
proof -
  have "\<forall>n<16. unhex (upperhex n) = Some n" by code_simp
  then show "n < 16 \<Longrightarrow> ?thesis" by blast
qed

lemma upperhex_alnum: "n < 16 \<Longrightarrow> is_alnum (upperhex n)"
proof -
  have "\<forall>n<16. is_alnum (upperhex n)" by code_simp
  then show "n < 16 \<Longrightarrow> ?thesis" by blast
qed

lemma byte_div: "(of_char c :: nat) div 16 < 16"
  by (rule less_mult_imp_div_less) simp

lemma byte_hex: "char_of (16 * ((of_char c :: nat) div 16) + of_char c mod 16) = c"
  by simp

lemma reserved_escaped:
  "shouldEscape m (CHR ''%'')" "shouldEscape encodeQueryComponent (CHR ''+'')"
  by (simp_all add: shouldEscape_def is_alnum_def)

lemma unescape_cons:
  "c \<noteq> CHR ''%'' \<Longrightarrow> unescape form (c # cs) =
     map_option (Cons (if form \<and> c = CHR ''+'' then CHR '' '' else c)) (unescape form cs)"
  by simp

lemma unescape_byte:
  "unescape form (CHR ''%'' # upperhex (of_char c div 16) # upperhex (of_char c mod 16) # cs) =
     map_option (Cons c) (unescape form cs)"
  by (simp add: unhex_upperhex byte_div byte_hex)

lemma unescape_escape_char:
  assumes "form \<longleftrightarrow> m = encodeQueryComponent"
  shows "unescape form (escape_char m c @ cs) = map_option (Cons c) (unescape form cs)"
proof (cases "shouldEscape m c")
  case False
  then have "c \<noteq> CHR ''%''" and "\<not> (form \<and> c = CHR ''+'')"
    using reserved_escaped assms by auto
  with False show ?thesis by (auto simp: escape_char_def)
next
  case True
  show ?thesis
  proof (cases "c = CHR '' '' \<and> m = encodeQueryComponent")
    case True
    with \<open>shouldEscape m c\<close> assms show ?thesis by (simp add: escape_char_def)
  next
    case False
    with True show ?thesis by (simp only: escape_char_def append.simps simp_thms if_False if_True unescape_byte)
  qed
qed

lemma unescape_escape [simp]:
  assumes "form \<longleftrightarrow> m = encodeQueryComponent"
  shows "unescape form (escape m s) = Some s"
proof (induction s)
  case (Cons c s)
  have "escape m (c # s) = escape_char m c @ escape m s" by (simp add: escape_def)
  with Cons show ?case by (simp only: unescape_escape_char [OF assms]) simp
qed (simp add: escape_def)

lemma escape_append: "escape m (s @ t) = escape m s @ escape m t"
  by (simp add: escape_def)

subsection \<open>Separators do not survive escaping\<close>

lemma set_escape_char:
  "set (escape_char m c) \<subseteq>
     {c. \<not> shouldEscape m c} \<inter> {c} \<union> {x. is_alnum x} \<union> {CHR ''%'', CHR ''+''}"
  using upperhex_alnum [OF byte_div, of c] upperhex_alnum [of "of_char c mod 16"]
  by (auto simp: escape_char_def)

lemma not_in_escape:
  assumes "\<not> is_alnum x" and "x \<noteq> CHR ''%''" and "x \<noteq> CHR ''+''"
    and "shouldEscape m x \<or> x \<notin> set s"
  shows "x \<notin> set (escape m s)"
  using assms set_escape_char [of m] by (fastforce simp: escape_def)

lemma cut_at_append: "c \<notin> set a \<Longrightarrow> cut_at c (a @ c # b) = Some (a, b)"
  by (induction a) (auto simp: cut_at_def)

lemma cut_last_append:
  assumes "c \<notin> set b"
  shows "cut_last c (a @ c # b) = Some (a, b)"
  using cut_at_append [of c "rev b" "rev a"] assms by (simp add: cut_last_def)

lemma split_on_append: "c \<notin> set a \<Longrightarrow> split_on c (a @ c # b) = a # split_on c b"
  by (induction a) auto

lemma split_on_word: "c \<notin> set a \<Longrightarrow> split_on c a = [a]"
  by (induction a) auto

lemma reserved_not_alnum:
  "\<not> is_alnum (CHR '':'')" "\<not> is_alnum (CHR ''@'')" "\<not> is_alnum (CHR ''/'')"
  "\<not> is_alnum (CHR ''?'')" "\<not> is_alnum (CHR ''&'')" "\<not> is_alnum (CHR ''='')"
  by (simp_all add: is_alnum_def)

lemma userinfo_separators:
  "CHR '':'' \<notin> set (escape encodeUserPassword s)" "CHR ''@'' \<notin> set (escape encodeUserPassword s)"
  "CHR ''/'' \<notin> set (escape encodeUserPassword s)" "CHR ''?'' \<notin> set (escape encodeUserPassword s)"
  by (rule not_in_escape; simp add: reserved_not_alnum shouldEscape_def)+

lemma host_separators:
  "CHR ''@'' \<notin> set (escape encodeHost s)" "CHR ''/'' \<notin> set (escape encodeHost s)"
  "CHR ''?'' \<notin> set (escape encodeHost s)"
  by (rule not_in_escape; simp add: reserved_not_alnum shouldEscape_def)+

lemma path_separators: "CHR ''?'' \<notin> set (escape encodePath s)"
  by (rule not_in_escape; simp add: reserved_not_alnum shouldEscape_def)

lemma query_separators:
  "CHR ''&'' \<notin> set (QueryEscape s)" "CHR ''='' \<notin> set (QueryEscape s)"
  unfolding QueryEscape_def by (rule not_in_escape; simp add: reserved_not_alnum shouldEscape_def)+

lemmas separators = userinfo_separators host_separators path_separators query_separators

lemma read_pair_escape:
  assumes "set k \<subseteq> {c. is_alnum c}"
  shows "read_pair (k @ ''='' @ QueryEscape v) = Some (k, v)"
proof -
  have e: "escape encodeQueryComponent k = k"
    using assms by (induction k) (auto simp: escape_def escape_char_def shouldEscape_def)
  have "CHR ''='' \<notin> set k" using assms reserved_not_alnum by auto
  then have "cut_at (CHR ''='') (k @ ''='' @ QueryEscape v) = Some (k, QueryEscape v)"
    by (simp add: cut_at_append)
  moreover have "unescape True k = Some k"
    using unescape_escape [of True encodeQueryComponent k] unfolding e by simp
  ultimately show ?thesis by (simp add: read_pair_def QueryEscape_def)
qed

lemma escape_Cons: "escape m (c # s) = escape_char m c @ escape m s"
  by (simp add: escape_def)

lemma read_location:
  assumes "CHR '':'' \<notin> set port" and "CHR '':'' \<notin> set host \<Longrightarrow> take 1 host \<noteq> ''[''"
  shows "read_location (escape encodeUserPassword user @ '':'' @ escape encodeUserPassword password @
      ''@'' @ escape encodeHost (JoinHostPort host port) @ ''/'' @ escape encodePath nm) =
     Some (user, password, host, port, nm)"
proof -
  let ?b = "if CHR '':'' \<in> set host then ''['' @ host @ '']'' else host"
  let ?e = "escape encodeUserPassword"
  have j: "JoinHostPort host port = ?b @ '':'' @ port" by (simp add: JoinHostPort_def)
  have c: "escape_char encodeHost (CHR '':'') = '':''"
    by (simp add: escape_char_def shouldEscape_def)
  have h: "escape encodeHost (JoinHostPort host port) =
      escape encodeHost ?b @ CHR '':'' # escape encodeHost port"
    unfolding j by (simp add: escape_append escape_Cons c del: if_split)
  have p: "CHR '':'' \<notin> set (escape encodeHost port)"
    by (rule not_in_escape) (simp_all add: reserved_not_alnum assms)
  have 1: "cut_at (CHR ''/'') ((?e user @ '':'' @ ?e password @ ''@'' @
      escape encodeHost (JoinHostPort host port)) @ CHR ''/'' # escape encodePath nm) =
    Some (?e user @ '':'' @ ?e password @ ''@'' @ escape encodeHost (JoinHostPort host port),
      escape encodePath nm)"
    by (rule cut_at_append) (simp add: separators)
  have 2: "cut_last (CHR ''@'') ((?e user @ '':'' @ ?e password) @
      CHR ''@'' # escape encodeHost (JoinHostPort host port)) =
    Some (?e user @ '':'' @ ?e password, escape encodeHost (JoinHostPort host port))"
    by (rule cut_last_append) (simp add: separators)
  have 3: "cut_at (CHR '':'') (?e user @ CHR '':'' # ?e password) = Some (?e user, ?e password)"
    by (rule cut_at_append) (simp add: separators)
  have 4: "cut_last (CHR '':'') (escape encodeHost (JoinHostPort host port)) =
    Some (escape encodeHost ?b, escape encodeHost port)"
    unfolding h by (rule cut_last_append) (rule p)
  have 5: "unbracket ?b = host"
    using assms(2) by (cases host) (auto simp: unbracket_def)
  show ?thesis
    unfolding read_location_def using 1 2 3 4 5
    by (simp del: if_split add: append_Cons append_assoc)
qed

lemma read_dsn:
  assumes "CHR '':'' \<notin> set (db_Port c)"
    and "CHR '':'' \<notin> set (db_Host c) \<Longrightarrow> take 1 (db_Host c) \<noteq> ''[''"
    and "read_query (''sslmode='' @ QueryEscape (db_SSLMode c) @ extra) = Some ps"
  shows "read_dsn (BuildDSN c @ extra) = Some \<lparr> dp_user = db_User c, dp_password = db_Password c,
     dp_host = db_Host c, dp_port = db_Port c, dp_name = db_Name c, dp_params = ps \<rparr>"
proof -
  let ?loc = "escape encodeUserPassword (db_User c) @ '':'' @ escape encodeUserPassword (db_Password c) @
      ''@'' @ escape encodeHost (JoinHostPort (db_Host c) (db_Port c)) @ ''/'' @
      escape encodePath (db_Name c)"
  let ?q = "''sslmode='' @ QueryEscape (db_SSLMode c) @ extra"
  have s: "escape_char encodePath (CHR ''/'') = ''/''"
    by (simp add: escape_char_def shouldEscape_def)
  have b: "BuildDSN c @ extra = ''postgresql://'' @ ?loc @ CHR ''?'' # ?q"
    by (simp add: BuildDSN_def url_String_def escape_Cons s)
  have "cut_at (CHR ''?'') (?loc @ CHR ''?'' # ?q) = Some (?loc, ?q)"
    by (rule cut_at_append) (simp add: separators)
  then show ?thesis
    unfolding read_dsn_def b using read_location [OF assms(1,2)] assms(3) by simp
qed

text \<open>
  C27. Whatever bytes a user, a password, a database name and an SSL mode hold (a rotated secret
  with \<open>@\<close>, \<open>/\<close>, \<open>:\<close>, \<open>?\<close>, \<open>%\<close> or spaces included), reading back the connection string the
  service and its \<open>migrate\<close> command share gives exactly those fields, for every port without a
  colon and every host that is not already bracketed; and the replica string reads back as the
  same connection with the one extra start-up option that asks PgDog for a replica.
\<close>

theorem dsn_roundtrip:
  assumes "CHR '':'' \<notin> set (db_Port c)"
    and "CHR '':'' \<notin> set (db_Host c) \<Longrightarrow> take 1 (db_Host c) \<noteq> ''[''"
  shows "read_dsn (BuildDSN c) = Some \<lparr> dp_user = db_User c, dp_password = db_Password c,
       dp_host = db_Host c, dp_port = db_Port c, dp_name = db_Name c,
       dp_params = [(''sslmode'', db_SSLMode c)] \<rparr> \<and>
     read_dsn (replicaDSN c) = map_option (\<lambda>d. d\<lparr>dp_params :=
       dp_params d @ [(''options'', ''-c pgdog.role=replica'')]\<rparr>) (read_dsn (BuildDSN c))"
proof -
  let ?s = "''sslmode='' @ QueryEscape (db_SSLMode c)"
  let ?r = "''-c pgdog.role=replica''"
  have p1: "read_pair ?s = Some (''sslmode'', db_SSLMode c)"
    using read_pair_escape [of "''sslmode''" "db_SSLMode c"] by (simp add: is_alnum_def)
  have p2: "read_pair (''options='' @ QueryEscape ?r) = Some (''options'', ?r)"
    using read_pair_escape [of "''options''" ?r] by (simp add: is_alnum_def)
  have s: "CHR ''&'' \<notin> set ?s" and o: "CHR ''&'' \<notin> set (''options='' @ QueryEscape ?r)"
    by (simp_all add: separators)
  have q1: "read_query (?s @ []) = Some [(''sslmode'', db_SSLMode c)]"
    using p1 split_on_word [OF s] by (simp add: read_query_def)
  have q2: "read_query (?s @ ''&options='' @ QueryEscape ?r) =
      Some [(''sslmode'', db_SSLMode c), (''options'', ?r)]"
    using p1 p2 split_on_append [OF s, of "''options='' @ QueryEscape ?r"] split_on_word [OF o]
    by (simp add: read_query_def)
  show ?thesis
    using read_dsn [OF assms, of "[]"] read_dsn [OF assms, of "''&options='' @ QueryEscape ?r"] q1 q2
    by (simp add: replicaDSN_def)
qed

definition rotated_db :: DatabaseConfig where
  "rotated_db = \<lparr> db_Host = ''::1'', db_Port = ''5432'', db_Name = ''product'', db_User = ''app'',
     db_Password = ''p@ss/w:rd?%'', db_PasswordFile = [], db_SSLMode = ''disable'',
     db_MaxConnections = 25, db_MaxConnLifetime = 0, db_HealthCheckPeriod = 0,
     db_ReadReplica = True, db_PoolMode = [], db_PoolerType = [] \<rparr>"

theorem dsn_roundtrip_witness:
  "BuildDSN rotated_db =
     ''postgresql://app:p%40ss%2Fw%3Ard%3F%25@[::1]:5432/product?sslmode=disable'' \<and>
   map_option dp_password (read_dsn (BuildDSN rotated_db)) = Some ''p@ss/w:rd?%'' \<and>
   map_option dp_params (read_dsn (replicaDSN rotated_db)) =
     Some [(''sslmode'', ''disable''), (''options'', ''-c pgdog.role=replica'')]"
proof -
  have "BuildDSN rotated_db =
     ''postgresql://app:p%40ss%2Fw%3Ard%3F%25@[::1]:5432/product?sslmode=disable''"
    by code_simp
  then show ?thesis
    using dsn_roundtrip [of rotated_db] by (simp add: rotated_db_def)
qed

end
