(* ===== verification/Startup.thy ===== *)
theory Startup
  imports Dsn Config Http_Protected Http_Spec Downstream_Clients
    "HOL-Library.List_Lexorder" "HOL-Library.Char_ord"
begin

section \<open>The process: subcommands, wiring and shutdown\<close>

text \<open>
  \<open>cmd/main.go\<close> and the two connectors of \<open>internal/core/database.go\<close>. The process is an
  action on a trace of events and a stack of deferred clean-ups; the error side is the way the
  process ends before its last line. What the other systems answer at start-up (the database,
  the cache server, the telemetry SDK, the dials, the verifier, the listeners) is a record of
  parameters. Records of the log are left out, but for the two process markers.
\<close>

subsection \<open>Events and the stack of deferred calls\<close>

datatype resource = Seed_pool | Profiling_agent | Primary_pool | Replica_pool | Cache_conn
  | Review_conn | Inventory_conn | Signal_context | Shutdown_context

datatype event = Opened resource | Closed resource | Migrated | Executed string
  | Grpc_started | Process_started | Signal_received | Not_ready | Drained int
  | Http_stopped int | Grpc_stopped | Process_stopped bool | Telemetry_flushed int

datatype ending = Returned | Fatal string | Panic "issue list"

record proc =
  pr_trace :: "event list"
  pr_defers :: "event list"

definition emit :: "event \<Rightarrow> (proc, 'e, unit) action" where
  "emit e p = (Inr (), p\<lparr>pr_trace := pr_trace p @ [e]\<rparr>)"

definition deferred :: "event \<Rightarrow> (proc, 'e, unit) action" where
  "deferred e p = (Inr (), p\<lparr>pr_defers := e # pr_defers p\<rparr>)"

text \<open>A resource opened, its closing deferred at once.\<close>

definition acquire :: "resource \<Rightarrow> (proc, 'e, unit) action" where
  "acquire r = seq (emit (Opened r)) (\<lambda>_. deferred (Closed r))"

text \<open>The deferred calls run when the function returns: last in, first out.\<close>

definition run_defers :: "proc \<Rightarrow> proc" where
  "run_defers p = p\<lparr>pr_trace := pr_trace p @ pr_defers p, pr_defers := []\<rparr>"

subsection \<open>Database pools\<close>

record pool_request =
  pq_dsn :: string
  pq_max_conns :: int
  pq_name :: "string option"
  pq_password_file :: string
  pq_max_lifetime :: int
  pq_health_period :: int

definition Connect :: "DatabaseConfig \<Rightarrow> pool_request" where
  "Connect cfg = \<lparr> pq_dsn = BuildDSN cfg, pq_max_conns = db_MaxConnections cfg, pq_name = None,
     pq_password_file = db_PasswordFile cfg, pq_max_lifetime = db_MaxConnLifetime cfg,
     pq_health_period = db_HealthCheckPeriod cfg \<rparr>"

definition replicaPoolMaxConns :: int where "replicaPoolMaxConns = 5"

definition ConnectReplica :: "DatabaseConfig \<Rightarrow> pool_request" where
  "ConnectReplica cfg = \<lparr> pq_dsn = replicaDSN cfg, pq_max_conns = replicaPoolMaxConns,
     pq_name = Some ''product-replica'', pq_password_file = db_PasswordFile cfg,
     pq_max_lifetime = db_MaxConnLifetime cfg, pq_health_period = db_HealthCheckPeriod cfg \<rparr>"

subsection \<open>What the other systems answer\<close>

record platform =
  pl_migrate :: "string \<Rightarrow> err option"
  pl_parse :: "string \<Rightarrow> err option"
  pl_seed_connect :: "string \<Rightarrow> err option"
  pl_seed_dir :: "err + string list"
  pl_seed_file :: "string \<Rightarrow> err + string"
  pl_seed_exec :: "string \<Rightarrow> err option"
  pl_telemetry :: bool
  pl_profiling :: bool
  pl_pool :: "pool_request \<Rightarrow> bool"
  pl_ping :: "string \<Rightarrow> string \<Rightarrow> int \<Rightarrow> bool"
  pl_dial :: "string \<Rightarrow> bool"
  pl_reviews :: "string \<Rightarrow> string \<Rightarrow> err + review_proto list"
  pl_inventory :: "string \<Rightarrow> string list \<Rightarrow> err + availability_proto list"
  pl_grpc_listen :: "string \<Rightarrow> bool"
  pl_verifier :: "string \<Rightarrow> string \<Rightarrow> string \<Rightarrow> bool"
  pl_listener :: "string \<Rightarrow> nat option"
  pl_http_stop :: "int \<Rightarrow> bool"

text \<open>An external call that may fail, without effect of its own on the process.\<close>

definition external :: "err option \<Rightarrow> string \<Rightarrow> (proc, err, unit) action" where
  "external res msg = (case res of None \<Rightarrow> give () | Some e \<Rightarrow> raise (Wrapf msg e))"

definition reading :: "err + 'a \<Rightarrow> string \<Rightarrow> (proc, err, 'a) action" where
  "reading res msg = (case res of Inl e \<Rightarrow> raise (Wrapf msg e) | Inr v \<Rightarrow> give v)"

subsection \<open>Subcommands\<close>

definition HasSuffix :: "string \<Rightarrow> string \<Rightarrow> bool" where
  "HasSuffix s suf \<longleftrightarrow> length suf \<le> length s \<and> drop (length s - length suf) s = suf"

definition seed_names :: "string list \<Rightarrow> string list" where
  "seed_names entries = sort (filter (\<lambda>n. HasSuffix n ''.up.sql'') entries)"

fun apply_files :: "platform \<Rightarrow> string list \<Rightarrow> (proc, err, unit) action" where
  "apply_files pf [] = give ()"
| "apply_files pf (n # ns) =
     seq (reading (pl_seed_file pf (''sql/'' @ n)) (''read seed '' @ n)) (\<lambda>b.
     seq (external (pl_seed_exec pf b) (''apply seed '' @ n)) (\<lambda>_.
     seq (emit (Executed b)) (\<lambda>_. apply_files pf ns)))"

text \<open>Its own deferred \<open>pool.Close\<close> runs when it returns, on every path.\<close>

definition applySeed :: "platform \<Rightarrow> Config \<Rightarrow> (proc, err, unit) action" where
  "applySeed pf cfg =
     (let dsn = BuildDSN (Database cfg) in
      seq (external (pl_parse pf dsn) ''parse seed DSN'') (\<lambda>_.
      seq (external (pl_seed_connect pf dsn) ''connect for seed'') (\<lambda>_.
      seq (emit (Opened Seed_pool)) (\<lambda>_ p.
        (case seq (reading (pl_seed_dir pf) ''read seed dir'')
                (\<lambda>entries. apply_files pf (seed_names entries)) p of
           (r, p') \<Rightarrow> (r, snd (emit (Closed Seed_pool) p' :: (unit + unit) \<times> proc)))))))"

definition runSubcommand :: "platform \<Rightarrow> string \<Rightarrow> Config \<Rightarrow> (proc, ending, bool) action" where
  "runSubcommand pf cmd cfg =
     (if cmd = ''migrate'' then
        (case pl_migrate pf (BuildDSN (Database cfg)) of
           Some e \<Rightarrow> raise (Fatal ''Schema migration failed'')
         | None \<Rightarrow> seq (emit Migrated) (\<lambda>_. give True))
      else if cmd = ''seed'' then
        (if IsProduction cfg
         then raise (Fatal ''seed refused in production'')
         else (\<lambda>p. case applySeed pf cfg p of
             (Inl e, p') \<Rightarrow> (Inl (Fatal ''Demo seed failed''), p')
           | (Inr _, p') \<Rightarrow> (Inr True, p')))
      else give False)"

subsection \<open>Wiring\<close>

record app =
  ap_service :: ProductService
  ap_protected :: "world ProtectedHandler"
  ap_grpc :: bool
  ap_telemetry :: bool

text \<open>The client pings the server it is made for; the connection pool behind it is the library's.\<close>

definition NewValkeyCacheClient :: "platform \<Rightarrow> string \<Rightarrow> string \<Rightarrow> int \<Rightarrow> world CacheClient option" where
  "NewValkeyCacheClient pf addr password db = (if pl_ping pf addr password db then Some world_client else None)"

definition NewProductCache :: "'s CacheClient \<Rightarrow> int \<Rightarrow> int \<Rightarrow> 's ProductCache" where
  "NewProductCache client ttlList ttlDetail =
     \<lparr> pc_client = client, pc_ttlList = ttlList, pc_ttlDetail = ttlDetail \<rparr>"

text \<open>The methods of \<open>*ProductCache\<close> on the nil pointer dereference it.\<close>

definition nil_product_cache :: "'s catalogCache" where
  "nil_product_cache = \<lparr> xc_InvalidateProduct = (\<lambda>i s. (None, s)),
     xc_InvalidateProductList = (\<lambda>s. (None, s)) \<rparr>"

text \<open>
  The pointer \<open>productCache\<close>, nil or not, as the interface \<open>catalogCache\<close>: the interface holds
  a type, so it is never the nil interface.
\<close>

definition as_catalogCache :: "world ProductCache option \<Rightarrow> world catalogCache option" where
  "as_catalogCache ptr = Some (case ptr of None \<Rightarrow> nil_product_cache | Some c \<Rightarrow> cache_on_world c)"

definition NewProtectedHandler :: "'s catalogAdmin \<Rightarrow> 's catalogCache option \<Rightarrow> 's ProtectedHandler" where
  "NewProtectedHandler repo cache = \<lparr> ph_repo = repo, ph_cache = cache \<rparr>"

definition NewProductService :: "PostgresProductRepository \<Rightarrow> world ProductCache option \<Rightarrow>
    (string \<Rightarrow> err + Review list) \<Rightarrow> ProductService" where
  "NewProductService repo cache reviews = \<lparr> sv_repo = repo, sv_cache = cache,
     sv_reviews = Some reviews, sv_availability = None \<rparr>"

definition WithAvailability :: "(string \<Rightarrow> err + Availability) \<Rightarrow> ProductService \<Rightarrow> ProductService" where
  "WithAvailability av s = s\<lparr> sv_availability := Some av \<rparr>"

subsection \<open>Start-up\<close>

definition open_profiling :: "platform \<Rightarrow> Config \<Rightarrow> (proc, ending, unit) action" where
  "open_profiling pf cfg = (if fc_Enabled (Profiling cfg) \<and> pl_profiling pf
     then acquire Profiling_agent else give ())"

definition open_pools :: "platform \<Rightarrow> Config \<Rightarrow> (proc, ending, PostgresProductRepository) action" where
  "open_pools pf cfg =
     (if \<not> pl_pool pf (Connect (Database cfg)) then raise (Fatal ''Failed to connect to database'')
      else seq (acquire Primary_pool) (\<lambda>_.
        let repo = NewPostgresProductRepository Primary in
        if \<not> db_ReadReplica (Database cfg) then give repo
        else if \<not> pl_pool pf (ConnectReplica (Database cfg))
        then raise (Fatal ''Failed to connect the read-replica pool'')
        else seq (acquire Replica_pool) (\<lambda>_. give (WithRelatedReadPool (Some Replica) repo))))"

definition open_cache :: "platform \<Rightarrow> Config \<Rightarrow> (proc, ending, world ProductCache option) action" where
  "open_cache pf cfg = (let c = Cache cfg in
     if cc_Enabled c then
       (case NewValkeyCacheClient pf (cc_Host c @ '':'' @ cc_Port c) (cc_Password c) (cc_DB c) of
          None \<Rightarrow> give None
        | Some client \<Rightarrow> seq (acquire Cache_conn) (\<lambda>_.
            give (Some (NewProductCache client (cc_TTLProductList c) (cc_TTLProductDetail c)))))
     else give None)"

definition open_service :: "platform \<Rightarrow> Config \<Rightarrow> PostgresProductRepository \<Rightarrow>
    world ProductCache option \<Rightarrow> (proc, ending, ProductService) action" where
  "open_service pf cfg repo cache =
     (if \<not> pl_dial pf (ReviewGRPCAddr cfg) then raise Returned
      else seq (acquire Review_conn) (\<lambda>_.
        let svc = NewProductService repo cache (GetProductReviews (pl_reviews pf (ReviewGRPCAddr cfg))) in
        if \<not> pl_dial pf (InventoryGRPCAddr cfg) then give svc
        else seq (acquire Inventory_conn) (\<lambda>_.
          give (WithAvailability (GetAvailability (pl_inventory pf (InventoryGRPCAddr cfg))) svc))))"

definition startGRPC :: "platform \<Rightarrow> Config \<Rightarrow> (proc, ending, bool) action" where
  "startGRPC pf cfg = (if pl_grpc_listen pf ('':'' @ gc_Port (GRPC cfg))
     then seq (emit Grpc_started) (\<lambda>_. give True) else give False)"

text \<open>The staff verifier fetches the keys of the issuer; without it there is no protected route.\<close>

definition open_protected :: "platform \<Rightarrow> dbenv \<Rightarrow> Config \<Rightarrow> world ProductCache option \<Rightarrow>
    (proc, ending, world ProtectedHandler) action" where
  "open_protected pf env cfg cache =
     (if \<not> pl_verifier pf (OIDCStaffIssuer cfg) (OIDCAudience cfg) (OIDCStaffJWKSURL cfg)
      then raise (Fatal ''staff JWKS verifier init failed'')
      else give (NewProtectedHandler (repo_on_world env) (as_catalogCache cache)))"

definition boot :: "platform \<Rightarrow> dbenv \<Rightarrow> Config \<Rightarrow> (proc, ending, app) action" where
  "boot pf env cfg =
     seq (if Validate cfg \<noteq> [] then raise (Panic (Validate cfg)) else give ()) (\<lambda>_.
     seq (open_profiling pf cfg) (\<lambda>_.
     seq (open_pools pf cfg) (\<lambda>repo.
     seq (open_cache pf cfg) (\<lambda>cache.
     seq (open_service pf cfg repo cache) (\<lambda>svc.
     seq (startGRPC pf cfg) (\<lambda>g.
     seq (open_protected pf env cfg cache) (\<lambda>h.
       give \<lparr> ap_service = svc, ap_protected = h, ap_grpc = g, ap_telemetry = pl_telemetry pf \<rparr>)))))))"

text \<open>\<open>GET /health\<close> and \<open>GET /ready\<close>.\<close>

definition health_reply :: "nat \<times> string" where "health_reply = (200, ''ok'')"

definition ready_reply :: "bool \<Rightarrow> nat \<times> string" where
  "ready_reply isShuttingDown = (if isShuttingDown then (503, ''shutting_down'') else (200, ''ok''))"

subsection \<open>Serving and shutting down\<close>

definition otelShutdownTimeout :: int where "otelShutdownTimeout = 5000000000"

definition serve_until_signal :: "(proc, ending, unit) action" where
  "serve_until_signal = seq (emit Process_started) (\<lambda>_. seq (acquire Signal_context) (\<lambda>_.
     emit Signal_received))"

definition drain :: "Config \<Rightarrow> (proc, ending, unit) action" where
  "drain cfg = seq (emit Not_ready) (\<lambda>_.
     if 0 < GetReadinessDrainDelayDuration cfg
     then emit (Drained (GetReadinessDrainDelayDuration cfg)) else give ())"

text \<open>
  The HTTP server listens in a goroutine beside the main line. When it fails before it is told
  to stop, its fatal record exits the process wherever the main line is by then: after some
  of its events (\<open>Some k\<close>: after \<open>k\<close> of them, or before the rest of what the line does when it
  has fewer). \<open>http.ErrServerClosed\<close>, what it returns when it is told to stop, is no failure.
\<close>

definition beside_listener :: "nat option \<Rightarrow> (proc, ending, unit) action \<Rightarrow> (proc, ending, unit) action" where
  "beside_listener fails main_line p = (case fails of None \<Rightarrow> main_line p
     | Some k \<Rightarrow> (Inl (Fatal ''Failed to start server''),
         \<lparr>pr_trace = take (length (pr_trace p) + k) (pr_trace (snd (main_line p))), pr_defers = []\<rparr>))"

definition stop_servers :: "platform \<Rightarrow> Config \<Rightarrow> app \<Rightarrow> (proc, ending, bool) action" where
  "stop_servers pf cfg a = (let timeout = GetShutdownTimeoutDuration cfg in
     seq (acquire Shutdown_context) (\<lambda>_.
     seq (emit (Http_stopped timeout)) (\<lambda>_.
     seq (if ap_grpc a then emit Grpc_stopped else give ()) (\<lambda>_.
       give (pl_http_stop pf timeout)))))"

definition shutdownTelemetry :: "int \<Rightarrow> (proc, ending, unit) action" where
  "shutdownTelemetry timeout = emit (Telemetry_flushed timeout)"

definition shutdown :: "platform \<Rightarrow> Config \<Rightarrow> app \<Rightarrow> (proc, ending, unit) action" where
  "shutdown pf cfg a = seq (stop_servers pf cfg a) (\<lambda>graceful.
     seq (emit (Closed Primary_pool)) (\<lambda>_. seq (emit (Process_stopped graceful)) (\<lambda>_.
       if ap_telemetry a then shutdownTelemetry otelShutdownTimeout else give ())))"

subsection \<open>The whole run\<close>

definition serve_app :: "platform \<Rightarrow> dbenv \<Rightarrow> Config \<Rightarrow> (proc, ending, unit) action" where
  "serve_app pf env cfg = seq (boot pf env cfg) (\<lambda>a.
     seq (beside_listener (pl_listener pf ('':'' @ sc_Port (Service cfg)))
        (seq serve_until_signal (\<lambda>_. drain cfg))) (\<lambda>_.
     shutdown pf cfg a))"

definition fresh_proc :: proc where "fresh_proc = \<lparr> pr_trace = [], pr_defers = [] \<rparr>"

text \<open>A fatal record exits the process at once: the deferred calls do not run.\<close>

definition run_main :: "platform \<Rightarrow> dbenv \<Rightarrow> Config \<Rightarrow> string list \<Rightarrow> event list \<times> ending" where
  "run_main pf env cfg args =
     (case seq (case args of [] \<Rightarrow> give False | cmd # _ \<Rightarrow> runSubcommand pf cmd cfg)
          (\<lambda>handled. if handled then give () else serve_app pf env cfg) fresh_proc of
        (Inr _, p) \<Rightarrow> (pr_trace (run_defers p), Returned)
      | (Inl (Fatal why), p) \<Rightarrow> (pr_trace p, Fatal why)
      | (Inl e, p) \<Rightarrow> (pr_trace (run_defers p), e))"

text \<open>\<open>main\<close>, with the arguments after the program name and the environment.\<close>

definition go_main :: "platform \<Rightarrow> dbenv \<Rightarrow> getenv \<Rightarrow> string list \<Rightarrow>
    event list \<times> ending" where
  "go_main pf env genv args = run_main pf env (Load genv) args"

end
