(* ===== verification/Config_Spec.thy ===== *)
theory Config_Spec
  imports Config Service_Spec
begin

section \<open>What every environment makes of the configuration\<close>

text \<open>
  The durations a configuration can hold, whatever the environment says; the environments
  that pass validation; and the cache a configuration gives the service.
\<close>

subsection \<open>Ranges of parsed durations\<close>

lemma segments_range:
  "segments d s = Some e \<Longrightarrow> 0 \<le> d \<Longrightarrow> d \<le> 2 ^ 63 \<Longrightarrow> 0 \<le> e \<and> e \<le> 2 ^ 63"
proof (induction d s rule: segments.induct)
  case (1 d s)
  from "1.prems"(1) consider "s = []" "e = d"
    | w r where "\<not> s = []" "\<not> \<not> (hd s = CHR ''.'' \<or> is_digit (hd s))" "segment s = Some (w, r)"
      "\<not> 2 ^ 63 < (d + w) mod 2 ^ 64" "segments ((d + w) mod 2 ^ 64) r = Some e"
    by (subst (asm) segments.simps) (auto simp: Let_def split: if_splits option.splits)
  then show ?case
  proof cases
    case 1
    with "1.prems" show ?thesis by simp
  next
    case 2
    then show ?thesis
      using "1.IH" [OF 2(1,2,3) refl refl 2(4) 2(5)] by simp
  qed
qed

lemma is_int64_0 [simp]: "is_int64 0"
  by (simp add: is_int64_def max_int64_def min_int64_def)

lemma ParseDuration_range:
  assumes "ParseDuration s = Some d"
  shows "is_int64 d"
proof -
  define t where "t = (if s \<noteq> [] \<and> (hd s = CHR ''-'' \<or> hd s = CHR ''+'') then tl s else s)"
  have p: "ParseDuration s = (if t = ''0'' then Some 0 else if t = [] then None
      else (case segments 0 t of None \<Rightarrow> None
        | Some d \<Rightarrow> if s \<noteq> [] \<and> hd s = CHR ''-'' then Some (wrap64 (- wrap64 d))
            else if 2 ^ 63 - 1 < d then None else Some d))"
    by (simp only: ParseDuration_def Let_def t_def)
  show ?thesis
  proof (cases "t = ''0''")
    case True
    with p assms show ?thesis by simp
  next
    case False
    show ?thesis
    proof (cases "segments 0 t")
      case None
      with p assms False show ?thesis by (simp split: if_split_asm)
    next
      case (Some e)
      have "is_int64 e" if "\<not> 2 ^ 63 - 1 < e"
        using segments_range [OF Some] that by (simp add: is_int64_def max_int64_def min_int64_def)
      with p assms False Some show ?thesis by (simp split: if_split_asm)
    qed
  qed
qed

lemma ParseDuration_Nil [simp]: "ParseDuration [] = None"
  by (simp add: ParseDuration_def Let_def)

lemma getEnvDuration_range:
  assumes "0 < def" and "def \<le> max_int64"
  shows "0 < getEnvDuration env k def \<and> getEnvDuration env k def \<le> max_int64"
  using assms ParseDuration_range [of "env k"]
  by (auto simp: getEnvDuration_def is_int64_def split: option.splits)

subsection \<open>Whole seconds through \<open>float64\<close>\<close>

lemma Seconds_nonneg:
  assumes "0 \<le> d"
  shows "Seconds d = fl64 (fl64 (of_int (d div 1000000000))
    + fl64 (of_int (d mod 1000000000) / 1000000000))"
proof -
  have "quot d (10 ^ 9) = d div 1000000000"
    using assms by (cases "d = 0") (simp_all add: quot_def sgn_if)
  moreover have "d - d div 1000000000 * 10 ^ 9 = d mod 1000000000"
    by (simp add: minus_div_mult_eq_mod)
  ultimately show ?thesis by (simp add: Seconds_def Let_def del: of_int_diff of_int_mult)
qed

lemma fl64_nonneg: "0 \<le> x \<Longrightarrow> 0 \<le> fl64 x"
  using fl64_ge_int [of 0 x] by simp

lemma Seconds_ge:
  assumes "0 \<le> k" and "k \<le> 2 ^ 34" and "k * 1000000000 \<le> d" and "is_int64 d"
  shows "of_int k \<le> Seconds d"
proof -
  let ?s = "d div 1000000000" and ?f = "of_int (d mod 1000000000) / 1000000000 :: rat"
  have d: "0 \<le> d" and s: "k \<le> ?s" using assms(1,3) by auto
  have "?s < 2 ^ 53" using assms(4) d by (auto simp: is_int64_def max_int64_def)
  then have f: "fl64 (of_int ?s) = of_int ?s" using s assms(1) by (simp add: fl64_of_int)
  have n: "0 \<le> fl64 ?f" by (intro fl64_nonneg) simp
  have "(of_int k :: rat) \<le> of_int ?s" using s by (simp only: of_int_le_iff)
  then have "of_int k \<le> fl64 (of_int ?s) + fl64 ?f" using f n by linarith
  then show ?thesis
    unfolding Seconds_nonneg [OF d] using assms(1,2) by (intro fl64_ge_int) simp_all
qed

text \<open>Below a power of two the rounding error is \<open>2 ^ -54\<close> of it.\<close>

lemma fl64_abs_error:
  assumes "\<bar>x\<bar> < pow2 k" and "- 1021 \<le> k"
  shows "\<bar>fl64 x - x\<bar> \<le> pow2 (k - 53) / 2"
proof (cases "x = 0")
  case True
  then show ?thesis using pow2_pos [of "k - 53"] by (simp add: fl64_def less_imp_le)
next
  case False
  have "flog2 x < k"
  proof (rule ccontr)
    assume "\<not> flog2 x < k"
    then have "pow2 k \<le> pow2 (flog2 x)" by (intro pow2_mono) simp
    with flog2_bounds(1) [OF False] assms(1) show False by linarith
  qed
  then have "ulp_exp x \<le> k - 53" using assms(2) by (simp add: ulp_exp_def)
  from pow2_mono [OF this] fl64_error [OF False] show ?thesis by linarith
qed

text \<open>Below a million seconds the fraction never rounds up to the next second.\<close>

lemma Seconds_less:
  assumes "0 \<le> d" and "d < 1000000 * 1000000000"
  shows "Seconds d < of_int (d div 1000000000 + 1)"
proof -
  let ?s = "d div 1000000000" and ?n = "d mod 1000000000"
  let ?x = "of_int ?n / 1000000000 :: rat" and ?y = "fl64 (of_int ?s) + fl64 (of_int ?n / 1000000000)"
  have s: "0 \<le> ?s" "?s \<le> 999999" using assms by auto
  have s': "(0::rat) \<le> of_int ?s" "(of_int ?s :: rat) \<le> of_int 999999"
    using s by (simp_all only: of_int_le_iff of_int_0_le_iff)
  have "?n \<le> 999999999" using pos_mod_bound [of 1000000000 d] by linarith
  then have n': "(of_int ?n :: rat) \<le> of_int 999999999" by (simp only: of_int_le_iff)
  have n0: "(0::rat) \<le> of_int ?n" by simp
  have f: "fl64 (of_int ?s) = of_int ?s" using s by (simp add: fl64_of_int)
  have "\<bar>?x\<bar> < pow2 0" using n' n0 by (simp add: pow2_def)
  then have "\<bar>fl64 ?x - ?x\<bar> \<le> pow2 (0 - 53) / 2" by (rule fl64_abs_error) simp
  moreover have "pow2 (0 - 53) / 2 = 1 / 2 ^ 54" by (simp add: pow2_def)
  ultimately have u: "fl64 ?x \<le> ?x + 1 / 2 ^ 54" by linarith
  have x: "?x \<le> 999999999 / 1000000000" using n' by simp
  have y: "?y \<le> of_int ?s + (999999999 / 1000000000 + 1 / 2 ^ 54)" using u x f by linarith
  have y0: "0 \<le> ?y" unfolding f using s' by (intro add_nonneg_nonneg fl64_nonneg) simp_all
  have "\<bar>?y\<bar> < pow2 20" using y y0 s' by (simp add: pow2_def)
  then have "\<bar>fl64 ?y - ?y\<bar> \<le> pow2 (20 - 53) / 2" by (rule fl64_abs_error) simp
  moreover have "pow2 (20 - 53) / 2 = 1 / 2 ^ 34" by (simp add: pow2_def)
  ultimately have "fl64 ?y \<le> ?y + 1 / 2 ^ 34" by linarith
  moreover have "999999999 / 1000000000 + 1 / 2 ^ 54 + 1 / 2 ^ 34 < (1::rat)" by simp
  ultimately have "fl64 ?y < of_int ?s + 1" using y by linarith
  then show ?thesis by (simp add: Seconds_nonneg [OF assms(1)])
qed

lemma fl64_nonpos:
  assumes "x \<le> 0"
  shows "fl64 x \<le> 0"
proof -
  have "x / pow2 (ulp_exp x) \<le> of_int 0" using assms by (simp add: divide_le_0_iff less_imp_le)
  then have "round_even (x / pow2 (ulp_exp x)) \<le> 0" by (rule round_even_le)
  then show ?thesis by (simp add: fl64_def Let_def mult_nonpos_nonneg less_imp_le)
qed

lemma Seconds_nonpos:
  assumes "d \<le> 0"
  shows "Seconds d \<le> 0"
proof -
  define m where "m = - d"
  have m: "0 \<le> m" "d = - m" using assms by (simp_all add: m_def)
  have q: "quot d (10 ^ 9) = - (m div 1000000000)"
    using m by (cases "m = 0") (simp_all add: quot_def sgn_if)
  have "d - quot d (10 ^ 9) * 10 ^ 9 = - (m mod 1000000000)"
    unfolding q using m(2) by (simp add: minus_div_mult_eq_mod [symmetric])
  moreover have "(0::rat) \<le> of_int (m mod 1000000000)" by simp
  moreover have "(0::rat) \<le> of_int (m div 1000000000)" using m by simp
  ultimately show ?thesis
    unfolding Seconds_def Let_def q
    by (intro fl64_nonpos add_nonpos_nonpos) simp_all
qed

text \<open>What a bounded setting in seconds should be: the whole seconds of an accepted duration.\<close>

definition seconds_window :: "string \<Rightarrow> int \<Rightarrow> int \<Rightarrow> int" where
  "seconds_window text def most = (case ParseDuration text of None \<Rightarrow> def
     | Some d \<Rightarrow> if 1000000000 \<le> d \<and> d < (most + 1) * 1000000000 then d div 1000000000 else def)"

lemma seconds_window:
  assumes "0 < most" and "most < 1000"
  shows "getEnvDurationSecondsWithMax env key def most = seconds_window (env key) def most"
proof (cases "ParseDuration (env key)")
  case None
  then show ?thesis by (simp add: getEnvDurationSecondsWithMax_def seconds_window_def)
next
  case (Some d)
  then have k: "env key \<noteq> []" by auto
  have i: "is_int64 d" using ParseDuration_range [OF Some] .
  consider "d \<le> 0" | "0 < d" "d < (most + 1) * 1000000000" | "(most + 1) * 1000000000 \<le> d"
    by linarith
  then have "(let s = trunc (Seconds d) in if s \<le> 0 \<or> most < s then def else s) =
    (if 1000000000 \<le> d \<and> d < (most + 1) * 1000000000 then d div 1000000000 else def)"
  proof cases
    case 1
    then have "trunc (Seconds d) \<le> 0" using Seconds_nonpos [OF 1] by (simp add: trunc_def)
    with 1 show ?thesis by (simp add: Let_def)
  next
    case 2
    have "(of_int (d div 1000000000) :: rat) \<le> Seconds d"
      using 2 assms i by (intro Seconds_ge) auto
    moreover have "Seconds d < of_int (d div 1000000000 + 1)" using 2 assms by (intro Seconds_less) simp_all
    moreover have "0 \<le> d div 1000000000" using 2 by simp
    then have "(0::rat) \<le> of_int (d div 1000000000)" by (simp only: of_int_0_le_iff)
    ultimately have t: "trunc (Seconds d) = d div 1000000000"
      by (simp add: trunc_def floor_eq_iff)
    have "d div 1000000000 \<le> most" using 2 by simp
    moreover have "1000000000 \<le> d \<longleftrightarrow> 1 \<le> d div 1000000000"
      using pos_imp_zdiv_pos_iff [of 1000000000 d] by linarith
    ultimately show ?thesis using 2 by (simp add: t Let_def)
  next
    case 3
    have "(of_int (most + 1) :: rat) \<le> Seconds d" using 3 assms i by (intro Seconds_ge) simp_all
    then have "most + 1 \<le> trunc (Seconds d)"
      using assms by (simp add: trunc_def le_floor_iff)
    with 3 show ?thesis by (simp add: Let_def)
  qed
  with Some k show ?thesis by (simp add: getEnvDurationSecondsWithMax_def seconds_window_def)
qed

lemma getEnvDurationSeconds_eq:
  "getEnvDurationSeconds env key def = getEnvDurationSecondsWithMax env key def 60"
  by (simp add: getEnvDurationSeconds_def getEnvDurationSecondsWithMax_def)

lemma seconds_window_range:
  assumes "1 \<le> def" and "def \<le> most"
  shows "1 \<le> seconds_window text def most \<and> seconds_window text def most \<le> most"
proof (cases "ParseDuration text")
  case (Some d)
  have "1 \<le> d div 1000000000 \<and> d div 1000000000 \<le> most"
    if "1000000000 \<le> d" "d < (most + 1) * 1000000000" using that by auto
  with Some assms show ?thesis by (auto simp: seconds_window_def)
qed (use assms in \<open>simp add: seconds_window_def\<close>)

lemma short_wrap:
  assumes "1 \<le> n" and "n \<le> 60"
  shows "wrap64 (n * 1000000000) = n * 1000000000"
  using assms by (intro wrap64_id) (simp add: is_int64_def max_int64_def min_int64_def)

lemma shutdown_range:
  "ShutdownTimeout (Load env) = seconds_window (env ''SHUTDOWN_TIMEOUT'') 10 60"
  "ReadinessDrainDelay (Load env) = seconds_window (env ''READINESS_DRAIN_DELAY'') 5 30"
  "GetShutdownTimeoutDuration (Load env) \<in> {1000000000..60000000000}"
  "GetReadinessDrainDelayDuration (Load env) \<in> {1000000000..30000000000}"
proof -
  show s: "ShutdownTimeout (Load env) = seconds_window (env ''SHUTDOWN_TIMEOUT'') 10 60"
    by (simp add: Load_def getEnvDurationSeconds_eq seconds_window)
  show r: "ReadinessDrainDelay (Load env) = seconds_window (env ''READINESS_DRAIN_DELAY'') 5 30"
    by (simp add: Load_def seconds_window)
  show "GetShutdownTimeoutDuration (Load env) \<in> {1000000000..60000000000}"
    "GetReadinessDrainDelayDuration (Load env) \<in> {1000000000..30000000000}"
    using s r seconds_window_range [of 10 60 "env ''SHUTDOWN_TIMEOUT''"]
      seconds_window_range [of 5 30 "env ''READINESS_DRAIN_DELAY''"]
    by (simp_all add: GetShutdownTimeoutDuration_def GetReadinessDrainDelayDuration_def short_wrap)
qed

text \<open>
  C31. Whatever the environment says, the shutdown timeout and the readiness drain are the whole
  seconds of the duration it gives when that is at least a second and at most the limit (60 and
  30 seconds, the last second counted in full), and the default (10 and 5 seconds) otherwise:
  the \<open>float64\<close> the code goes through never changes the answer. The durations
  \<open>main\<close> sleeps and waits for are between one second and the limit, without wrap-around; in
  particular the drain cannot be switched off, although \<open>main\<close> tests for a delay of zero.
\<close>

theorem shutdown_windows:
  "ShutdownTimeout (Load env) = seconds_window (env ''SHUTDOWN_TIMEOUT'') 10 60 \<and>
   ReadinessDrainDelay (Load env) = seconds_window (env ''READINESS_DRAIN_DELAY'') 5 30 \<and>
   GetShutdownTimeoutDuration (Load env) \<in> {1000000000..60000000000} \<and>
   GetReadinessDrainDelayDuration (Load env) \<in> {1000000000..30000000000}"
  using shutdown_range by blast

subsection \<open>Environments that pass validation\<close>

lemma complain_Nil [simp]: "complain bad i = [] \<longleftrightarrow> \<not> bad"
  by (simp add: complain_def)

text \<open>A text that folds to one without s and k is that text up to the case of its letters.\<close>

lemma fold_text_plain:
  "fold_text e = t \<Longrightarrow> CHR ''s'' \<notin> set t \<Longrightarrow> CHR ''k'' \<notin> set t \<Longrightarrow> to_lower e = t"
  by (induction e arbitrary: t rule: fold_text.induct) (auto simp: to_lower_def split: if_splits)

lemma fold_text_ascii:
  "CHR 0xC5 \<notin> set e \<Longrightarrow> CHR 0xE2 \<notin> set e \<Longrightarrow> fold_text e = to_lower e"
  by (induction e rule: fold_text.induct) (auto simp: to_lower_def)

lemma to_lower_fold:
  assumes "to_lower e = t" and "CHR 0xC5 \<notin> set t" and "CHR 0xE2 \<notin> set t"
  shows "fold_text e = t"
proof -
  have "ascii_lower (CHR 0xC5) = CHR 0xC5" "ascii_lower (CHR 0xE2) = CHR 0xE2" by code_simp+
  then have "CHR 0xC5 \<notin> set e" "CHR 0xE2 \<notin> set e"
    using assms by (force simp: to_lower_def)+
  with assms(1) show ?thesis by (simp add: fold_text_ascii)
qed

definition IsStaging :: "Config \<Rightarrow> bool" where
  "IsStaging c = contains [''staging'', ''stage''] (sc_Env (Service c))"

lemma env_class_fold:
  "IsDevelopment c \<longleftrightarrow> fold_text (sc_Env (Service c)) \<in> {''development'', ''dev''}"
  "IsProduction c \<longleftrightarrow> fold_text (sc_Env (Service c)) \<in> {''production'', ''prod''}"
  unfolding IsDevelopment_def IsProduction_def
  by (auto dest: to_lower_fold fold_text_plain)

lemma contains_fold: "contains ts e \<longleftrightarrow> fold_text e \<in> fold_text ` set ts"
  unfolding contains_def EqualFold_def list_ex_iff image_iff by metis

lemma folded_envs: "map fold_text validEnvs = validEnvs"
    "map fold_text [''staging'', ''stage''] = [''staging'', ''stage'']"
  by code_simp+

text \<open>
  A configuration that passes validation names one of the three environments, and only one:
  development, staging or production, whatever the case of its letters. So the gate that keeps
  the demo data out of production (\<open>IsProduction\<close>) and the list of accepted names agree on
  every accepted name, although one lower-cases the text and the other folds it.
\<close>

theorem validated_environment:
  assumes "Validate c = []"
  shows "(IsDevelopment c \<and> \<not> IsStaging c \<and> \<not> IsProduction c) \<or>
     (\<not> IsDevelopment c \<and> IsStaging c \<and> \<not> IsProduction c) \<or>
     (\<not> IsDevelopment c \<and> \<not> IsStaging c \<and> IsProduction c)"
proof -
  have v: "fold_text ` set validEnvs = set validEnvs"
    using arg_cong [OF folded_envs(1), of set] by simp
  have s: "fold_text ` set [''staging'', ''stage''] = {''staging'', ''stage''}"
    using arg_cong [OF folded_envs(2), of set] by simp
  have "contains validEnvs (sc_Env (Service c))"
    using assms by (simp only: Validate_def append_is_Nil_conv complain_Nil not_not)
  then have "fold_text (sc_Env (Service c)) \<in> set validEnvs" by (simp only: contains_fold v)
  then show ?thesis
    unfolding env_class_fold IsStaging_def contains_fold s validEnvs_def by auto
qed

definition plain_env :: getenv where
  "plain_env = (\<lambda>_. [])(''SERVICE_NAME'' := ''product'', ''ENV'' := ''Production'',
     ''OTEL_SAMPLE_RATE'' := ''NaN'', ''READINESS_DRAIN_DELAY'' := ''0s'',
     ''SHUTDOWN_TIMEOUT'' := ''1m0.9s'')"

lemma plain_validated: "Validate (Load plain_env) = []"
  by code_simp

theorem validated_environment_witness:
  "Validate (Load plain_env) = [] \<and> IsProduction (Load plain_env) \<and>
   \<not> IsStaging (Load plain_env)"
proof -
  have "IsProduction (Load plain_env)" by code_simp
  with validated_environment [OF plain_validated] plain_validated show ?thesis by blast
qed

text \<open>
  A sampling rate of NaN is neither below zero nor above one, so it passes; a drain of zero
  seconds is not a duration the code takes, so the default stays; and the sixty-first second
  is cut off.
\<close>

lemma plain_settings:
  "tc_SampleRate (Tracing (Load plain_env)) = NaN \<and>
   ReadinessDrainDelay (Load plain_env) = 5 \<and>
   ShutdownTimeout (Load plain_env) = 60"
  by code_simp

end
