(* ===== verification/Startup_Spec.thy ===== *)
theory Startup_Spec
  imports Startup Config_Spec
begin

section \<open>What every run of the process does\<close>

text \<open>
  The invariant of the process (what is open is what is deferred, in reverse), the order of
  a graceful shutdown, when and how the demo data is applied, and what the wiring gives the
  handlers, with a cache and without one.
\<close>

subsection \<open>Open resources are exactly the deferred ones\<close>

fun opens :: "event list \<Rightarrow> resource list" where
  "opens [] = []"
| "opens (Opened r # es) = r # opens es"
| "opens (_ # es) = opens es"

lemma opens_append [simp]: "opens (a @ b) = opens a @ opens b"
  by (induction a rule: opens.induct) simp_all

definition tidy :: "proc \<Rightarrow> bool" where
  "tidy p \<longleftrightarrow> pr_defers p = map Closed (rev (opens (pr_trace p)))"

lemma emit_simps [simp]: "emit e p = (Inr (), p\<lparr>pr_trace := pr_trace p @ [e]\<rparr>)"
  by (simp add: emit_def)

lemma deferred_simps [simp]: "deferred e p = (Inr (), p\<lparr>pr_defers := e # pr_defers p\<rparr>)"
  by (simp add: deferred_def)

lemma tidy_fresh [simp]: "tidy fresh_proc"
  by (simp add: tidy_def fresh_proc_def)

lemma tidy_emit [preserve_intros]: "(\<And>r. e \<noteq> Opened r) \<Longrightarrow> preserves tidy (emit e)"
  by (cases e) (auto simp: preserves_def tidy_def)

lemma tidy_acquire [preserve_intros]: "preserves tidy (acquire r)"
  by (simp add: preserves_def tidy_def acquire_def seq_def)

lemma tidy_boot_parts [preserve_intros]:
  "preserves tidy (open_profiling pf cfg)" "preserves tidy (open_pools pf cfg)"
  "preserves tidy (open_cache pf cfg)" "preserves tidy (open_service pf cfg repo c)"
  "preserves tidy (startGRPC pf cfg)" "preserves tidy serve_until_signal"
    "preserves tidy (open_protected pf env cfg c)"
  unfolding open_profiling_def open_pools_def open_cache_def open_service_def startGRPC_def
    open_protected_def serve_until_signal_def Let_def
  by (intro preserve_intros; (intro preserve_intros)?; simp)+

lemma tidy_boot [preserve_intros]: "preserves tidy (boot pf env cfg)"
  unfolding boot_def by (intro preserve_intros)

text \<open>The trace of a start-up that succeeds, and what it hands over.\<close>

definition trace_if :: "bool \<Rightarrow> event \<Rightarrow> event list" where
  "trace_if b e = (if b then [e] else [])"

lemmas boot_parts = open_profiling_def open_pools_def open_cache_def open_service_def
  startGRPC_def open_protected_def acquire_def NewValkeyCacheClient_def

lemma boot_part_traces:
  "open_profiling pf cfg p = (Inr u, q) \<Longrightarrow> pr_trace q = pr_trace p @
     trace_if (fc_Enabled (Profiling cfg) \<and> pl_profiling pf) (Opened Profiling_agent)"
  "open_pools pf cfg p = (Inr repo, q) \<Longrightarrow> pr_trace q = pr_trace p @ [Opened Primary_pool] @
     trace_if (db_ReadReplica (Database cfg)) (Opened Replica_pool)"
  "open_cache pf cfg p = (Inr c, q) \<Longrightarrow> pr_trace q = pr_trace p @
     trace_if (c \<noteq> None) (Opened Cache_conn)"
  "startGRPC pf cfg p = (Inr g, q) \<Longrightarrow> pr_trace q = pr_trace p @ trace_if g Grpc_started"
  "open_protected pf env cfg c p = (Inr h, q) \<Longrightarrow> q = p"
  by (auto simp: boot_parts trace_if_def seq_Inr_iff Let_def split: if_splits)

lemma open_service_trace:
  assumes "open_service pf cfg repo c p = (Inr svc, q)"
  shows "pr_trace q = pr_trace p @ [Opened Review_conn] @
      trace_if (pl_dial pf (InventoryGRPCAddr cfg)) (Opened Inventory_conn)"
    and "sv_cache svc = c"
  using assms
  by (auto simp: boot_parts trace_if_def seq_Inr_iff Let_def NewProductService_def
      WithAvailability_def split: if_splits)

lemma boot_trace:
  assumes "boot pf env cfg p = (Inr a, p1)"
  shows "pr_trace p1 = pr_trace p @
      trace_if (fc_Enabled (Profiling cfg) \<and> pl_profiling pf) (Opened Profiling_agent) @
      [Opened Primary_pool] @ trace_if (db_ReadReplica (Database cfg)) (Opened Replica_pool) @
      trace_if (sv_cache (ap_service a) \<noteq> None) (Opened Cache_conn) @ [Opened Review_conn] @
      trace_if (pl_dial pf (InventoryGRPCAddr cfg)) (Opened Inventory_conn) @
      trace_if (ap_grpc a) Grpc_started"
    and "ap_telemetry a = pl_telemetry pf" and "Validate cfg = []"
  using assms
  by (auto simp: boot_def seq_Inr_iff open_service_trace dest!: boot_part_traces split: if_splits)

definition cache_up :: "platform \<Rightarrow> Config \<Rightarrow> bool" where
  "cache_up pf cfg \<longleftrightarrow> cc_Enabled (Cache cfg) \<and>
     pl_ping pf (cc_Host (Cache cfg) @ '':'' @ cc_Port (Cache cfg)) (cc_Password (Cache cfg))
       (cc_DB (Cache cfg))"

definition configured_cache :: "CacheConfig \<Rightarrow> world ProductCache" where
  "configured_cache c = NewProductCache world_client (cc_TTLProductList c) (cc_TTLProductDetail c)"

lemma configured_cache_sel [simp]:
  "pc_client (configured_cache c) = world_client" "pc_ttlList (configured_cache c) = cc_TTLProductList c"
  "pc_ttlDetail (configured_cache c) = cc_TTLProductDetail c"
  by (simp_all add: configured_cache_def NewProductCache_def)

lemma boot_wiring:
  assumes "boot pf env cfg p = (Inr a, p1)"
  shows "ap_protected a = (if cache_up pf cfg then operator_handler env (Some (configured_cache (Cache cfg)))
      else \<lparr>ph_repo = repo_on_world env, ph_cache = Some nil_product_cache\<rparr>)"
    and "sv_cache (ap_service a) = (if cache_up pf cfg then Some (configured_cache (Cache cfg)) else None)"
  using assms
  by (auto simp: boot_def seq_Inr_iff boot_parts Let_def NewProductService_def cache_up_def
      WithAvailability_def NewProtectedHandler_def as_catalogCache_def operator_handler_def
      configured_cache_def split: if_splits)

subsection \<open>Shutdown\<close>

lemma drain_positive:
  "0 < GetReadinessDrainDelayDuration (Load genv)"
  using shutdown_range [of genv] by simp

lemma shutdown_trace:
  assumes "shutdown pf cfg a p = (r, q)"
  shows "r = Inr ()" and "pr_defers q = Closed Shutdown_context # pr_defers p"
    and "pr_trace q = pr_trace p @ [Opened Shutdown_context, Http_stopped (GetShutdownTimeoutDuration cfg)] @
      trace_if (ap_grpc a) Grpc_stopped @
      [Closed Primary_pool, Process_stopped (pl_http_stop pf (GetShutdownTimeoutDuration cfg))] @
      trace_if (ap_telemetry a) (Telemetry_flushed otelShutdownTimeout)"
  using assms
  by (auto simp: shutdown_def shutdownTelemetry_def stop_servers_def acquire_def seq_def Let_def
      trace_if_def split: if_splits)

text \<open>The main line while the HTTP server listens.\<close>

definition served_line :: "Config \<Rightarrow> event list" where
  "served_line cfg = [Process_started, Opened Signal_context, Signal_received, Not_ready,
     Drained (GetReadinessDrainDelayDuration cfg)]"

lemma main_line_run:
  assumes "0 < GetReadinessDrainDelayDuration cfg"
  shows "seq serve_until_signal (\<lambda>_. drain cfg) p = (Inr (), p\<lparr>pr_trace := pr_trace p @ served_line cfg,
    pr_defers := Closed Signal_context # pr_defers p\<rparr>)"
  using assms by (simp add: serve_until_signal_def drain_def acquire_def seq_def served_line_def)

lemma unsignalled:
  assumes "Signal_received \<notin> set (pr_trace p)"
  shows "Signal_received \<notin> set (pr_trace (snd (boot pf env cfg p)))"
proof -
  have e: "preserves (\<lambda>p. Signal_received \<notin> set (pr_trace p)) (emit e)"
    if "e \<noteq> Signal_received" for e :: event
    using that by (simp add: preserves_def)
  have d: "preserves (\<lambda>p. Signal_received \<notin> set (pr_trace p)) (deferred e)" for e
    by (simp add: preserves_def)
  have "preserves (\<lambda>p. Signal_received \<notin> set (pr_trace p)) (boot pf env cfg)"
    unfolding boot_def boot_parts Let_def
    by (intro preserve_intros; (intro preserve_intros e d)?; simp)+
  with assms show ?thesis by (simp add: preserves_def)
qed

lemma apply_files_trace:
  "apply_files pf ns p = (r, q) \<Longrightarrow>
     \<exists>k \<le> length ns. \<exists>bs. map (\<lambda>n. pl_seed_file pf (''sql/'' @ n)) (take k ns) = map Inr bs \<and>
       (\<forall>b \<in> set bs. pl_seed_exec pf b = None) \<and> (r = Inr () \<longleftrightarrow> k = length ns) \<and>
       q = p\<lparr>pr_trace := pr_trace p @ map Executed bs\<rparr>"
proof (induction ns arbitrary: p)
  case (Cons n ns)
  show ?case
  proof (cases "pl_seed_file pf (''sql/'' @ n)")
    case (Inl e)
    with Cons.prems show ?thesis by (intro exI [of _ 0]) (auto simp: seq_def reading_def)
  next
    case (Inr b)
    show ?thesis
    proof (cases "pl_seed_exec pf b")
      case None
      let ?p = "p\<lparr>pr_trace := pr_trace p @ [Executed b]\<rparr>"
      from Cons.prems Inr None have "apply_files pf ns ?p = (r, q)"
        by (simp add: seq_def reading_def external_def)
      from Cons.IH [OF this] obtain k bs where "k \<le> length ns"
        "map (\<lambda>n. pl_seed_file pf (''sql/'' @ n)) (take k ns) = map Inr bs"
        "\<forall>b \<in> set bs. pl_seed_exec pf b = None" "r = Inr () \<longleftrightarrow> k = length ns"
        "q = ?p\<lparr>pr_trace := pr_trace ?p @ map Executed bs\<rparr>" by blast
      with Inr None show ?thesis
        by (intro exI [of _ "Suc k"] conjI exI [of _ "b # bs"]) simp_all
    next
      case (Some e)
      with Inr Cons.prems show ?thesis
        by (intro exI [of _ 0]) (auto simp: seq_def reading_def external_def)
    qed
  qed
qed simp

text \<open>Where a run ends, case by case.\<close>

lemma serve_app_cases:
  assumes "serve_app pf env cfg p = (r, q)" and "0 < GetReadinessDrainDelayDuration cfg"
  obtains (Stopped) e where "boot pf env cfg p = (Inl e, q)" "r = Inl e"
  | (Unserved) a p1 k where "boot pf env cfg p = (Inr a, p1)" "r = Inl (Fatal ''Failed to start server'')"
      "pl_listener pf ('':'' @ sc_Port (Service cfg)) = Some k"
      "q = \<lparr>pr_trace = pr_trace p1 @ take k (served_line cfg), pr_defers = []\<rparr>"
  | (Served) a p1 p2 where "boot pf env cfg p = (Inr a, p1)"
      "pr_trace p2 = pr_trace p1 @ served_line cfg"
      "pr_defers p2 = Closed Signal_context # pr_defers p1" "shutdown pf cfg a p2 = (r, q)"
proof (cases "boot pf env cfg p")
  case (Pair x p1)
  show ?thesis
  proof (cases x)
    case (Inl e)
    with Pair assms that(1) show ?thesis by (simp add: serve_app_def seq_def)
  next
    case (Inr a)
    note b = Pair [unfolded Inr]
    show ?thesis
    proof (cases "pl_listener pf ('':'' @ sc_Port (Service cfg))")
      case None
      define p2 where "p2 = p1\<lparr>pr_trace := pr_trace p1 @ served_line cfg,
        pr_defers := Closed Signal_context # pr_defers p1\<rparr>"
      have "seq (beside_listener None (seq serve_until_signal (\<lambda>_. drain cfg))) (\<lambda>_. shutdown pf cfg a) p1 =
          shutdown pf cfg a p2"
        by (simp add: seq_def [of "beside_listener _ _"] beside_listener_def main_line_run [OF assms(2)] p2_def)
      with assms(1) b None have "shutdown pf cfg a p2 = (r, q)" by (simp add: serve_app_def seq_def [of "boot _ _ _"])
      with that(3) [OF b, of p2] show ?thesis by (simp add: p2_def)
    next
      case (Some k)
      have "beside_listener (Some k) (seq serve_until_signal (\<lambda>_. drain cfg)) p1 =
          (Inl (Fatal ''Failed to start server''),
           \<lparr>pr_trace = pr_trace p1 @ take k (served_line cfg), pr_defers = []\<rparr>)"
        by (simp add: beside_listener_def main_line_run [OF assms(2)])
      with assms(1) b Some that(2) [OF b] show ?thesis by (simp add: serve_app_def seq_def)
    qed
  qed
qed

lemma applySeed_trace:
  assumes "applySeed pf cfg p = (r, q)"
  shows "(r \<noteq> Inr () \<and> (q = p \<or>
       q = p\<lparr>pr_trace := pr_trace p @ [Opened Seed_pool, Closed Seed_pool]\<rparr>)) \<or>
     (\<exists>entries k bs. pl_seed_dir pf = Inr entries \<and> k \<le> length (seed_names entries) \<and>
       map (\<lambda>n. pl_seed_file pf (''sql/'' @ n)) (take k (seed_names entries)) = map Inr bs \<and>
       (r = Inr () \<longleftrightarrow> k = length (seed_names entries)) \<and>
       q = p\<lparr>pr_trace := pr_trace p @ [Opened Seed_pool] @ map Executed bs @ [Closed Seed_pool]\<rparr>)"
proof (cases "pl_parse pf (BuildDSN (Database cfg)) = None \<and>
    pl_seed_connect pf (BuildDSN (Database cfg)) = None")
  case False
  with assms show ?thesis
    by (auto simp: applySeed_def Let_def seq_def external_def split: option.splits)
next
  case True
  let ?p = "p\<lparr>pr_trace := pr_trace p @ [Opened Seed_pool]\<rparr>"
  show ?thesis
  proof (cases "pl_seed_dir pf")
    case (Inl e)
    with True assms show ?thesis
      by (auto simp: applySeed_def Let_def seq_def external_def reading_def)
  next
    case (Inr entries)
    obtain r' q' where a: "apply_files pf (seed_names entries) ?p = (r', q')" by fastforce
    with True Inr assms have r: "r = r'" and q: "q = q'\<lparr>pr_trace := pr_trace q' @ [Closed Seed_pool]\<rparr>"
      by (auto simp: applySeed_def Let_def seq_def external_def reading_def)
    from apply_files_trace [OF a] obtain k bs where "k \<le> length (seed_names entries)"
      "map (\<lambda>n. pl_seed_file pf (''sql/'' @ n)) (take k (seed_names entries)) = map Inr bs"
      "r' = Inr () \<longleftrightarrow> k = length (seed_names entries)"
      "q' = ?p\<lparr>pr_trace := pr_trace ?p @ map Executed bs\<rparr>" by blast
    then have "pl_seed_dir pf = Inr entries \<and> k \<le> length (seed_names entries) \<and>
       map (\<lambda>n. pl_seed_file pf (''sql/'' @ n)) (take k (seed_names entries)) = map Inr bs \<and>
       (r = Inr () \<longleftrightarrow> k = length (seed_names entries)) \<and>
       q = p\<lparr>pr_trace := pr_trace p @ [Opened Seed_pool] @ map Executed bs @ [Closed Seed_pool]\<rparr>"
      using Inr by (simp add: r q)
    then show ?thesis by blast
  qed
qed

text \<open>A run is a subcommand, or it serves the application from an empty trace.\<close>

lemma run_main_cases:
  assumes "run_main pf env cfg args = (tr, e)"
  obtains (Migrating) rest where "args = ''migrate'' # rest" "tr = [] \<or> tr = [Migrated]"
  | (Refused) rest where "args = ''seed'' # rest" "IsProduction cfg" "tr = []"
      "e = Fatal ''seed refused in production''"
  | (Seeding) rest r q where "args = ''seed'' # rest" "\<not> IsProduction cfg"
      "applySeed pf cfg fresh_proc = (r, q)" "pr_defers q = [] \<Longrightarrow> tr = pr_trace q"
      "e = (if r = Inr () then Returned else Fatal ''Demo seed failed'')"
  | (Serving) r q where "serve_app pf env cfg fresh_proc = (r, q)"
      "tr = pr_trace q @ (case r of Inl (Fatal why) \<Rightarrow> [] | _ \<Rightarrow> pr_defers q)"
      "e = (case r of Inl e \<Rightarrow> e | Inr _ \<Rightarrow> Returned)"
proof -
  consider rest where "args = ''migrate'' # rest" | rest where "args = ''seed'' # rest"
    | "args = [] \<or> (\<exists>c rest. args = c # rest \<and> c \<noteq> ''migrate'' \<and> c \<noteq> ''seed'')"
    by (cases args) auto
  then show ?thesis
  proof cases
    case (1 rest)
    with assms that(1) [of rest] show ?thesis
      by (auto simp: run_main_def runSubcommand_def seq_def fresh_proc_def run_defers_def
          split: option.splits)
  next
    case (2 rest)
    obtain r q where a: "applySeed pf cfg fresh_proc = (r, q)" by fastforce
    show ?thesis
    proof (cases "IsProduction cfg")
      case True
      with 2 assms that(2) [of rest] show ?thesis
        by (auto simp: run_main_def runSubcommand_def seq_def fresh_proc_def)
    next
      case False
      show ?thesis
        by (rule that(3) [OF 2 False a])
          (use 2 False a assms in \<open>auto simp: run_main_def runSubcommand_def seq_def run_defers_def
             split: sum.splits\<close>)
    qed
  next
    case 3
    obtain r q where s: "serve_app pf env cfg fresh_proc = (r, q)" by fastforce
    from 3 assms s have "(tr, e) = (case r of Inr _ \<Rightarrow> (pr_trace (run_defers q), Returned)
      | Inl (Fatal why) \<Rightarrow> (pr_trace q, Fatal why) | Inl e \<Rightarrow> (pr_trace (run_defers q), e))"
      by (auto simp: run_main_def runSubcommand_def seq_def)
    then show ?thesis
      by (intro that(4) [OF s]) (auto simp: run_defers_def split: sum.splits ending.splits)
  qed
qed

lemma tidy_beside [preserve_intros]: "preserves tidy m \<Longrightarrow> preserves tidy (beside_listener None m)"
  by (simp add: preserves_def beside_listener_def)

lemma absent_beside [preserve_intros]:
  "preserves (\<lambda>p. x \<notin> set (pr_trace p)) m \<Longrightarrow> preserves (\<lambda>p. x \<notin> set (pr_trace p)) (beside_listener fails m)"
  by (auto simp: preserves_def beside_listener_def dest: in_set_takeD split: option.split)

text \<open>On every way out that is not fatal, what is open is deferred.\<close>

lemma tidy_serve:
  assumes "serve_app pf env cfg fresh_proc = (r, q)" and "\<And>why. r \<noteq> Inl (Fatal why)"
  shows "tidy q"
proof (cases "pl_listener pf ('':'' @ sc_Port (Service cfg))")
  case None
  have "preserves tidy (serve_app pf env cfg)"
    unfolding serve_app_def None shutdown_def shutdownTelemetry_def drain_def stop_servers_def Let_def
    by (intro preserve_intros; (intro preserve_intros)?; simp)+
  with assms(1) show ?thesis using preservesD tidy_fresh by metis
next
  case (Some k)
  obtain x p1 where b: "boot pf env cfg fresh_proc = (x, p1)" by fastforce
  with assms Some have "\<exists>e. x = Inl e" "p1 = q"
    by (auto simp: serve_app_def seq_def beside_listener_def split: sum.splits)
  with b show ?thesis using preservesD [OF tidy_boot tidy_fresh] by metis
qed

lemma boot_silent:
  assumes "boot pf env cfg fresh_proc = (x, p1)"
  shows "tidy p1" and "Signal_received \<notin> set (pr_trace p1)" and "Signal_received \<notin> set (pr_defers p1)"
proof -
  show "tidy p1" using preservesD [OF tidy_boot tidy_fresh assms] .
  then show "Signal_received \<notin> set (pr_defers p1)" by (auto simp: tidy_def)
  show "Signal_received \<notin> set (pr_trace p1)"
    using unsignalled [of fresh_proc pf env cfg] assms by (simp add: fresh_proc_def)
qed

text \<open>The trace and the deferred calls of a run that was signalled.\<close>

lemma signalled_run:
  assumes "serve_app pf env cfg fresh_proc = (r, q)" and "0 < GetReadinessDrainDelayDuration cfg"
    and "Signal_received \<in> set (pr_trace q) \<or> Signal_received \<in> set (pr_defers q)"
  obtains (Graceful) pre where "r = Inr ()" "Primary_pool \<in> set (opens pre)"
    "pr_trace q = pre @ [Signal_received, Not_ready, Drained (GetReadinessDrainDelayDuration cfg),
        Opened Shutdown_context, Http_stopped (GetShutdownTimeoutDuration cfg)] @
      trace_if (Grpc_started \<in> set pre) Grpc_stopped @
      [Closed Primary_pool, Process_stopped (pl_http_stop pf (GetShutdownTimeoutDuration cfg))] @
      trace_if (pl_telemetry pf) (Telemetry_flushed otelShutdownTimeout)"
    "pr_defers q = Closed Shutdown_context # map Closed (rev (opens pre))"
  | (Failed) pre k where "r = Inl (Fatal ''Failed to start server'')"
    "pl_listener pf ('':'' @ sc_Port (Service cfg)) \<noteq> None"
    "pr_trace q = pre @ Signal_received # take k [Not_ready, Drained (GetReadinessDrainDelayDuration cfg)]"
  using assms(1,2)
proof (cases rule: serve_app_cases)
  case (Stopped e)
  with boot_silent [OF Stopped(1)] assms(3) show ?thesis by blast
next
  case (Unserved a p1 k)
  with boot_silent(2) [OF Unserved(1)] assms(3) have "Signal_received \<in> set (take k (served_line cfg))"
    by auto
  then have "2 < k" by (auto simp: served_line_def take_Cons split: nat.splits)
  then obtain j where "k = Suc (Suc (Suc j))" by (metis add_2_eq_Suc less_natE)
  with that(2) [of "pr_trace p1 @ [Process_started, Opened Signal_context]" j] Unserved(2-4)
  show ?thesis by (simp add: served_line_def)
next
  case (Served a q1 q2)
  note b = boot_trace [OF Served(1)] and st = shutdown_trace [OF Served(4)]
  let ?pre = "pr_trace q1 @ [Process_started, Opened Signal_context]"
  have "pr_trace fresh_proc = []" by (simp add: fresh_proc_def)
  then have g: "Grpc_started \<in> set ?pre \<longleftrightarrow> ap_grpc a" and o: "Primary_pool \<in> set (opens ?pre)"
    by (auto simp: b(1) trace_if_def)
  have d: "pr_defers q = Closed Shutdown_context # map Closed (rev (opens ?pre))"
    using boot_silent(1) [OF Served(1)] by (simp add: st(2) Served(3) tidy_def)
  show ?thesis
    by (rule that(1) [OF st(1) o _ d]) (use g in \<open>simp add: st(3) Served(2) b(2) served_line_def\<close>)
qed


lemma split_in_first:
  assumes "before @ x # after = xs @ ys" and "x \<notin> set ys"
  shows "\<exists>rest. xs = before @ x # rest \<and> after = rest @ ys"
  using assms
proof (induction before arbitrary: xs)
  case Nil
  then show ?case by (cases xs) auto
next
  case (Cons b before)
  then show ?case by (cases xs) auto
qed


subsection \<open>Demo data\<close>

lemma seed_names_spec:
  "sorted (seed_names entries)" "set (seed_names entries) = {n \<in> set entries. HasSuffix n ''.up.sql''}"
  by (simp_all add: seed_names_def)

text \<open>
  C32. Demo data never reaches production: a run executes seed SQL only as the \<open>seed\<close>
  subcommand and only when the configured environment is not production; and then it is the
  contents of the embedded up-files in byte order of their names, up to the first one that
  cannot be read or executed, with success reported exactly when all of them were.
\<close>

theorem seed_only_outside_production:
  assumes "go_main pf env genv args = (tr, e)" and "Executed b \<in> set tr"
  shows "(\<exists>rest. args = ''seed'' # rest) \<and> \<not> IsProduction (Load genv) \<and>
    (\<exists>entries k bs. pl_seed_dir pf = Inr entries \<and> k \<le> length (seed_names entries) \<and>
      sorted (seed_names entries) \<and>
      tr = [Opened Seed_pool] @ map Executed bs @ [Closed Seed_pool] \<and>
      map (\<lambda>n. pl_seed_file pf (''sql/'' @ n)) (take k (seed_names entries)) = map Inr bs \<and>
      (e = Returned \<longleftrightarrow> k = length (seed_names entries)))"
proof -
  let ?cfg = "Load genv"
  from assms(1) have "run_main pf env ?cfg args = (tr, e)" by (simp add: go_main_def)
  then show ?thesis
  proof (cases rule: run_main_cases)
    case (Migrating rest)
    with assms(2) show ?thesis by auto
  next
    case (Refused rest)
    with assms(2) show ?thesis by simp
  next
    case (Seeding rest r q)
    have "pr_defers q = []" using applySeed_trace [OF Seeding(3)] by (auto simp: fresh_proc_def)
    with Seeding(4) have tr: "tr = pr_trace q" .
    have f: "pr_trace fresh_proc = []" by (simp add: fresh_proc_def)
    from applySeed_trace [OF Seeding(3)] assms(2) obtain entries k bs where
      "pl_seed_dir pf = Inr entries" "k \<le> length (seed_names entries)"
      "map (\<lambda>n. pl_seed_file pf (''sql/'' @ n)) (take k (seed_names entries)) = map Inr bs"
      "r = Inr () \<longleftrightarrow> k = length (seed_names entries)"
      "pr_trace q = [Opened Seed_pool] @ map Executed bs @ [Closed Seed_pool]"
      unfolding tr by (auto simp: f)
    with Seeding(1,2,5) tr seed_names_spec(1) [of entries] show ?thesis by auto
  next
    case (Serving r q)
    have e: "preserves (\<lambda>p. Executed b \<notin> set (pr_trace p)) (emit e)" if "e \<noteq> Executed b" for e :: event
      using that by (simp add: preserves_def)
    have d: "preserves (\<lambda>p. Executed b \<notin> set (pr_trace p)) (deferred e)" for e
      by (simp add: preserves_def)
    have "preserves (\<lambda>p. Executed b \<notin> set (pr_trace p)) (serve_app pf env ?cfg)"
      unfolding serve_app_def boot_def boot_parts shutdown_def shutdownTelemetry_def drain_def stop_servers_def
        serve_until_signal_def Let_def
      by (intro preserve_intros; (intro preserve_intros e d)?; simp)+
    from preservesD [OF this _ Serving(1)] have "Executed b \<notin> set (pr_trace q)"
      by (simp add: fresh_proc_def)
    moreover have "Executed b \<notin> set (pr_defers q)" if "\<And>why. r \<noteq> Inl (Fatal why)"
      using tidy_serve [OF Serving(1) that] by (auto simp: tidy_def)
    ultimately show ?thesis
      using Serving(2) assms(2) by (cases r) (auto split: ending.splits)
  qed
qed

subsection \<open>The wiring\<close>

text \<open>A request answered as usual, then lost: what the client gets when the handler panics.\<close>

fun crash_answer :: "body reply \<times> 's \<Rightarrow> body reply \<times> 's" where
  "crash_answer (Answer n b, w) = (Panicked, w)"
| "crash_answer (r, w) = (r, w)"

lemma nil_cache_panics:
  assumes "ph_cache h = Some nil_product_cache"
  shows "invalidateProduct h i w = (False, w)" "invalidateList h w = (False, w)"
    "invalidateAll h w = (False, w)"
  using assms
  by (simp_all add: invalidateProduct_def invalidateList_def invalidateAll_def ignore_error_def
      nil_product_cache_def)

lemma no_cache_skips:
  assumes "ph_cache h = None"
  shows "invalidateProduct h i w = (True, w)" "invalidateList h w = (True, w)"
    "invalidateAll h w = (True, w)"
  using assms by (simp_all add: invalidateProduct_def invalidateList_def invalidateAll_def)

lemma domain_error_not_answer [simp]: "respondDomainError e \<noteq> Answer n b"
  by (simp add: respondDomainError_def)

lemma crash_answer_failure [simp]:
  "crash_answer (respondDomainError e, w) = (respondDomainError e, w)"
  "crash_answer (bind_failure we rq, w) = (bind_failure we rq, w)"
  by (simp_all add: respondDomainError_def bind_failure_def)

lemma crash_answer_param:
  "positive_param rq = Inl r \<Longrightarrow> crash_answer (r, w) = (r, w)"
  by (auto simp: positive_param_def Let_def split: option.splits if_splits)

text \<open>
  C14. Without a cache the operator's writes crash after they have committed: when caching is
  disabled or the cache server does not answer at start-up, \<open>main\<close> hands the nil pointer of
  its cache to the handlers as a non-nil interface, and every create, update and lifecycle
  command of a product and every rename of a category that would have been answered panics
  instead, with the database as the command left it; requests that fail are answered as with
  no cache at all.
\<close>

theorem uncached_writes_panic:
  assumes "boot pf env cfg p = (Inr a, p1)" and "\<not> cache_up pf cfg"
  shows "h_CreateProduct we (ap_protected a) rq w =
      crash_answer (h_CreateProduct we (operator_handler env None) rq w) \<and>
    h_UpdateProduct we (ap_protected a) rq w =
      crash_answer (h_UpdateProduct we (operator_handler env None) rq w) \<and>
    transition we (ap_protected a) act rq w =
      crash_answer (transition we (operator_handler env None) act rq w) \<and>
    h_UpdateCategory we (ap_protected a) rq w =
      crash_answer (h_UpdateCategory we (operator_handler env None) rq w)"
proof -
  have a: "ph_repo (ap_protected a) = repo_on_world env"
    "ph_cache (ap_protected a) = Some nil_product_cache"
    using boot_wiring(1) [OF assms(1)] assms(2) by simp_all
  have n: "ph_cache (operator_handler env None) = None" by simp
  note s = a(1) nil_cache_panics [OF a(2)] no_cache_skips [OF n] finish_def
  have "h_CreateProduct we (ap_protected a) rq w =
      crash_answer (h_CreateProduct we (operator_handler env None) rq w)"
    by (simp add: h_CreateProduct_def s split: sum.split prod.split)
  moreover have "h_UpdateProduct we (ap_protected a) rq w =
      crash_answer (h_UpdateProduct we (operator_handler env None) rq w)"
    by (simp add: h_UpdateProduct_def s split: sum.split prod.split)
  moreover have "transition we (ap_protected a) act rq w =
      crash_answer (transition we (operator_handler env None) act rq w)"
    by (simp add: transition_def s split: sum.split prod.split)
  moreover have "h_UpdateCategory we (ap_protected a) rq w =
      crash_answer (h_UpdateCategory we (operator_handler env None) rq w)"
    by (simp add: h_UpdateCategory_def s crash_answer_param split: sum.split prod.split)
  ultimately show ?thesis by blast
qed

text \<open>
  The process is wired as the other properties suppose: from any environment, a cache the
  service reads is the one the operator's handlers invalidate, on the same cache server, with
  positive lifetimes that fit 64 bits; the operator's repository is the one on the primary
  database; reviews are always fetched; and availability is asked of the inventory service
  exactly when its dial succeeded.
\<close>

theorem booted_app_wired:
  assumes "boot pf env (Load genv) p = (Inr a, p1)"
  shows "(\<forall>c. sv_cache (ap_service a) = Some c \<longrightarrow> pc_client c = world_client \<and>
       0 < pc_ttlList c \<and> pc_ttlList c \<le> max_int64 \<and>
       0 < pc_ttlDetail c \<and> pc_ttlDetail c \<le> max_int64 \<and>
       ap_protected a = operator_handler env (Some c)) \<and>
     ph_repo (ap_protected a) = repo_on_world env \<and> sv_reviews (ap_service a) \<noteq> None \<and>
     (sv_availability (ap_service a) \<noteq> None \<longleftrightarrow>
       pl_dial pf (InventoryGRPCAddr (Load genv)))"
proof -
  have ttl: "0 < cc_TTLProductList (Cache (Load genv)) \<and>
      cc_TTLProductList (Cache (Load genv)) \<le> max_int64 \<and>
      0 < cc_TTLProductDetail (Cache (Load genv)) \<and>
      cc_TTLProductDetail (Cache (Load genv)) \<le> max_int64"
    using getEnvDuration_range [of 300000000000 genv "''CACHE_TTL_PRODUCT_LIST''"]
      getEnvDuration_range [of 600000000000 genv "''CACHE_TTL_PRODUCT_DETAIL''"]
    by (simp add: Load_def max_int64_def)
  have "sv_reviews (ap_service a) \<noteq> None \<and> (sv_availability (ap_service a) \<noteq> None \<longleftrightarrow>
      pl_dial pf (InventoryGRPCAddr (Load genv)))"
    using assms by (auto simp: boot_def seq_Inr_iff boot_parts Let_def NewProductService_def
        WithAvailability_def split: if_splits)
  with ttl boot_wiring [OF assms] show ?thesis
    by (auto split: if_splits)
qed

subsection \<open>The properties at concrete runs\<close>

definition calm :: platform where
  "calm = \<lparr> pl_migrate = (\<lambda>dsn. None), pl_parse = (\<lambda>dsn. None), pl_seed_connect = (\<lambda>dsn. None),
     pl_seed_dir = Inr [''000002_b.up.sql'', ''readme'', ''000001_a.up.sql''],
     pl_seed_file = (\<lambda>n. Inr n), pl_seed_exec = (\<lambda>sql. None), pl_telemetry = True,
     pl_profiling = True, pl_pool = (\<lambda>r. True), pl_ping = (\<lambda>addr pw n. True),
     pl_dial = (\<lambda>addr. True), pl_reviews = (\<lambda>addr i. Inr []), pl_inventory = (\<lambda>addr is. Inr []),
     pl_grpc_listen = (\<lambda>port. True), pl_verifier = (\<lambda>i a j. True), pl_listener = (\<lambda>port. None),
     pl_http_stop = (\<lambda>t. True) \<rparr>"

text \<open>The staging environment of a process; the cache as given.\<close>

definition staging_env :: "string \<Rightarrow> getenv" where
  "staging_env cache = (\<lambda>_. [])(''SERVICE_NAME'' := ''product'', ''ENV'' := ''staging'',
     ''CACHE_ENABLED'' := cache)"

lemma staging_valid:
  "Validate (Load (staging_env ''true'')) = []"
  "Validate (Load (staging_env ''off'')) = []"
  by code_simp+

lemma staging_parts:
  "fc_Enabled (Profiling (Load (staging_env c)))"
  "\<not> db_ReadReplica (Database (Load (staging_env c)))"
  "cc_Enabled (Cache (Load (staging_env ''true'')))"
  "\<not> cc_Enabled (Cache (Load (staging_env ''off'')))"
  by (simp_all add: Load_def staging_env_def getEnvBool_def to_lower_def ascii_lower_def Let_def)

definition staging_app :: app where
  "staging_app = \<lparr> ap_service = \<lparr> sv_repo = NewPostgresProductRepository Primary, sv_cache = None, sv_reviews = Some (GetProductReviews (\<lambda>i. Inr [])),
       sv_availability = Some (GetAvailability (\<lambda>is. Inr [])) \<rparr>,
     ap_protected = \<lparr> ph_repo = repo_on_world std_env, ph_cache = Some nil_product_cache \<rparr>,
     ap_grpc = True, ap_telemetry = True \<rparr>"

lemma uncached_boot:
  "\<exists>p. boot calm std_env (Load (staging_env ''off'')) fresh_proc = (Inr staging_app, p)"
  by (simp add: boot_def seq_def staging_valid boot_parts staging_parts calm_def Let_def
      NewProductService_def WithAvailability_def NewProtectedHandler_def as_catalogCache_def
      staging_app_def)

theorem uncached_writes_panic_witness:
  "\<exists>p w. boot calm std_env (Load (staging_env ''off'')) fresh_proc = (Inr staging_app, p) \<and>
     transition sample_web (ap_protected staging_app) ActionArchive (bare_request ''1'') sample_world =
       (Panicked, w) \<and>
     w_db w = snd (Transition std_env (transition_input ActionArchive [] (bare_request ''1'')) sample_db)"
proof -
  obtain p where b: "boot calm std_env (Load (staging_env ''off'')) fresh_proc =
      (Inr staging_app, p)" using uncached_boot by blast
  obtain pr d where t: "Transition std_env (transition_input ActionArchive [] (bare_request ''1''))
      sample_db = (Inr pr, d)" using sample_archive_run by blast
  have "transition sample_web (operator_handler std_env None) ActionArchive (bare_request ''1'')
      sample_world = (Answer 200 (Product_body pr), sample_world\<lparr>w_db := d\<rparr>)"
    using t by (simp add: transition_def bare_request_def on_db_def finish_def invalidateProduct_def
        repo_on_world_def)
  with uncached_writes_panic [OF b, of sample_web "bare_request ''1''" sample_world ActionArchive] b t
  show ?thesis by (simp add: cache_up_def staging_parts)
qed

theorem booted_app_wired_witness:
  "\<exists>a p c. boot calm std_env (Load (staging_env ''true'')) fresh_proc = (Inr a, p) \<and>
     sv_cache (ap_service a) = Some c \<and> ap_protected a = operator_handler std_env (Some c)"
proof -
  have "\<exists>a p. boot calm std_env (Load (staging_env ''true'')) fresh_proc = (Inr a, p) \<and>
      sv_cache (ap_service a) \<noteq> None"
    by (simp add: boot_def seq_def staging_valid boot_parts staging_parts calm_def Let_def
        NewProductService_def WithAvailability_def)
  then obtain a p c where "boot calm std_env (Load (staging_env ''true'')) fresh_proc =
      (Inr a, p)" "sv_cache (ap_service a) = Some c" by blast
  with booted_app_wired [OF this(1)] show ?thesis by blast
qed

lemma staging_delays:
  "GetReadinessDrainDelayDuration (Load (staging_env c)) = 5000000000"
  "GetShutdownTimeoutDuration (Load (staging_env c)) = 10000000000"
  by (simp_all add: Load_def staging_env_def GetReadinessDrainDelayDuration_def
      GetShutdownTimeoutDuration_def getEnvDurationSeconds_def getEnvDurationSecondsWithMax_def
      short_wrap [of 5, simplified] short_wrap [of 10, simplified])

lemma staging_run:
  "go_main calm std_env (staging_env ''true'') [] =
     ([Opened Profiling_agent, Opened Primary_pool, Opened Cache_conn, Opened Review_conn,
       Opened Inventory_conn, Grpc_started, Process_started, Opened Signal_context,
       Signal_received, Not_ready, Drained 5000000000, Opened Shutdown_context,
       Http_stopped 10000000000, Grpc_stopped, Closed Primary_pool, Process_stopped True,
       Telemetry_flushed 5000000000, Closed Shutdown_context, Closed Signal_context,
       Closed Inventory_conn, Closed Review_conn, Closed Cache_conn, Closed Primary_pool,
       Closed Profiling_agent], Returned)"
  by (simp add: go_main_def run_main_def serve_app_def boot_def seq_def staging_valid boot_parts
      staging_parts staging_delays calm_def Let_def serve_until_signal_def beside_listener_def
      shutdown_def shutdownTelemetry_def drain_def
      stop_servers_def otelShutdownTimeout_def run_defers_def fresh_proc_def)


text \<open>The review service cannot be dialled: the process returns, and closes what it opened.\<close>

lemma undialled_run:
  "go_main (calm\<lparr>pl_dial := \<lambda>addr. False\<rparr>) std_env (staging_env ''true'') [] =
     ([Opened Profiling_agent, Opened Primary_pool, Opened Cache_conn, Closed Cache_conn,
       Closed Primary_pool, Closed Profiling_agent], Returned)"
  by code_simp


lemma seed_run:
  "go_main calm std_env (staging_env ''true'') [''seed''] =
     ([Opened Seed_pool, Executed ''sql/000001_a.up.sql'', Executed ''sql/000002_b.up.sql'',
       Closed Seed_pool], Returned)"
  by code_simp

theorem seed_only_outside_production_witness:
  "\<not> IsProduction (Load (staging_env ''true'')) \<and>
   go_main calm std_env plain_env [''seed''] = ([], Fatal ''seed refused in production'')"
proof -
  have "go_main calm std_env plain_env [''seed''] = ([], Fatal ''seed refused in production'')"
    by code_simp
  with seed_only_outside_production [OF seed_run, of "''sql/000001_a.up.sql''"] show ?thesis by simp
qed

end
