(* ===== verification/Engine.thy ===== *)
theory Engine
  imports Startup_Spec
begin

section \<open>The process in service: routes, requests and the drain\<close>

text \<open>
  The part of \<open>main\<close> between the wiring and the shutdown: the table of routes of the gin
  engine over the handlers of a booted process, and the life of the process while it serves,
  as a machine whose acts are the requests that arrive, what happens to the servers around
  it, and the shutdown. A request is one act; transactions that interleave are the subject of
  \<open>Row_Locks\<close>. Matching a path against a pattern is the framework's: a request comes with the
  pattern it matched, its path parameter, the random bytes it would draw for a lock token and
  what its polling loop would receive.
\<close>

subsection \<open>Routes\<close>

datatype wire = W_page "product Paginated" | W_product product
  | W_details "(string \<times> detail_part) list" | W_admin body | W_status string

type_synonym wire_handler = "request \<Rightarrow> world \<Rightarrow> wire reply \<times> world"

definition sends :: "('b \<Rightarrow> wire) \<Rightarrow> (request \<Rightarrow> world \<Rightarrow> 'b reply \<times> world) \<Rightarrow> wire_handler" where
  "sends f hnd rq w = (case hnd rq w of (r, w') \<Rightarrow> (map_reply f r, w'))"

definition status_page :: "nat \<times> string \<Rightarrow> wire_handler" where
  "status_page x rq w = (Answer (int (fst x)) (W_status (snd x)), w)"

definition protected_group :: string where "protected_group = ''/product/v1/protected''"

definition public_routes :: "dbenv \<Rightarrow> cache_env \<Rightarrow> ProductService \<Rightarrow> string \<Rightarrow> world rounds \<Rightarrow>
    (meth \<times> string \<times> wire_handler) list" where
  "public_routes env cenv sv token rounds =
     [(GET, ''/product/v1/public/products'', sends W_page (http_ListProducts env cenv sv)),
      (GET, ''/product/v1/public/products/:id'',
        sends W_product (http_GetProduct env cenv sv token rounds)),
      (GET, ''/product/v1/public/products/:id/details'',
        sends W_details (http_GetProductDetails env cenv sv token rounds))]"

definition protected_routes :: "web_env \<Rightarrow> middleware list \<Rightarrow> world ProtectedHandler \<Rightarrow>
    (meth \<times> string \<times> wire_handler) list" where
  "protected_routes we mws h = map (\<lambda>(m, pat, hnd). (m, protected_group @ pat,
     sends W_admin (guarded mws hnd))) (mount we h)"

definition engine_routes :: "web_env \<Rightarrow> middleware list \<Rightarrow> dbenv \<Rightarrow> cache_env \<Rightarrow> app \<Rightarrow> bool \<Rightarrow>
    string \<Rightarrow> world rounds \<Rightarrow> (meth \<times> string \<times> wire_handler) list" where
  "engine_routes we mws env cenv a isShuttingDown token rounds =
     [(GET, ''/health'', status_page health_reply),
      (GET, ''/ready'', status_page (ready_reply isShuttingDown))] @
     public_routes env cenv (ap_service a) token rounds @
     protected_routes we mws (ap_protected a)"

record visit =
  vi_meth :: meth
  vi_pattern :: string
  vi_request :: request
  vi_random :: string
  vi_rounds :: "world rounds"

definition ServeHTTP :: "web_env \<Rightarrow> middleware list \<Rightarrow> dbenv \<Rightarrow> cache_env \<Rightarrow> app \<Rightarrow> bool \<Rightarrow>
    visit \<Rightarrow> world \<Rightarrow> wire reply \<times> world" where
  "ServeHTTP we mws env cenv a isShuttingDown v w =
     (case find (\<lambda>r. fst r = vi_meth v \<and> fst (snd r) = vi_pattern v)
        (engine_routes we mws env cenv a isShuttingDown (newLockToken (vi_random v)) (vi_rounds v)) of
        None \<Rightarrow> (Failure 404 CodeNotFound [], w)
      | Some r \<Rightarrow> snd (snd r) (vi_request v) w)"

subsection \<open>The life of the process\<close>

datatype stage = Serving | Draining | Closed_down

datatype act = Arrives visit | Cache_server valkey | Clock_ticks nat | Database_link "fault list"
  | Replica_is db
  | Signalled | Http_closes

text \<open>
  \<open>isShuttingDown\<close> is set when the signal arrives; the HTTP server takes requests until
  \<open>srv.Shutdown\<close>, after the drain.
\<close>

fun node_step :: "web_env \<Rightarrow> middleware list \<Rightarrow> dbenv \<Rightarrow> cache_env \<Rightarrow> app \<Rightarrow> act \<Rightarrow>
    stage \<times> world \<Rightarrow> wire reply option \<times> stage \<times> world" where
  "node_step we mws env cenv a (Arrives v) (st, w) =
     (if st = Closed_down then (None, st, w)
      else case ServeHTTP we mws env cenv a (st = Draining) v w of (r, w') \<Rightarrow> (Some r, st, w'))"
| "node_step we mws env cenv a (Cache_server k) (st, w) = (None, st, w\<lparr>w_vk := k\<rparr>)"
| "node_step we mws env cenv a (Clock_ticks n) (st, w) =
     (None, st, w\<lparr>w_db := w_db w\<lparr>clock := clock (w_db w) + int n\<rparr>\<rparr>)"
| "node_step we mws env cenv a (Database_link fs) (st, w) =
     (None, st, w\<lparr>w_db := w_db w\<lparr>faults := fs\<rparr>\<rparr>)"
| "node_step we mws env cenv a (Replica_is d) (st, w) = (None, st, w\<lparr>w_replica := d\<rparr>)"
| "node_step we mws env cenv a Signalled (st, w) =
     (None, if st = Serving then Draining else st, w)"
| "node_step we mws env cenv a Http_closes (st, w) =
     (None, if st = Draining then Closed_down else st, w)"

definition run_node :: "web_env \<Rightarrow> middleware list \<Rightarrow> dbenv \<Rightarrow> cache_env \<Rightarrow> app \<Rightarrow> act list \<Rightarrow>
    stage \<times> world \<Rightarrow> stage \<times> world" where
  "run_node we mws env cenv a acts x = fold (\<lambda>e y. snd (node_step we mws env cenv a e y)) acts x"

end
