(* ===== verification/Engine_Spec.thy ===== *)
theory Engine_Spec
  imports Engine Row_Locks
begin

section \<open>The whole service: what its requests do to the catalog\<close>

text \<open>
  The composition of the layers: whatever requests reach a booted process, on whatever route,
  with whatever the cache and the connections do, the database goes through a history of
  operator commands, each sent by the verified subject of one of the requests. So everything
  shown of such histories in \<open>Operator_Spec\<close> holds of the running service.
\<close>

subsection \<open>Histories made of given commands\<close>

fun cmd_actor :: "admin_cmd \<Rightarrow> string \<times> string" where
  "cmd_actor (Do_create i) = (ci_ActorSub i, ci_RequestID i)"
| "cmd_actor (Do_update i) = (ui_ActorSub i, ui_RequestID i)"
| "cmd_actor (Do_transition i) = (ti_ActorSub i, ti_RequestID i)"
| "cmd_actor (Do_create_category n d a q) = (a, q)"
| "cmd_actor (Do_update_category cid n d a q) = (a, q)"

definition evolves :: "dbenv \<Rightarrow> admin_cmd set \<Rightarrow> db \<Rightarrow> db \<Rightarrow> bool" where
  "evolves env A d d' \<longleftrightarrow> (\<exists>es. {c. Command c \<in> set es} \<subseteq> A \<and> d' = run_events env es d)"

lemma run_events_append: "run_events env (es @ fs) d = run_events env fs (run_events env es d)"
  by (simp add: run_events_def)

lemma evolves_refl [simp]: "evolves env A d d"
  unfolding evolves_def by (intro exI [of _ "[]"]) (simp add: run_events_def)

lemma evolves_trans: "evolves env A d e \<Longrightarrow> evolves env A e f \<Longrightarrow> evolves env A d f"
proof -
  assume "evolves env A d e" and "evolves env A e f"
  then obtain es fs where "{c. Command c \<in> set es} \<subseteq> A" "e = run_events env es d"
    "{c. Command c \<in> set fs} \<subseteq> A" "f = run_events env fs e" by (auto simp: evolves_def)
  then show ?thesis
    unfolding evolves_def by (intro exI [of _ "es @ fs"]) (auto simp: run_events_append)
qed

lemma evolves_mono: "evolves env A d e \<Longrightarrow> A \<subseteq> B \<Longrightarrow> evolves env B d e"
  unfolding evolves_def by blast

lemma evolves_event:
  "(\<And>c. e = Command c \<Longrightarrow> c \<in> A) \<Longrightarrow> evolves env A d (run_event env e d)"
  unfolding evolves_def by (intro exI [of _ "[e]"]) (auto simp: run_events_def)

lemma evolves_cmd: "c \<in> A \<Longrightarrow> evolves env A d (snd (run_cmd env c d))"
  using evolves_event [of "Command c" A env d] by simp

lemma evolves_link [simp]: "evolves env A d (d\<lparr>faults := fs\<rparr>)"
  using evolves_event [of "Connection fs" A env d] by simp

lemma evolves_clock [simp]: "evolves env A d (d\<lparr>clock := clock d + int n\<rparr>)"
  using evolves_event [of "Tick n" A env d] by simp

lemma evolves_plain:
  assumes "evolves env A d d'" and "A \<subseteq> {c. plain_id env c}"
  obtains es where "list_all (plain_event env) es" and "d' = run_events env es d"
proof -
  from assms(1) obtain es where es: "{c. Command c \<in> set es} \<subseteq> A" "d' = run_events env es d"
    by (auto simp: evolves_def)
  have "plain_event env e" if "e \<in> set es" for e
  proof (cases e)
    case (Command c)
    with that es(1) assms(2) have "plain_id env c" by blast
    with Command show ?thesis by simp
  qed simp_all
  then have "list_all (plain_event env) es" by (simp add: list_all_iff)
  with es(2) that show ?thesis by blast
qed

text \<open>A version of a product once reached is never left again.\<close>

lemma evolves_floor:
  assumes "evolves env A d d'" and "scan_ok env" and "numeric2_ok env" and "db_inv d"
    and "version_floor n v (tables_of d)"
  shows "db_inv d' \<and> version_floor n v (tables_of d')"
proof -
  from assms(1) obtain es where es: "d' = run_events env es d" by (auto simp: evolves_def)
  show ?thesis
    unfolding es
    by (rule run_events_induct [where I = "version_floor n v", OF assms(2-5)]) (rule floor_step)
qed

subsection \<open>Reads of the database\<close>

lemma query_evolves [preserve_intros]: "preserves (evolves env A d) (query q)"
proof (rule preservesI)
  fix s r t assume "evolves env A d s" and "query q s = (r, t)"
  from this(2) have "\<exists>fs. t = s\<lparr>faults := fs\<rparr>"
    by (cases "faults s") (auto simp: query_def stmt_def Let_def split: fault.splits
        intro: exI [of _ "[]"] exI [of _ "faults s"])
  then obtain fs where "t = s\<lparr>faults := fs\<rparr>" by blast
  with \<open>evolves env A d s\<close> show "evolves env A d t" using evolves_trans evolves_link by blast
qed

lemma reads_evolve:
  "preserves (evolves env A d) (FindByID e ident)" "preserves (evolves env A d) (FindByIDs e ids)"
  "preserves (evolves env A d) (FindAll e f)" "preserves (evolves env A d) (Count e f)"
  "preserves (evolves env A d) (FindRelatedProducts e ident l)"
  "preserves (evolves env A d) (ListProducts e st l k)"
  "preserves (evolves env A d) (GetProduct e ident)"
  "preserves (evolves env A d) (ListCategories e l k)"
  "preserves (evolves env A d) (ListAudit e tt tid l)"
  unfolding FindByID_def FindByIDs_def FindAll_def Count_def FindRelatedProducts_def Let_def
    ListProducts_def GetProduct_def select_product_def ListCategories_def ListAudit_def
  by (intro preserve_intros)+

subsection \<open>Reads through the cache\<close>

text \<open>What the other workers do while this one waits for the lock.\<close>

definition others_evolve :: "dbenv \<Rightarrow> admin_cmd set \<Rightarrow> world rounds \<Rightarrow> bool" where
  "others_evolve env A rounds \<longleftrightarrow> (\<forall>x \<in> set rounds. \<forall>w. evolves env A (w_db w) (w_db (fst x w)))"

definition cache_wired :: "ProductService \<Rightarrow> bool" where
  "cache_wired sv \<longleftrightarrow> (\<forall>c. sv_cache sv = Some c \<longrightarrow> pc_client c = world_client)"

abbreviation db_evolves :: "dbenv \<Rightarrow> admin_cmd set \<Rightarrow> db \<Rightarrow> world \<Rightarrow> bool" where
  "db_evolves env A d w \<equiv> evolves env A d (w_db w)"

lemma on_db_evolves [preserve_intros]:
  "preserves (evolves env A d) m \<Longrightarrow> preserves (db_evolves env A d) (on_db m)"
  by (simp add: preserves_def)

lemma on_pool_evolves:
  assumes "preserves (evolves env A d) m"
  shows "preserves (db_evolves env A d) (on_pool p m)"
  using assms by (cases p) (simp_all add: on_pool_def preserves_def)

lemma cache_keeps_db [simp]:
  assumes "pc_client c = world_client"
  shows "w_db (snd (pc_GetProduct c i w)) = w_db w" and "w_db (snd (pc_SetProduct cenv c i p w)) = w_db w"
    and "w_db (snd (pc_GetProductList c f w)) = w_db w"
    and "w_db (snd (pc_SetProductList cenv c f ps n w)) = w_db w"
  using assms
  by (simp_all add: pc_GetProduct_def pc_SetProduct_def pc_GetProductList_def pc_SetProductList_def
      seq_def on_vk_def give_def raise_def split: prod.split sum.split option.split)

lemma cache_evolves:
  assumes "pc_client c = world_client"
  shows "preserves (db_evolves env A d) (pc_GetProduct c i)"
    and "preserves (db_evolves env A d) (pc_GetProductList c f)"
  using assms by (simp_all add: preserves_def)

lemma fetch_as_owner_evolves:
  assumes "pc_client c = world_client" and "preserves (db_evolves env A d) fetch"
  shows "preserves (db_evolves env A d) (fetch_as_owner cenv c i token fetch)"
proof (rule preservesI)
  fix s r t assume s: "db_evolves env A d s" and run: "fetch_as_owner cenv c i token fetch s = (r, t)"
  obtain x s1 where f: "fetch s = (x, s1)" by fastforce
  with s assms(2) have "db_evolves env A d s1" by (metis preservesD)
  moreover have "w_db t = w_db s1"
    using run f assms(1) by (cases x) (auto simp: fetch_as_owner_def Let_def)
  ultimately show "db_evolves env A d t" by simp
qed

lemma wait_loop_evolves:
  assumes "pc_client c = world_client" and "preserves (db_evolves env A d) fetch"
    and "others_evolve env A rounds"
  shows "preserves (db_evolves env A d) (wait_loop c i fetch rounds)"
  using assms(3)
proof (induction rounds)
  case Nil
  then show ?case using assms(2) by (simp add: preserves_def)
next
  case (Cons x rounds)
  obtain g wk where x: "x = (g, wk)" by fastforce
  from Cons have IH: "preserves (db_evolves env A d) (wait_loop c i fetch rounds)"
    by (simp add: others_evolve_def)
  have g: "db_evolves env A d (g s)" if "db_evolves env A d s" for s
    using evolves_trans [OF that] Cons.prems by (simp add: others_evolve_def x)
  have "db_evolves env A d (snd (wait_loop c i fetch (x # rounds) s))" if s: "db_evolves env A d s" for s
  proof -
    obtain r s2 where p: "pc_GetProduct c i (g s) = (r, s2)" by fastforce
    with g [OF s] cache_keeps_db(1) [OF assms(1), of i "g s"] have "db_evolves env A d s2" by simp
    with g [OF s] p IH assms(2) show ?thesis
      by (cases wk) (auto simp: x Let_def preserves_def split: sum.split option.split)
  qed
  then show ?case by (simp add: preserves_def)
qed

lemma GetProductOrSet_evolves:
  assumes "pc_client c = world_client" and "preserves (db_evolves env A d) fetch"
    and "others_evolve env A rounds"
  shows "preserves (db_evolves env A d) (GetProductOrSet cenv c i token rounds fetch)"
proof (rule preservesI)
  fix s r t
  assume s: "db_evolves env A d s" and run: "GetProductOrSet cenv c i token rounds fetch s = (r, t)"
  obtain x s1 where g: "pc_GetProduct c i s = (x, s1)" by fastforce
  obtain y s2 where n: "cc_SetNX (pc_client c) (lock_key i) (Bytes token) lock_ttl s1 = (y, s2)" by fastforce
  have s1: "db_evolves env A d s1" using s g cache_keeps_db(1) [OF assms(1), of i s] by simp
  then have "db_evolves env A d s2" using n assms(1) on_vk_simps(3) by (metis snd_conv world_client_sel(3))
  then have "db_evolves env A d (snd (fetch s2))"
    "db_evolves env A d (snd (fetch_as_owner cenv c i token fetch s2))"
    "db_evolves env A d (snd (wait_loop c i fetch rounds s2))"
    by (simp_all add: preserves_snd [OF assms(2)] preserves_snd [OF fetch_as_owner_evolves [OF assms(1,2)]]
        preserves_snd [OF wait_loop_evolves [OF assms]])
  with s1 have "db_evolves env A d (snd (GetProductOrSet cenv c i token rounds fetch s))"
    by (simp add: GetProductOrSet_def g n split: sum.split option.split)
  with run show "db_evolves env A d t" by simp
qed

lemma service_evolves:
  assumes "cache_wired sv" and "others_evolve env A rounds"
  shows "preserves (db_evolves env A d) (sv_GetProduct env cenv sv token rounds i)"
    and "preserves (db_evolves env A d) (GetProductDetails env cenv sv token rounds i)"
    and "preserves (db_evolves env A d) (sv_ListProducts env cenv sv f)"
proof -
  have f: "preserves (db_evolves env A d) (on_db (FindByID env i))"
    by (intro preserve_intros reads_evolve)
  then show p: "preserves (db_evolves env A d) (sv_GetProduct env cenv sv token rounds i)"
    unfolding sv_GetProduct_def
    by (intro preserves_on_err, cases "sv_cache sv")
       (use f GetProductOrSet_evolves [OF _ f assms(2)] assms(1) in \<open>simp_all add: cache_wired_def\<close>)
  have rel: "preserves (db_evolves env A d) (GetRelatedProducts env sv i l)" for l
    unfolding GetRelatedProducts_def by (intro on_pool_evolves reads_evolve)
  show "preserves (db_evolves env A d) (GetProductDetails env cenv sv token rounds i)"
    unfolding GetProductDetails_def
    by (rule preserves_seq [OF p])
       (simp add: preserves_def Let_def case_prod_unfold preserves_snd [OF rel])
  have q: "preserves (db_evolves env A d) (query_list env f)"
    unfolding query_list_def by (intro preserve_intros reads_evolve)
  show "preserves (db_evolves env A d) (sv_ListProducts env cenv sv f)"
  proof (cases "sv_cache sv")
    case (Some c)
    then have c: "pc_client c = world_client" using assms(1) by (simp add: cache_wired_def)
    show ?thesis
    proof (rule preservesI)
      fix s r t assume s: "db_evolves env A d s" and run: "sv_ListProducts env cenv sv f s = (r, t)"
      obtain x s1 where g: "pc_GetProductList c f s = (x, s1)" by fastforce
      obtain y s2 where l: "query_list env f s1 = (y, s2)" by fastforce
      have s1: "db_evolves env A d s1" using s g cache_keeps_db(3) [OF c, of f s] by simp
      with l q have "db_evolves env A d s2" by (metis preservesD)
      with run s1 g l c show "db_evolves env A d t"
        by (auto simp: sv_ListProducts_def Some split: sum.splits option.splits)
    qed
  qed (simp add: sv_ListProducts_def q)
qed

subsection \<open>The privileged handlers\<close>

text \<open>The commands a request can issue: in the name of its actor, on the product it names.\<close>

definition issued :: "request \<Rightarrow> admin_cmd set" where
  "issued rq = {c. cmd_actor c = actor rq \<and> (\<forall>t. subject c = Some t \<longrightarrow> t = rq_param rq)}"

definition sent_by :: "middleware list \<Rightarrow> visit \<Rightarrow> admin_cmd set" where
  "sent_by mws v = (case admitted mws (vi_request v) of None \<Rightarrow> {}
     | Some rq \<Rightarrow> if vi_meth v = GET then {} else issued rq)"

definition cache_apart :: "world ProtectedHandler \<Rightarrow> bool" where
  "cache_apart h \<longleftrightarrow> (\<forall>x. ph_cache h = Some x \<longrightarrow>
     (\<forall>w. w_db (snd (xc_InvalidateProductList x w)) = w_db w) \<and>
     (\<forall>i w. w_db (snd (xc_InvalidateProduct x i w)) = w_db w))"

lemma ignore_error_db: "w_db (snd (f w)) = w_db w \<Longrightarrow> w_db (snd (ignore_error f w)) = w_db w"
  by (cases "f w") (simp add: ignore_error_def split: option.split)

lemma finish_apart [simp]:
  assumes "cache_apart h"
  shows "w_db (snd (finish r (invalidateProduct h i w))) = w_db w"
    and "w_db (snd (finish r (invalidateList h w))) = w_db w"
    and "w_db (snd (finish r (invalidateAll h w))) = w_db w"
proof -
  show "w_db (snd (finish r (invalidateList h w))) = w_db w"
    "w_db (snd (finish r (invalidateAll h w))) = w_db w"
    using assms by (auto simp: finish_def invalidateList_def invalidateAll_def cache_apart_def
        ignore_error_db split: option.split)
  show "w_db (snd (finish r (invalidateProduct h i w))) = w_db w"
  proof (cases "ph_cache h")
    case (Some x)
    obtain b w1 where 1: "ignore_error (xc_InvalidateProduct x i) w = (b, w1)" by fastforce
    have "w_db w1 = w_db w" "w_db (snd (ignore_error (xc_InvalidateProductList x) w1)) = w_db w1"
      using ignore_error_db [of "xc_InvalidateProduct x i" w] assms 1
      by (simp_all add: cache_apart_def Some ignore_error_db)
    then show ?thesis by (cases b) (simp_all add: finish_def invalidateProduct_def Some 1)
  qed (simp add: finish_def invalidateProduct_def)
qed

lemma writes_evolve:
  assumes "ph_repo h = repo_on_world env" and "cache_apart h"
  shows "evolves env (issued rq) (w_db w) (w_db (snd (h_CreateProduct we h rq w)))"
    and "evolves env (issued rq) (w_db w) (w_db (snd (h_UpdateProduct we h rq w)))"
    and "evolves env (issued rq) (w_db w) (w_db (snd (transition we h act rq w)))"
    and "evolves env (issued rq) (w_db w) (w_db (snd (h_CreateCategory we h rq w)))"
    and "evolves env (issued rq) (w_db w) (w_db (snd (h_UpdateCategory we h rq w)))"
proof -
  obtain sub rid where ac: "actor rq = (sub, rid)" by fastforce
  have "evolves env (issued rq) d (snd (CreateProduct env (create_input cb rq) d))"
    "evolves env (issued rq) d (snd (UpdateProduct env (update_input ub rq) d))"
    "evolves env (issued rq) d (snd (Transition env (transition_input act b rq) d))"
    "evolves env (issued rq) d (snd (CreateCategory n ds sub rid d))"
    "evolves env (issued rq) d (snd (UpdateCategory env cid n ds sub rid d))" for d cb ub b n ds cid
    using evolves_cmd [of "Do_create (create_input cb rq)" "issued rq" env d]
      evolves_cmd [of "Do_update (update_input ub rq)" "issued rq" env d]
      evolves_cmd [of "Do_transition (transition_input act b rq)" "issued rq" env d]
      evolves_cmd [of "Do_create_category n ds sub rid" "issued rq" env d]
      evolves_cmd [of "Do_update_category cid n ds sub rid" "issued rq" env d]
    by (simp_all add: issued_def ac)
  note cmds = this and s = reply_db finish_apart [OF assms(2)] assms(1)
  show "evolves env (issued rq) (w_db w) (w_db (snd (h_CreateProduct we h rq w)))"
    by (simp add: h_CreateProduct_def s cmds split: sum.split)
  show "evolves env (issued rq) (w_db w) (w_db (snd (h_UpdateProduct we h rq w)))"
    by (simp add: h_UpdateProduct_def s cmds split: sum.split)
  show "evolves env (issued rq) (w_db w) (w_db (snd (transition we h act rq w)))"
    by (simp add: transition_def s cmds split: sum.split)
  show "evolves env (issued rq) (w_db w) (w_db (snd (h_CreateCategory we h rq w)))"
    by (simp add: h_CreateCategory_def ac s cmds split: sum.split)
  show "evolves env (issued rq) (w_db w) (w_db (snd (h_UpdateCategory we h rq w)))"
    by (simp add: h_UpdateCategory_def ac s cmds split: sum.split)
qed

lemma protected_reads_evolve:
  assumes "ph_repo h = repo_on_world env"
  shows "evolves env A (w_db w) (w_db (snd (h_ListProducts we h rq w)))"
    and "evolves env A (w_db w) (w_db (snd (h_GetProduct h rq w)))"
    and "evolves env A (w_db w) (w_db (snd (ProductAudit h rq w)))"
    and "evolves env A (w_db w) (w_db (snd (h_ListCategories we h rq w)))"
proof -
  obtain page size where pp: "ParsePage we rq = (page, size)" by fastforce
  note r = reads_evolve [THEN preserves_snd, OF evolves_refl] and s = reply_db assms
  show "evolves env A (w_db w) (w_db (snd (h_ListProducts we h rq w)))"
    by (simp add: h_ListProducts_def pp Let_def s r)
  show "evolves env A (w_db w) (w_db (snd (h_GetProduct h rq w)))"
    by (simp add: h_GetProduct_def s r)
  show "evolves env A (w_db w) (w_db (snd (ProductAudit h rq w)))"
    by (simp add: ProductAudit_def s r split: sum.split)
  show "evolves env A (w_db w) (w_db (snd (h_ListCategories we h rq w)))"
    by (simp add: h_ListCategories_def pp s r)
qed

subsection \<open>A request\<close>

definition app_wired :: "dbenv \<Rightarrow> app \<Rightarrow> bool" where
  "app_wired env a \<longleftrightarrow> cache_wired (ap_service a) \<and> ph_repo (ap_protected a) = repo_on_world env \<and>
     cache_apart (ap_protected a)"

lemma boot_app_wired:
  assumes "boot pf env cfg p = (Inr a, p1)"
  shows "app_wired env a"
proof -
  have c: "cache_apart (operator_handler env (Some (configured_cache x)))" for x
    using wired_harmless [of "Some (configured_cache x)"]
    by (auto simp: cache_apart_def harmless_def)
  show ?thesis
    using boot_wiring [OF assms] c
    by (auto simp: app_wired_def cache_wired_def cache_apart_def
        nil_product_cache_def split: if_splits)
qed

lemma sends_db [simp]: "w_db (snd (sends f hnd rq w)) = w_db (snd (hnd rq w))"
  by (simp add: sends_def case_prod_unfold)

lemma guarded_evolves:
  assumes "\<And>rq'. admitted mws rq = Some rq' \<Longrightarrow> evolves env A (w_db w) (w_db (snd (hnd rq' w)))"
  shows "evolves env A (w_db w) (w_db (snd (guarded mws hnd rq w)))"
  using guarded_cases [of mws hnd rq w] assms by (auto split: option.splits)

lemma mounted_evolves:
  assumes "ph_repo h = repo_on_world env" and "cache_apart h" and "(m, pat, hnd) \<in> set (mount we h)"
  shows "evolves env (if m = GET then {} else issued rq) (w_db w) (w_db (snd (hnd rq w)))"
  using assms(3) writes_evolve [OF assms(1,2)] protected_reads_evolve [OF assms(1)]
  by (auto simp: mount_def)

lemma public_evolves:
  assumes "cache_wired sv" and "others_evolve env A rounds"
  shows "evolves env A (w_db w) (w_db (snd (http_ListProducts env cenv sv rq w)))"
    and "evolves env A (w_db w) (w_db (snd (http_GetProduct env cenv sv token rounds rq w)))"
    and "evolves env A (w_db w) (w_db (snd (http_GetProductDetails env cenv sv token rounds rq w)))"
proof -
  note s = service_evolves [OF assms, THEN preserves_snd, OF evolves_refl]
  show "evolves env A (w_db w) (w_db (snd (http_ListProducts env cenv sv rq w)))"
    using s(3) [of w cenv "list_filters rq"]
    by (cases "sv_ListProducts env cenv sv (list_filters rq) w")
       (simp add: http_ListProducts_def Let_def split: sum.split)
  show "evolves env A (w_db w) (w_db (snd (http_GetProduct env cenv sv token rounds rq w)))"
    using s(1) [of w cenv token "rq_param rq"]
    by (cases "sv_GetProduct env cenv sv token rounds (rq_param rq) w")
       (simp add: http_GetProduct_def split: sum.split)
  show "evolves env A (w_db w) (w_db (snd (http_GetProductDetails env cenv sv token rounds rq w)))"
    using s(2) [of w cenv token "rq_param rq"]
    by (cases "GetProductDetails env cenv sv token rounds (rq_param rq) w")
       (simp add: http_GetProductDetails_def split: sum.split)
qed

lemma ServeHTTP_evolves:
  assumes "app_wired env a" and "others_evolve env A (vi_rounds v)" and "sent_by mws v \<subseteq> A"
  shows "evolves env A (w_db w) (w_db (snd (ServeHTTP we mws env cenv a down v w)))"
proof (cases "find (\<lambda>r. fst r = vi_meth v \<and> fst (snd r) = vi_pattern v)
    (engine_routes we mws env cenv a down (newLockToken (vi_random v)) (vi_rounds v))")
  case (Some r)
  then have r: "r \<in> set (engine_routes we mws env cenv a down (newLockToken (vi_random v)) (vi_rounds v))"
    "fst r = vi_meth v" by (auto dest: find_Some_set simp: find_Some_iff)
  have w: "cache_wired (ap_service a)" "ph_repo (ap_protected a) = repo_on_world env"
    "cache_apart (ap_protected a)" using assms(1) by (simp_all add: app_wired_def)
  have "evolves env A (w_db w) (w_db (snd (snd (snd r) (vi_request v) w)))"
  proof (cases "r \<in> set (protected_routes we mws (ap_protected a))")
    case True
    then obtain m pat hnd where h: "(m, pat, hnd) \<in> set (mount we (ap_protected a))"
      and re: "r = (m, protected_group @ pat, sends W_admin (guarded mws hnd))"
      by (auto simp: protected_routes_def)
    have "evolves env A (w_db w) (w_db (snd (hnd rq' w)))"
      if "admitted mws (vi_request v) = Some rq'" for rq'
      by (rule evolves_mono [OF mounted_evolves [OF w(2,3) h]])
         (use assms(3) r(2) that in \<open>simp add: sent_by_def re\<close>)
    then show ?thesis by (simp add: re guarded_evolves)
  next
    case False
    with r(1) public_evolves [OF w(1) assms(2)] show ?thesis
      by (auto simp: engine_routes_def public_routes_def status_page_def)
  qed
  with Some show ?thesis by (simp add: ServeHTTP_def)
qed (simp add: ServeHTTP_def)

subsection \<open>A run\<close>

lemma node_step_evolves:
  assumes "app_wired env a"
    and "\<And>v. e = Arrives v \<Longrightarrow> others_evolve env A (vi_rounds v) \<and> sent_by mws v \<subseteq> A"
  shows "evolves env A (w_db (snd x)) (w_db (snd (snd (node_step we mws env cenv a e x))))"
proof (cases e)
  case (Arrives v)
  then have "evolves env A (w_db w) (w_db (snd (ServeHTTP we mws env cenv a down v w)))" for w down
    using assms ServeHTTP_evolves by blast
  then show ?thesis
    by (cases x) (simp add: Arrives case_prod_unfold)
qed (cases x; simp)+

lemma run_node_Cons: "run_node we mws env cenv a (e # acts) x =
    run_node we mws env cenv a acts (snd (node_step we mws env cenv a e x))"
  by (simp add: run_node_def)

lemma run_node_evolves:
  assumes "app_wired env a"
    and "\<And>v. Arrives v \<in> set acts \<Longrightarrow> others_evolve env A (vi_rounds v) \<and> sent_by mws v \<subseteq> A"
  shows "evolves env A (w_db (snd x)) (w_db (snd (run_node we mws env cenv a acts x)))"
  using assms(2)
proof (induction acts arbitrary: x)
  case (Cons e acts)
  let ?y = "snd (node_step we mws env cenv a e x)"
  have "evolves env A (w_db (snd x)) (w_db (snd ?y))"
    using Cons.prems by (intro node_step_evolves assms(1)) auto
  moreover have "evolves env A (w_db (snd ?y)) (w_db (snd (run_node we mws env cenv a acts ?y)))"
    using Cons.prems by (intro Cons.IH) auto
  ultimately show ?case unfolding run_node_Cons by (rule evolves_trans)
qed (simp add: run_node_def)

text \<open>The commands a run can issue.\<close>

definition sent_in :: "middleware list \<Rightarrow> act list \<Rightarrow> admin_cmd set" where
  "sent_in mws acts = (\<Union>v \<in> {v. Arrives v \<in> set acts}. sent_by mws v)"

lemma run_node_sent:
  assumes "app_wired env a" and "\<forall>v. Arrives v \<in> set acts \<longrightarrow> others_evolve env R (vi_rounds v)"
  shows "evolves env (R \<union> sent_in mws acts) (w_db (snd x))
    (w_db (snd (run_node we mws env cenv a acts x)))"
proof (rule run_node_evolves [OF assms(1)])
  fix v assume v: "Arrives v \<in> set acts"
  with assms(2) have "others_evolve env R (vi_rounds v)" by blast
  then have "others_evolve env (R \<union> sent_in mws acts) (vi_rounds v)"
    unfolding others_evolve_def using evolves_mono [OF _ Un_upper1] by blast
  moreover have "sent_by mws v \<subseteq> R \<union> sent_in mws acts" using v by (auto simp: sent_in_def)
  ultimately show "others_evolve env (R \<union> sent_in mws acts) (vi_rounds v) \<and>
      sent_by mws v \<subseteq> R \<union> sent_in mws acts" by blast
qed

subsection \<open>The edit form\<close>

text \<open>A visit that submits the edit form of a product: the admitted request and the form.\<close>

definition edit_form :: "web_env \<Rightarrow> middleware list \<Rightarrow> visit \<Rightarrow> (request \<times> updateProductBody) option" where
  "edit_form we mws v = (if vi_meth v = PUT \<and> vi_pattern v = ''/product/v1/protected/products/:id''
     then (case admitted mws (vi_request v) of None \<Rightarrow> None | Some rq \<Rightarrow>
       (case ShouldBindJSON update_body_fields (valid_update_body we) zero_update_body (rq_body rq) of
          Inl e \<Rightarrow> None | Inr b \<Rightarrow> Some (rq, b)))
     else None)"

lemma ServeHTTP_edit:
  assumes "edit_form we mws v = Some (rq, b)" and "ph_repo (ap_protected a) = repo_on_world env"
  shows "ServeHTTP we mws env cenv a down v w =
    (case UpdateProduct env (update_input b rq) (w_db w) of
       (Inl e, d) \<Rightarrow> (map_reply W_admin (respondDomainError e), w\<lparr>w_db := d\<rparr>)
     | (Inr p, d) \<Rightarrow> (case finish (Answer 200 (Product_body p))
           (invalidateProduct (ap_protected a) (rq_param rq) (w\<lparr>w_db := d\<rparr>)) of
         (r, w') \<Rightarrow> (map_reply W_admin r, w')))"
proof -
  from assms(1) have v: "vi_meth v = PUT" "vi_pattern v = ''/product/v1/protected/products/:id''"
    and rq: "admitted mws (vi_request v) = Some rq"
    and b: "ShouldBindJSON update_body_fields (valid_update_body we) zero_update_body (rq_body rq) = Inr b"
    by (auto simp: edit_form_def split: if_splits option.splits sum.splits)
  have "ServeHTTP we mws env cenv a down v w =
      sends W_admin (guarded mws (h_UpdateProduct we (ap_protected a))) (vi_request v) w"
    by (simp add: ServeHTTP_def v engine_routes_def public_routes_def protected_routes_def
        protected_group_def mount_def)
  also have "\<dots> = sends W_admin (h_UpdateProduct we (ap_protected a)) rq w"
    using guarded_cases [of mws "h_UpdateProduct we (ap_protected a)" "vi_request v" w] rq
    by (simp add: sends_def)
  finally show ?thesis
    by (simp add: sends_def h_UpdateProduct_def b assms(2) on_db_def split: prod.split sum.split)
qed

subsection \<open>Properties\<close>

text \<open>
  C7. Requests write only as commands: whatever requests a booted process serves, in any
  order, with any cache server, clock and connection faults between them, the database ends
  where a history of operator commands ends; and every command in it was sent by a request of
  another method than GET that the guard chain admitted, carries that request's verified
  subject and request id, and is on the product of its path (or comes from another process of
  the service, as far as a request waited for it).
\<close>

theorem requests_write_histories:
  assumes "boot pf env cfg p = (Inr a, p1)"
    and "\<forall>v. Arrives v \<in> set acts \<longrightarrow> others_evolve env R (vi_rounds v)"
  shows "\<exists>es. w_db (snd (run_node we mws env cenv a acts (st, w))) = run_events env es (w_db w) \<and>
     (\<forall>c. Command c \<in> set es \<longrightarrow> c \<in> R \<or> (\<exists>v rq. Arrives v \<in> set acts \<and> vi_meth v \<noteq> GET \<and>
        admitted mws (vi_request v) = Some rq \<and> cmd_actor c = actor rq \<and>
        (\<forall>t. subject c = Some t \<longrightarrow> t = rq_param rq)))"
proof -
  from run_node_sent [OF boot_app_wired [OF assms(1)] assms(2), of mws "(st, w)" we cenv]
  obtain es where es: "{c. Command c \<in> set es} \<subseteq> R \<union> sent_in mws acts"
    "w_db (snd (run_node we mws env cenv a acts (st, w))) = run_events env es (w_db w)"
    by (auto simp: evolves_def)
  have "\<exists>v rq. Arrives v \<in> set acts \<and> vi_meth v \<noteq> GET \<and> admitted mws (vi_request v) = Some rq \<and>
      cmd_actor c = actor rq \<and> (\<forall>t. subject c = Some t \<longrightarrow> t = rq_param rq)"
    if "c \<in> sent_in mws acts" for c
    using that by (auto simp: sent_in_def sent_by_def issued_def split: option.splits if_splits)
  with es show ?thesis by blast
qed


text \<open>
  C5. Two operators with the same form: once the edit form of a product was answered with
  success, submitting a form with the same version of the same product answers 409 with the
  code \<open>VERSION_CONFLICT\<close>, whatever the process served in between and in whatever stage it is,
  when the connection to the database works.
\<close>

theorem stale_form_refused:
  assumes "boot pf env cfg p = (Inr a, p1)" and "scan_ok env" and "numeric2_ok env"
    and "db_inv (w_db w)"
    and "edit_form we mws v = Some (rq, b)" and "edit_form we mws v' = Some (rq', b')"
    and "int4in env (rq_param rq') = int4in env (rq_param rq)" and "ub_Version b' = ub_Version b"
    and "ServeHTTP we mws env cenv a down v w = (Answer code x, w1)"
    and "\<forall>u. Arrives u \<in> set acts \<longrightarrow> others_evolve env UNIV (vi_rounds u)"
    and "run_node we mws env cenv a acts (st, w1) = (st', w2)" and "faults (w_db w2) = []"
  shows "\<exists>msg. fst (ServeHTTP we mws env cenv a down' v' w2) = Failure 409 (Code ''VERSION_CONFLICT'') msg"
proof -
  have app: "app_wired env a" by (rule boot_app_wired [OF assms(1)])
  then have h: "ph_repo (ap_protected a) = repo_on_world env" "cache_apart (ap_protected a)"
    by (simp_all add: app_wired_def)
  let ?i = "update_input b rq" and ?j = "update_input b' rq'"
  obtain y d where run: "UpdateProduct env ?i (w_db w) = (y, d)" by fastforce
  have "\<exists>q. y = Inr q \<and> w_db w1 = d"
  proof (cases y)
    case (Inl e)
    with assms(9) show ?thesis
      by (simp add: ServeHTTP_edit [OF assms(5) h(1)] run respondDomainError_def split: if_splits)
  next
    case (Inr q)
    let ?f = "finish (Answer 200 (Product_body q))
      (invalidateProduct (ap_protected a) (rq_param rq) (w\<lparr>w_db := d\<rparr>))"
    obtain z w' where f: "?f = (z, w')" by fastforce
    with finish_apart(1) [OF h(2), of "Answer 200 (Product_body q)" "rq_param rq" "w\<lparr>w_db := d\<rparr>"]
    have "w_db w' = d" by simp
    with assms(9) Inr f show ?thesis by (simp add: ServeHTTP_edit [OF assms(5) h(1)] run)
  qed
  then obtain q where q: "y = Inr q" and "w_db w1 = d" by blast
  obtain n r where n: "int4in env (ui_ID ?i) = Some n" and "r \<in> set (products (w_db w))" "pr_id r = n"
    and v: "pr_version r = ui_ExpectedVersion ?i" and fl: "version_floor n (pr_version r + 1) (tables_of d)"
    by (rule UpdateProduct_Inr_version [OF run [unfolded q] assms(2,4)])
  have "db_inv d" using run_cmd_inv [OF assms(3,4), of "Do_update ?i"] by (simp add: run)
  have "evolves env (UNIV \<union> sent_in mws acts) (w_db w1) (w_db w2)"
    using run_node_sent [OF app assms(10), of mws "(st, w1)" we cenv] assms(11) by simp
  from evolves_floor [OF this assms(2,3)] \<open>db_inv d\<close> fl \<open>w_db w1 = d\<close>
  have inv: "db_inv (w_db w2)" and "version_floor n (pr_version r + 1) (tables_of (w_db w2))" by auto
  then obtain r2 where r2: "r2 \<in> set (products (w_db w2))" "pr_id r2 = n" "pr_version r + 1 \<le> pr_version r2"
    by (auto simp: version_floor_def tables_of_def)
  have "UpdateProduct env ?j (w_db w2) = (Inl (Wrapf (''have version '' @ Itoa (pr_version r2) @
     '', sent '' @ Itoa (ui_ExpectedVersion ?j)) ErrVersionConflict), w_db w2)"
    using n v r2 assms(7,8)
    by (intro UpdateProduct_stale [OF db_inv_products_ok [OF inv] assms(2,12) r2(1)])
       (simp_all add: update_input_def)
  then show ?thesis
    by (simp add: ServeHTTP_edit [OF assms(6) h(1)] respondDomainError_def)
qed

subsection \<open>Readiness\<close>

lemma stage_signalled:
  "fst x \<noteq> Serving \<or> Signalled \<in> set acts \<longleftrightarrow> fst (run_node we mws env cenv a acts x) \<noteq> Serving"
proof (induction acts arbitrary: x)
  case (Cons e acts)
  have "fst x \<noteq> Serving \<or> e = Signalled \<longleftrightarrow> fst (snd (node_step we mws env cenv a e x)) \<noteq> Serving"
    by (cases x; cases e) (auto split: prod.split)
  with Cons.IH [of "snd (node_step we mws env cenv a e x)"] show ?case
    by (auto simp: run_node_Cons)
qed (simp add: run_node_def)

text \<open>Only the readiness probe looks at the flag.\<close>

lemma ServeHTTP_flag:
  assumes "vi_pattern v \<noteq> ''/ready''"
  shows "ServeHTTP we mws env cenv a down v w = ServeHTTP we mws env cenv a False v w"
  using assms by (simp add: ServeHTTP_def engine_routes_def)

definition ready_probe :: "request \<Rightarrow> visit" where
  "ready_probe rq = \<lparr>vi_meth = GET, vi_pattern = ''/ready'', vi_request = rq, vi_random = [], vi_rounds = []\<rparr>"

text \<open>
  C23. Readiness fails first: the process reports ready exactly until the signal arrives, and
  as long as its HTTP server is open every other route answers as if no signal had come.
\<close>

theorem readiness_fails_first:
  assumes "run_node we mws env cenv a acts (Serving, w) = (st, w')"
  shows "(fst (node_step we mws env cenv a (Arrives (ready_probe rq)) (st, w')) =
        Some (Answer 200 (W_status ''ok'')) \<longleftrightarrow> Signalled \<notin> set acts) \<and>
     (st \<noteq> Closed_down \<and> vi_pattern v \<noteq> ''/ready'' \<longrightarrow>
        fst (node_step we mws env cenv a (Arrives v) (st, w')) =
        fst (node_step we mws env cenv a (Arrives v) (Serving, w')))"
proof -
  have st: "st \<noteq> Serving \<longleftrightarrow> Signalled \<in> set acts"
    using stage_signalled [of "(Serving, w)" acts we mws env cenv a] assms by simp
  have "ServeHTTP we mws env cenv a down (ready_probe rq) w' = status_page (ready_reply down) rq w'" for down
    by (simp add: ServeHTTP_def ready_probe_def engine_routes_def)
  then have "fst (node_step we mws env cenv a (Arrives (ready_probe rq)) (st, w')) =
      Some (Answer 200 (W_status ''ok'')) \<longleftrightarrow> st = Serving"
    by (cases st) (simp_all add: status_page_def ready_reply_def)
  with st show ?thesis
    using ServeHTTP_flag [of v we mws env cenv a True w'] by (cases st) (simp_all add: case_prod_unfold)
qed

subsection \<open>The properties at concrete requests\<close>

definition form_visit :: "meth \<Rightarrow> string \<Rightarrow> string \<Rightarrow> (string \<times> json) list \<Rightarrow> visit" where
  "form_visit m pat ident kvs = \<lparr>vi_meth = m, vi_pattern = ''/product/v1/protected'' @ pat,
     vi_request = (bare_request ident)\<lparr>rq_body := Some (JObj kvs), rq_length := 1,
       rq_header := (\<lambda>k. [])\<rparr>, vi_random = ''t'', vi_rounds = []\<rparr>"

definition create_visit :: visit where
  "create_visit = form_visit POST ''/products'' []
     [(''name'', JStr ''Mouse''), (''price'', JNum (of_int 100 / 100))]"

definition edit_visit :: visit where
  "edit_visit = form_visit PUT ''/products/:id'' ''1''
     [(''name'', JStr ''Mouse''), (''price'', JNum (of_int 2099 / 100)),
      (''description'', JStr ''text''), (''category'', JStr ''Computers''), (''version'', JNum 2)]"

definition publish_visit :: visit where
  "publish_visit = form_visit POST ''/products/:id/publish'' ''3'' []"

lemma visit_sel [simp]:
  "vi_rounds (form_visit m pat i fs) = []" "vi_meth (form_visit m pat i fs) = m"
  "staff_guard rq = Inr (rq\<lparr>rq_user := Some ''alice''\<rparr>)"
  "rq_param (vi_request (form_visit m pat i fs)) = i"
  "actor ((vi_request (form_visit m pat i fs))\<lparr>rq_user := Some ''alice''\<rparr>) = (''alice'', [])"
  by (simp_all add: form_visit_def staff_guard_def bare_request_def actor_def)

theorem requests_write_histories_witness:
  "\<exists>es. w_db (snd (run_node sample_web [staff_guard] std_env sample_cenv staging_app
       [Arrives publish_visit, Signalled] (Serving, sample_world))) = run_events std_env es sample_db \<and>
     (\<forall>c. Command c \<in> set es \<longrightarrow> cmd_actor c = (''alice'', []))"
proof -
  obtain p where b: "boot calm std_env (Load (staging_env ''off'')) fresh_proc =
      (Inr staging_app, p)" using uncached_boot by blast
  have "\<forall>v. Arrives v \<in> set [Arrives publish_visit, Signalled] \<longrightarrow> others_evolve std_env {} (vi_rounds v)"
    by (simp add: others_evolve_def publish_visit_def)
  from requests_write_histories [OF b this, of sample_web "[staff_guard]" sample_cenv Serving sample_world]
  obtain es where "w_db (snd (run_node sample_web [staff_guard] std_env sample_cenv staging_app
       [Arrives publish_visit, Signalled] (Serving, sample_world))) = run_events std_env es sample_db"
    and "\<forall>c. Command c \<in> set es \<longrightarrow> cmd_actor c = (''alice'', [])"
    by (auto simp: publish_visit_def)
  then show ?thesis by blast
qed

lemma prices_positive: "price_of_cents 100 \<noteq> 0 \<and> 0 \<le> price_of_cents 100"
    "price_of_cents 2099 \<noteq> 0 \<and> 0 \<le> price_of_cents 2099"
  by code_simp+

lemma create_visit_bind:
  "ShouldBindJSON create_body_fields (valid_create_body sample_web) zero_create_body
      (rq_body (vi_request create_visit)) =
    Inr \<lparr>cb_Name = ''Mouse'', cb_Price = price_of_cents 100, cb_Description = [], cb_Category = []\<rparr>"
  "create_input \<lparr>cb_Name = ''Mouse'', cb_Price = price_of_cents 100, cb_Description = [],
      cb_Category = []\<rparr> ((vi_request create_visit)\<lparr>rq_user := Some ''alice''\<rparr>) = sample_create"
proof -
  show "ShouldBindJSON create_body_fields (valid_create_body sample_web) zero_create_body
      (rq_body (vi_request create_visit)) =
    Inr \<lparr>cb_Name = ''Mouse'', cb_Price = price_of_cents 100, cb_Description = [], cb_Category = []\<rparr>"
    using prices_positive
    by (simp add: ShouldBindJSON_def create_visit_def form_visit_def create_body_fields_def text_field_def
        float_field_def into_string_def zero_create_body_def ascii_lower_def valid_create_body_def
        sample_web_def rune_count_def price_of_cents_def)
qed (simp add: create_input_def sample_create_def create_visit_def)

lemma create_visit_stored:
  "products (w_db (snd (ServeHTTP sample_web [staff_guard] std_env sample_cenv staging_app down
      create_visit (sample_world\<lparr>w_db := migrated_db\<rparr>)))) =
    products (snd (CreateProduct std_env sample_create migrated_db))"
proof -
  let ?rq = "(vi_request create_visit)\<lparr>rq_user := Some ''alice''\<rparr>"
  let ?w = "sample_world\<lparr>w_db := migrated_db\<rparr>"
  have app: "ph_repo (ap_protected staging_app) = repo_on_world std_env" "cache_apart (ap_protected staging_app)"
    by (simp_all add: staging_app_def cache_apart_def nil_product_cache_def)
  have adm: "admitted [staff_guard] (vi_request create_visit) = Some ?rq" by (simp add: create_visit_def)
  have "ServeHTTP sample_web [staff_guard] std_env sample_cenv staging_app down create_visit ?w =
      sends W_admin (guarded [staff_guard] (h_CreateProduct sample_web (ap_protected staging_app)))
        (vi_request create_visit) ?w"
    by (simp add: ServeHTTP_def create_visit_def form_visit_def engine_routes_def public_routes_def
        protected_routes_def protected_group_def mount_def)
  then have "w_db (snd (ServeHTTP sample_web [staff_guard] std_env sample_cenv staging_app down create_visit ?w)) =
      w_db (snd (h_CreateProduct sample_web (ap_protected staging_app) ?rq ?w))"
    using guarded_cases [of "[staff_guard]" "h_CreateProduct sample_web (ap_protected staging_app)"
        "vi_request create_visit" ?w] adm by simp
  also have "\<dots> = snd (CreateProduct std_env sample_create migrated_db)"
    by (simp add: h_CreateProduct_def create_visit_bind app reply_db)
  finally show ?thesis by simp
qed


lemma edit_form_visit:
  "edit_form sample_web [staff_guard] edit_visit = Some ((vi_request edit_visit)\<lparr>rq_user := Some ''alice''\<rparr>,
     \<lparr>ub_Name = ''Mouse'', ub_Price = price_of_cents 2099, ub_Description = ''text'',
       ub_Category = ''Computers'', ub_Version = 2, ub_Reason = []\<rparr>)"
  using prices_positive
  by (simp add: edit_form_def edit_visit_def form_visit_def ShouldBindJSON_def update_body_fields_def
      text_field_def float_field_def int64_field_def into_string_def zero_update_body_def
      ascii_lower_def valid_update_body_def sample_web_def rune_count_def price_of_cents_def
      is_int64_def min_int64_def max_int64_def)

theorem stale_form_refused_witness:
  "\<exists>a code x w1 msg. ServeHTTP sample_web [staff_guard] std_env sample_cenv a False edit_visit sample_world =
       (Answer code x, w1) \<and>
     fst (ServeHTTP sample_web [staff_guard] std_env sample_cenv a True edit_visit
       (snd (run_node sample_web [staff_guard] std_env sample_cenv a [Database_link [], Signalled] (Serving, w1)))) =
       Failure 409 (Code ''VERSION_CONFLICT'') msg"
proof -
  let ?cfg = "Load (staging_env ''true'')"
  have "\<exists>a p. boot calm std_env ?cfg fresh_proc = (Inr a, p)"
    by (simp add: boot_def seq_def staging_valid boot_parts staging_parts calm_def Let_def)
  then obtain a p where b: "boot calm std_env ?cfg fresh_proc = (Inr a, p)" by blast
  let ?c = "configured_cache (Cache ?cfg)"
  have a: "ap_protected a = operator_handler std_env (Some ?c)"
    using boot_wiring(1) [OF b] by (simp add: cache_up_def staging_parts calm_def)
  let ?rq = "(vi_request edit_visit)\<lparr>rq_user := Some ''alice''\<rparr>"
  let ?b = "\<lparr>ub_Name = ''Mouse'', ub_Price = price_of_cents 2099, ub_Description = ''text'',
       ub_Category = ''Computers'', ub_Version = 2, ub_Reason = []\<rparr>"
  have i: "update_input ?b ?rq = sample_edit"
    by (simp add: update_input_def sample_edit_def edit_visit_def)
  obtain q d where u: "UpdateProduct std_env sample_edit sample_db = (Inr q, d)" using edit_run by blast
  from invalidateProduct_clears [of ?c "sample_world\<lparr>w_db := d\<rparr>" std_env "rq_param ?rq"]
  obtain w1 where inv: "invalidateProduct (operator_handler std_env (Some ?c)) (rq_param ?rq)
      (sample_world\<lparr>w_db := d\<rparr>) = (True, w1)" "w_db w1 = d"
    by auto
  have repo: "ph_repo (ap_protected a) = repo_on_world std_env" by (simp add: a)
  have 1: "ServeHTTP sample_web [staff_guard] std_env sample_cenv a False edit_visit sample_world =
      (Answer 200 (W_admin (Product_body q)), w1)"
    using inv(1) u unfolding ServeHTTP_edit [OF edit_form_visit repo] i a by (simp add: finish_def)
  have 2: "run_node sample_web [staff_guard] std_env sample_cenv a [Database_link [], Signalled] (Serving, w1) =
      (Draining, w1\<lparr>w_db := w_db w1\<lparr>faults := []\<rparr>\<rparr>)"
    by (simp add: run_node_def)
  have calm: "\<forall>u. Arrives u \<in> set [Database_link [], Signalled] \<longrightarrow> others_evolve std_env UNIV (vi_rounds u)"
    by simp
  have "db_inv (w_db sample_world)" by (simp add: sample_db_inv)
  from stale_form_refused [OF b std_scan_ok std_numeric2_ok this edit_form_visit edit_form_visit refl refl
      1 calm 2, of True]
  obtain msg where "fst (ServeHTTP sample_web [staff_guard] std_env sample_cenv a True edit_visit
      (w1\<lparr>w_db := w_db w1\<lparr>faults := []\<rparr>\<rparr>)) = Failure 409 (Code ''VERSION_CONFLICT'') msg" by auto
  with 1 2 show ?thesis
    by (intro exI [of _ a] exI [of _ "200::int"] exI [of _ "W_admin (Product_body q)"] exI [of _ w1]
        exI [of _ msg]) simp
qed

theorem readiness_fails_first_witness:
  "\<exists>w'. run_node sample_web [staff_guard] std_env sample_cenv staging_app [Signalled, Arrives publish_visit]
       (Serving, sample_world) = (Draining, w') \<and>
     fst (node_step sample_web [staff_guard] std_env sample_cenv staging_app
       (Arrives (ready_probe (bare_request []))) (Draining, w')) \<noteq> Some (Answer 200 (W_status ''ok''))"
proof -
  obtain w' where r: "run_node sample_web [staff_guard] std_env sample_cenv staging_app
      [Signalled, Arrives publish_visit] (Serving, sample_world) = (Draining, w')"
    by (simp add: run_node_def case_prod_unfold)
  from readiness_fails_first [OF r, of "bare_request []" publish_visit] r show ?thesis by auto
qed

end
