(* ===== verification/Reply_Types.thy ===== *)
theory Reply_Types
  imports Engine_Spec
begin

section \<open>Every route answers in its own shape\<close>

text \<open>
  A typing of the replies of the engine: which status and which body a route answers with, the
  failures all routes share, and when a handler may panic. The handlers are typed for any
  repository and cache behind them; the routes of a booted process follow.
\<close>

subsection \<open>Types of replies\<close>

datatype shape = Page_shape | Product_shape | Details_shape | Status_shape | Admin_product_shape
  | Admin_page_shape | Category_shape | Category_page_shape | Audit_shape

fun body_shape :: "body \<Rightarrow> shape" where
  "body_shape (Product_body p) = Admin_product_shape"
| "body_shape (Products_body p) = Admin_page_shape"
| "body_shape (Category_body c) = Category_shape"
| "body_shape (Categories_body p) = Category_page_shape"
| "body_shape (Audit_body rows) = Audit_shape"

fun wire_shape :: "wire \<Rightarrow> shape" where
  "wire_shape (W_page p) = Page_shape"
| "wire_shape (W_product p) = Product_shape"
| "wire_shape (W_details d) = Details_shape"
| "wire_shape (W_admin b) = body_shape b"
| "wire_shape (W_status s) = Status_shape"

text \<open>What each route answers when it succeeds.\<close>

definition answer_types :: "(meth \<times> string \<times> int \<times> shape) list" where
  "answer_types =
     [(GET, ''/health'', 200, Status_shape),
      (GET, ''/ready'', 200, Status_shape), (GET, ''/ready'', 503, Status_shape),
      (GET, ''/product/v1/public/products'', 200, Page_shape),
      (GET, ''/product/v1/public/products/:id'', 200, Product_shape),
      (GET, ''/product/v1/public/products/:id/details'', 200, Details_shape),
      (GET, ''/product/v1/protected/products'', 200, Admin_page_shape),
      (GET, ''/product/v1/protected/products/:id'', 200, Admin_product_shape),
      (POST, ''/product/v1/protected/products'', 201, Admin_product_shape),
      (PUT, ''/product/v1/protected/products/:id'', 200, Admin_product_shape),
      (POST, ''/product/v1/protected/products/:id/publish'', 200, Admin_product_shape),
      (POST, ''/product/v1/protected/products/:id/archive'', 200, Admin_product_shape),
      (POST, ''/product/v1/protected/products/:id/restore'', 200, Admin_product_shape),
      (GET, ''/product/v1/protected/products/:id/audit'', 200, Audit_shape),
      (GET, ''/product/v1/protected/categories'', 200, Category_page_shape),
      (POST, ''/product/v1/protected/categories'', 201, Category_shape),
      (PUT, ''/product/v1/protected/categories/:id'', 200, Category_shape)]"

text \<open>
  A status and its code go together, and an internal error says nothing about its cause.
\<close>

definition failure_typed :: "int \<Rightarrow> code \<Rightarrow> string \<Rightarrow> bool" where
  "failure_typed n c msg \<longleftrightarrow> n = 400 \<and> c = CodeValidation \<or> n = 404 \<and> c = CodeNotFound \<or>
     n = 409 \<and> c \<in> {CodeConflict, Code ''INVALID_TRANSITION'', Code ''VERSION_CONFLICT''} \<or>
     n = 500 \<and> c = CodeInternal \<and> msg \<in> {''An internal error occurred'', ''Internal server error''}"

definition typed :: "(int \<times> 'b) set \<Rightarrow> ('a \<Rightarrow> 'b) \<Rightarrow> bool \<Rightarrow> 'a reply \<Rightarrow> bool" where
  "typed S shape panics r \<longleftrightarrow> (case r of Answer n b \<Rightarrow> (n, shape b) \<in> S
     | Failure n c msg \<Rightarrow> failure_typed n c msg | Panicked \<Rightarrow> panics)"

lemma typed_simps [simp]:
  "typed S sh p (Answer n b) \<longleftrightarrow> (n, sh b) \<in> S"
  "typed S sh p (Failure n c msg) \<longleftrightarrow> failure_typed n c msg"
  "typed S sh p Panicked \<longleftrightarrow> p"
  by (simp_all add: typed_def)

lemma typed_map: "typed S sh p (map_reply f r) \<longleftrightarrow> typed S (sh \<circ> f) p r"
  by (cases r) simp_all

lemma typed_mono: "typed S sh p r \<Longrightarrow> S \<subseteq> T \<Longrightarrow> (p \<Longrightarrow> q) \<Longrightarrow> typed T sh q r"
  by (cases r) auto

lemma typed_failures [simp]:
  "typed S sh p (respondDomainError e)" "typed S sh p opaque_failure" "typed S sh p (bind_failure we rq)"
  by (simp_all add: failure_typed_def respondDomainError_def opaque_failure_def bind_failure_def
      msgInternal_def)

lemma typed_public_failures [simp]: "typed S sh p internal_error" "typed S sh p (product_failure e)"
  by (simp_all add: failure_typed_def internal_error_def product_failure_def)

text \<open>A reply made from the result of an operation.\<close>

lemma typed_result:
  assumes "\<And>e. typed S sh p (f e)" and "\<And>v s'. typed S sh p (fst (g v s'))"
  shows "typed S sh p (fst (case x of (Inl e, s') \<Rightarrow> (f e, s') | (Inr v, s') \<Rightarrow> g v s'))"
  using assms by (cases x) (simp split: sum.split)

subsection \<open>The handlers\<close>

text \<open>A cache some call of which does not come back.\<close>

definition may_panic :: "'s catalogCache option \<Rightarrow> bool" where
  "may_panic c \<longleftrightarrow> (\<exists>x. c = Some x \<and> (\<exists>s. fst (xc_InvalidateProductList x s) = None \<or>
     (\<exists>i. fst (xc_InvalidateProduct x i s) = None)))"

lemma ignore_error_comes_back: "fst (f s) \<noteq> None \<Longrightarrow> fst (ignore_error f s)"
  by (cases "f s") (auto simp: ignore_error_def)

lemma invalidation_comes_back:
  assumes "\<not> may_panic (ph_cache h)"
  shows "fst (invalidateProduct h i s)" and "fst (invalidateList h s)" and "fst (invalidateAll h s)"
proof -
  show "fst (invalidateList h s)" "fst (invalidateAll h s)"
    using assms by (auto simp: may_panic_def invalidateList_def invalidateAll_def
        ignore_error_comes_back split: option.split)
  show "fst (invalidateProduct h i s)"
  proof (cases "ph_cache h")
    case (Some x)
    obtain b s' where 1: "ignore_error (xc_InvalidateProduct x i) s = (b, s')" by fastforce
    have n: "fst (xc_InvalidateProduct x i s) \<noteq> None" "fst (xc_InvalidateProductList x s') \<noteq> None"
      using assms Some by (auto simp: may_panic_def)
    have b using ignore_error_comes_back [of "xc_InvalidateProduct x i" s] n(1) 1 by simp
    moreover have "fst (ignore_error (xc_InvalidateProductList x) s')"
      using ignore_error_comes_back [of "xc_InvalidateProductList x" s'] n(2) by simp
    ultimately show ?thesis by (simp add: invalidateProduct_def Some 1)
  qed (simp add: invalidateProduct_def)
qed

lemma typed_finish:
  assumes "typed S sh (may_panic (ph_cache h)) r"
  shows "typed S sh (may_panic (ph_cache h)) (fst (finish r (invalidateProduct h i s)))"
    and "typed S sh (may_panic (ph_cache h)) (fst (finish r (invalidateList h s)))"
    and "typed S sh (may_panic (ph_cache h)) (fst (finish r (invalidateAll h s)))"
  using assms invalidation_comes_back [of h] by (auto simp: finish_def)

lemma handlers_typed:
  fixes h :: "'s ProtectedHandler"
  defines "p \<equiv> may_panic (ph_cache h)"
  shows "typed {(200, Admin_page_shape)} body_shape False (fst (h_ListProducts we h rq s))"
    and "typed {(200, Admin_product_shape)} body_shape False (fst (h_GetProduct h rq s))"
    and "typed {(201, Admin_product_shape)} body_shape p (fst (h_CreateProduct we h rq s))"
    and "typed {(200, Admin_product_shape)} body_shape p (fst (h_UpdateProduct we h rq s))"
    and "typed {(200, Admin_product_shape)} body_shape p (fst (transition we h act rq s))"
    and "typed {(200, Audit_shape)} body_shape False (fst (ProductAudit h rq s))"
    and "typed {(200, Category_page_shape)} body_shape False (fst (h_ListCategories we h rq s))"
    and "typed {(201, Category_shape)} body_shape False (fst (h_CreateCategory we h rq s))"
    and "typed {(200, Category_shape)} body_shape p (fst (h_UpdateCategory we h rq s))"
proof -
  obtain page size where pp: "ParsePage we rq = (page, size)" by fastforce
  obtain sub rid where ac: "actor rq = (sub, rid)" by fastforce
  have pos: "positive_param rq = Inl r \<Longrightarrow> typed S sh q r" for r :: "body reply" and S :: "(int \<times> shape) set" and sh q
    by (auto simp: positive_param_def Let_def failure_typed_def split: option.splits if_splits)
  note t = typed_result typed_finish [where h = h] pos
  show "typed {(200, Admin_page_shape)} body_shape False (fst (h_ListProducts we h rq s))"
    by (simp add: h_ListProducts_def pp Let_def failure_typed_def t)
  show "typed {(200, Admin_product_shape)} body_shape False (fst (h_GetProduct h rq s))"
    by (simp add: h_GetProduct_def t)
  show "typed {(201, Admin_product_shape)} body_shape p (fst (h_CreateProduct we h rq s))"
    unfolding p_def by (simp add: h_CreateProduct_def t split: sum.split)
  show "typed {(200, Admin_product_shape)} body_shape p (fst (h_UpdateProduct we h rq s))"
    unfolding p_def by (simp add: h_UpdateProduct_def t split: sum.split)
  show "typed {(200, Admin_product_shape)} body_shape p (fst (transition we h act rq s))"
    unfolding p_def by (simp add: transition_def t split: sum.split)
  show "typed {(200, Audit_shape)} body_shape False (fst (ProductAudit h rq s))"
    by (auto simp: ProductAudit_def split: sum.split intro: t)
  show "typed {(200, Category_page_shape)} body_shape False (fst (h_ListCategories we h rq s))"
    by (simp add: h_ListCategories_def pp t)
  show "typed {(201, Category_shape)} body_shape False (fst (h_CreateCategory we h rq s))"
    by (simp add: h_CreateCategory_def ac t split: sum.split)
  show "typed {(200, Category_shape)} body_shape p (fst (h_UpdateCategory we h rq s))"
    unfolding p_def by (simp add: h_UpdateCategory_def ac t split: sum.split)
qed

subsection \<open>The routes\<close>

definition route_answers :: "meth \<Rightarrow> string \<Rightarrow> (int \<times> shape) set" where
  "route_answers m pat = {x. (m, pat, x) \<in> set answer_types}"

lemma protected_answers:
  "{(200, Admin_page_shape)} \<subseteq> route_answers GET (protected_group @ ''/products'')"
  "{(200, Admin_product_shape)} \<subseteq> route_answers GET (protected_group @ ''/products/:id'')"
  "{(201, Admin_product_shape)} \<subseteq> route_answers POST (protected_group @ ''/products'')"
  "{(200, Admin_product_shape)} \<subseteq> route_answers PUT (protected_group @ ''/products/:id'')"
  "{(200, Admin_product_shape)} \<subseteq> route_answers POST (protected_group @ ''/products/:id/publish'')"
  "{(200, Admin_product_shape)} \<subseteq> route_answers POST (protected_group @ ''/products/:id/archive'')"
  "{(200, Admin_product_shape)} \<subseteq> route_answers POST (protected_group @ ''/products/:id/restore'')"
  "{(200, Audit_shape)} \<subseteq> route_answers GET (protected_group @ ''/products/:id/audit'')"
  "{(200, Category_page_shape)} \<subseteq> route_answers GET (protected_group @ ''/categories'')"
  "{(201, Category_shape)} \<subseteq> route_answers POST (protected_group @ ''/categories'')"
  "{(200, Category_shape)} \<subseteq> route_answers PUT (protected_group @ ''/categories/:id'')"
  by (simp_all add: route_answers_def answer_types_def protected_group_def)

lemma mounted_typed:
  assumes "(m, pat, hnd) \<in> set (mount we h)"
  shows "typed (route_answers m (protected_group @ pat)) body_shape (m \<noteq> GET \<and> may_panic (ph_cache h))
    (fst (hnd rq s))"
proof -
  note t = handlers_typed(1) [THEN typed_mono, OF protected_answers(1)]
    handlers_typed(2) [THEN typed_mono, OF protected_answers(2)]
    handlers_typed(3) [THEN typed_mono, OF protected_answers(3)]
    handlers_typed(4) [THEN typed_mono, OF protected_answers(4)]
    handlers_typed(5) [THEN typed_mono, OF protected_answers(5)]
    handlers_typed(5) [THEN typed_mono, OF protected_answers(6)]
    handlers_typed(5) [THEN typed_mono, OF protected_answers(7)]
    handlers_typed(6) [THEN typed_mono, OF protected_answers(8)]
    handlers_typed(7) [THEN typed_mono, OF protected_answers(9)]
    handlers_typed(8) [THEN typed_mono, OF protected_answers(10)]
    handlers_typed(9) [THEN typed_mono, OF protected_answers(11)]
  show ?thesis
    using assms unfolding mount_def list.set insert_iff empty_iff prod.inject
    by (elim disjE conjE FalseE; hypsubst) (rule t; simp)+
qed

lemma guarded_reply:
  "guarded mws hnd rq s = (r, t) \<Longrightarrow> (\<exists>m \<in> set mws. \<exists>rq'. m rq' = Inl r) \<or> (\<exists>rq'. hnd rq' s = (r, t))"
  by (induction mws arbitrary: rq) (auto split: sum.splits)

lemma public_typed:
  "typed {(200, Page_shape)} (wire_shape \<circ> W_page) False (fst (http_ListProducts env cenv sv rq w))"
  "typed {(200, Product_shape)} (wire_shape \<circ> W_product) False
     (fst (http_GetProduct env cenv sv token rounds rq w))"
  "typed {(200, Details_shape)} (wire_shape \<circ> W_details) False
     (fst (http_GetProductDetails env cenv sv token rounds rq w))"
  by (simp_all add: http_ListProducts_def http_GetProduct_def http_GetProductDetails_def Let_def
      typed_result case_prod_unfold split: sum.split)

lemma sends_typed:
  "typed S (wire_shape \<circ> f) p (fst (hnd rq w)) \<Longrightarrow> typed S wire_shape p (fst (sends f hnd rq w))"
  by (simp add: sends_def case_prod_unfold typed_map)

text \<open>
  C18. Replies are well typed: every route of a booted process answers with its own status
  and its own kind of body; every failure has one of four statuses with a code that belongs
  to it, and an internal failure carries one of two fixed texts, nothing of its cause; and a
  handler panics only for a request that writes, in a process without a cache. Other replies
  come from the guard chain.
\<close>

theorem replies_typed:
  assumes "boot pf env cfg p = (Inr a, p1)" and "ServeHTTP we mws env cenv a down v w = (r, w')"
  shows "(\<exists>m \<in> set mws. \<exists>rq r0. m rq = Inl r0 \<and> r = map_reply W_admin r0) \<or>
     (case r of Answer n b \<Rightarrow> (vi_meth v, vi_pattern v, n, wire_shape b) \<in> set answer_types
        | Failure n c msg \<Rightarrow> failure_typed n c msg
        | Panicked \<Rightarrow> vi_meth v \<noteq> GET \<and> sv_cache (ap_service a) = None)"
proof -
  let ?T = "\<lambda>r. typed (route_answers (vi_meth v) (vi_pattern v)) wire_shape
    (vi_meth v \<noteq> GET \<and> sv_cache (ap_service a) = None) r"
  have panics: "may_panic (ph_cache (ap_protected a)) \<Longrightarrow> sv_cache (ap_service a) = None"
    using boot_wiring [OF assms(1)]
    by (auto simp: may_panic_def cache_on_world_def returns_def split: if_splits prod.splits)
  have "(\<exists>m \<in> set mws. \<exists>rq r0. m rq = Inl r0 \<and> r = map_reply W_admin r0) \<or> ?T r"
  proof (cases "find (\<lambda>r. fst r = vi_meth v \<and> fst (snd r) = vi_pattern v)
      (engine_routes we mws env cenv a down (newLockToken (vi_random v)) (vi_rounds v))")
    case None
    with assms(2) show ?thesis by (auto simp: ServeHTTP_def failure_typed_def)
  next
    case (Some x)
    then have x: "x \<in> set (engine_routes we mws env cenv a down (newLockToken (vi_random v)) (vi_rounds v))"
      "vi_meth v = fst x" "vi_pattern v = fst (snd x)" by (auto dest: find_Some_set simp: find_Some_iff)
    have run: "snd (snd x) (vi_request v) w = (r, w')" using assms(2) Some by (simp add: ServeHTTP_def)
    show ?thesis
    proof (cases "x \<in> set (protected_routes we mws (ap_protected a))")
      case True
      then obtain m pat hnd where h: "(m, pat, hnd) \<in> set (mount we (ap_protected a))"
        and xe: "x = (m, protected_group @ pat, sends W_admin (guarded mws hnd))"
        by (auto simp: protected_routes_def)
      obtain r0 t where g: "guarded mws hnd (vi_request v) w = (r0, t)" by fastforce
      with run xe have r: "r = map_reply W_admin r0" by (simp add: sends_def)
      from guarded_reply [OF g] show ?thesis
      proof
        assume "\<exists>rq'. hnd rq' w = (r0, t)"
        then obtain rq' where "hnd rq' w = (r0, t)" ..
        with mounted_typed [OF h, of rq' w] panics have "?T r"
          by (auto simp: r x xe typed_map comp_def elim: typed_mono)
        then show ?thesis ..
      qed (use r in blast)
    next
      case False
      have "typed (route_answers (fst x) (fst (snd x))) wire_shape False (fst (snd (snd x) (vi_request v) w))"
        using x(1) False public_typed [THEN sends_typed, THEN typed_mono]
        by (auto simp: engine_routes_def public_routes_def status_page_def health_reply_def ready_reply_def
            route_answers_def answer_types_def)
      then have "?T r" unfolding run x(2,3) by (auto elim: typed_mono)
      then show ?thesis ..
    qed
  qed
  then show ?thesis by (cases r) (simp_all add: route_answers_def)
qed

text \<open>A detail page of a process without a cache.\<close>

definition detail_visit :: visit where
  "detail_visit = \<lparr>vi_meth = GET, vi_pattern = ''/product/v1/public/products/:id'',
     vi_request = bare_request ''1'', vi_random = ''t'', vi_rounds = []\<rparr>"

theorem replies_typed_witness:
  "\<exists>r w'. ServeHTTP sample_web [staff_guard] std_env sample_cenv staging_app False detail_visit sample_world =
       (r, w') \<and> r \<noteq> Panicked \<and> (\<forall>n b. r = Answer n b \<longrightarrow> n = 200 \<and> wire_shape b = Product_shape)"
proof -
  obtain p where b: "boot calm std_env (Load (staging_env ''off'')) fresh_proc =
      (Inr staging_app, p)" using uncached_boot by blast
  obtain r w' where s: "ServeHTTP sample_web [staff_guard] std_env sample_cenv staging_app False
      detail_visit sample_world = (r, w')" by fastforce
  have v: "vi_meth detail_visit = GET" "vi_pattern detail_visit = ''/product/v1/public/products/:id''"
    by (simp_all add: detail_visit_def)
  from replies_typed [OF b s] s show ?thesis by (cases r) (auto simp: v answer_types_def)
qed

end
