(* ===== verification/Replica_Reads.thy ===== *)
theory Replica_Reads
  imports Engine_Spec
begin

section \<open>What the read replica can reach\<close>

text \<open>
  Related products may come from a replica that lags. Here is what that costs: the database and
  the cache server after a request are the same whatever the replica holds, so a stale read is
  never cached, and of the replies only the related products of the detail page can differ.
  The method is that of a non-interference proof: every part of the program is shown to be
  blind to the replica, and blind parts compose to blind wholes.
\<close>

subsection \<open>Blind parts\<close>

definition replica_blind :: "(world \<Rightarrow> 'a \<times> world) \<Rightarrow> bool" where
  "replica_blind m \<longleftrightarrow> (\<forall>w d. m (w\<lparr>w_replica := d\<rparr>) = (fst (m w), (snd (m w))\<lparr>w_replica := d\<rparr>))"

named_theorems blind_intros \<open>rules that reduce blindness of a composite to its parts\<close>

lemma blindI: "(\<And>w d. m (w\<lparr>w_replica := d\<rparr>) = (fst (m w), (snd (m w))\<lparr>w_replica := d\<rparr>)) \<Longrightarrow> replica_blind m"
  by (simp add: replica_blind_def)

lemma blindD: "replica_blind m \<Longrightarrow> m w = (r, w') \<Longrightarrow> m (w\<lparr>w_replica := d\<rparr>) = (r, w'\<lparr>w_replica := d\<rparr>)"
  by (simp add: replica_blind_def)

lemma blind_keeps: "replica_blind m \<Longrightarrow> w_replica (snd (m w)) = w_replica w"
proof -
  assume "replica_blind m"
  then have "m (w\<lparr>w_replica := w_replica w\<rparr>) = (fst (m w), (snd (m w))\<lparr>w_replica := w_replica w\<rparr>)"
    unfolding replica_blind_def by blast
  then have "snd (m w) = (snd (m w))\<lparr>w_replica := w_replica w\<rparr>" by (metis snd_conv world.unfold_congs(2) world.surjective world.update_convs(2))
  then show ?thesis by (metis world.select_convs(2) world.surjective world.update_convs(2))
qed

lemma blind_on_db [blind_intros]: "replica_blind (on_db m)"
  by (rule blindI) (simp add: on_db_def split: prod.split)

lemma blind_on_vk [blind_intros]: "replica_blind (on_vk m)"
  by (rule blindI) (simp add: on_vk_def split: prod.split)

lemma blind_give [blind_intros]: "replica_blind (give x)" "replica_blind (raise e)" "replica_blind (Pair y)"
  by (simp_all add: replica_blind_def)

lemma blind_bind [blind_intros]:
  assumes "replica_blind m" and "\<And>x. replica_blind (f x)"
  shows "replica_blind (\<lambda>w. case m w of (x, w1) \<Rightarrow> f x w1)"
proof (rule blindI)
  fix w d
  obtain x w1 where m: "m w = (x, w1)" by fastforce
  obtain y w2 where f: "f x w1 = (y, w2)" by fastforce
  from m f blindD [OF assms(1) m] blindD [OF assms(2) f]
  show "(case m (w\<lparr>w_replica := d\<rparr>) of (x, w1) \<Rightarrow> f x w1) =
      (fst (case m w of (x, w1) \<Rightarrow> f x w1), (snd (case m w of (x, w1) \<Rightarrow> f x w1))\<lparr>w_replica := d\<rparr>)"
    by simp
qed

lemma blind_cases [blind_intros]:
  "replica_blind m \<Longrightarrow> replica_blind n \<Longrightarrow> replica_blind (if b then m else n)"
  "(\<And>e. replica_blind (f e)) \<Longrightarrow> (\<And>v. replica_blind (g v)) \<Longrightarrow>
     replica_blind (case r of Inl e \<Rightarrow> f e | Inr v \<Rightarrow> g v)"
  "replica_blind m \<Longrightarrow> (\<And>v. replica_blind (g v)) \<Longrightarrow>
     replica_blind (case opt of None \<Rightarrow> m | Some v \<Rightarrow> g v)"
  by (cases b; cases r; cases opt; simp)+

lemma blind_map: "replica_blind m \<Longrightarrow> replica_blind (\<lambda>w. (g (fst (m w)), snd (m w)))"
  using blind_bind [of m "\<lambda>x w. (g x, w)"] by (simp add: case_prod_unfold replica_blind_def)

lemma blind_lifted [blind_intros]:
  "replica_blind (\<lambda>w. (y, w))"
  "replica_blind m \<Longrightarrow> replica_blind n \<Longrightarrow> replica_blind (\<lambda>w. if b then m w else n w)"
  "(\<And>e. replica_blind (f e)) \<Longrightarrow> (\<And>v. replica_blind (g v)) \<Longrightarrow>
     replica_blind (\<lambda>w. case r of Inl e \<Rightarrow> f e w | Inr v \<Rightarrow> g v w)"
  "replica_blind m \<Longrightarrow> (\<And>v. replica_blind (h v)) \<Longrightarrow>
     replica_blind (\<lambda>w. case opt of None \<Rightarrow> m w | Some v \<Rightarrow> h v w)"
proof -
  show "replica_blind (\<lambda>w. (y, w))" by (simp add: replica_blind_def)
qed (cases b; cases r; cases opt; simp)+

text \<open>A handler that asks the repository, and answers or goes on with what it got.\<close>

lemma blind_answer [blind_intros]:
  assumes "replica_blind m" and "\<And>v. replica_blind (g v)"
  shows "replica_blind (\<lambda>w. case m w of (Inl e, w1) \<Rightarrow> (f e, w1) | (Inr v, w1) \<Rightarrow> g v w1)"
proof -
  have "replica_blind (\<lambda>w. case m w of (r, w1) \<Rightarrow> (case r of Inl e \<Rightarrow> Pair (f e) | Inr v \<Rightarrow> g v) w1)"
    by (intro blind_intros assms)
  moreover have "(\<lambda>w. case m w of (Inl e, w1) \<Rightarrow> (f e, w1) | (Inr v, w1) \<Rightarrow> g v w1) =
      (\<lambda>w. case m w of (r, w1) \<Rightarrow> (case r of Inl e \<Rightarrow> Pair (f e) | Inr v \<Rightarrow> g v) w1)"
    by (rule ext) (simp split: prod.split sum.split)
  ultimately show ?thesis by simp
qed

lemma blind_seq [blind_intros]:
  assumes "replica_blind m" and "\<And>v. replica_blind (f v)"
  shows "replica_blind (seq m f)"
proof -
  have "replica_blind (\<lambda>w. case m w of (r, w1) \<Rightarrow> (case r of Inl e \<Rightarrow> Pair (Inl e) | Inr v \<Rightarrow> f v) w1)"
    by (intro blind_intros assms)
  moreover have "seq m f = (\<lambda>w. case m w of (r, w1) \<Rightarrow> (case r of Inl e \<Rightarrow> Pair (Inl e) | Inr v \<Rightarrow> f v) w1)"
    by (rule ext) (simp add: seq_def split: prod.split sum.split)
  ultimately show ?thesis by simp
qed

lemma blind_on_err [blind_intros]: "replica_blind m \<Longrightarrow> replica_blind (on_err g m)"
  by (auto simp: replica_blind_def on_err_def split: prod.split sum.split)

subsection \<open>The cache and the reads behind it\<close>

lemma blind_cache [blind_intros]:
  assumes "pc_client c = world_client"
  shows "replica_blind (pc_GetProduct c i)" and "replica_blind (pc_SetProduct cenv c i p)"
    and "replica_blind (pc_GetProductList c f)" and "replica_blind (pc_SetProductList cenv c f ps n)"
    and "replica_blind (InvalidateProduct c i)" and "replica_blind (InvalidateProductList c)"
  unfolding pc_GetProduct_def pc_SetProduct_def pc_GetProductList_def pc_SetProductList_def
    InvalidateProduct_def InvalidateProductList_def assms world_client_sel
  by (intro blind_intros)+

lemma blind_fetch_as_owner:
  assumes "pc_client c = world_client" and "replica_blind fetch"
  shows "replica_blind (fetch_as_owner cenv c i token fetch)"
proof (rule blindI)
  fix w d
  obtain x w1 where f: "fetch w = (x, w1)" by fastforce
  have del: "replica_blind (on_vk (vk_DeleteIfEqual (lock_key i) (Bytes token)))" by (rule blind_on_vk)
  show "fetch_as_owner cenv c i token fetch (w\<lparr>w_replica := d\<rparr>) =
      (fst (fetch_as_owner cenv c i token fetch w),
       (snd (fetch_as_owner cenv c i token fetch w))\<lparr>w_replica := d\<rparr>)"
    using blindD [OF assms(2) f] f assms(1) del blind_cache(2) [OF assms(1)]
    by (cases x) (simp_all add: fetch_as_owner_def replica_blind_def)
qed

text \<open>What the other workers do while this one waits does not depend on the replica either.\<close>

definition others_blind :: "world rounds \<Rightarrow> bool" where
  "others_blind rounds \<longleftrightarrow> (\<forall>x \<in> set rounds. \<forall>w d. fst x (w\<lparr>w_replica := d\<rparr>) = (fst x w)\<lparr>w_replica := d\<rparr>)"

lemma blind_wait_loop:
  assumes "pc_client c = world_client" and "replica_blind fetch" and "others_blind rounds"
  shows "replica_blind (wait_loop c i fetch rounds)"
  using assms(3)
proof (induction rounds)
  case (Cons x rounds)
  obtain g wk where x: "x = (g, wk)" by fastforce
  from Cons have IH: "replica_blind (wait_loop c i fetch rounds)" by (simp add: others_blind_def)
  have g: "g (w\<lparr>w_replica := d\<rparr>) = (g w)\<lparr>w_replica := d\<rparr>" for w d
    using Cons.prems by (simp add: others_blind_def x)
  show ?case
  proof (rule blindI)
    fix w d
    obtain r w2 where p: "pc_GetProduct c i (g w) = (r, w2)" by fastforce
    show "wait_loop c i fetch (x # rounds) (w\<lparr>w_replica := d\<rparr>) =
        (fst (wait_loop c i fetch (x # rounds) w),
         (snd (wait_loop c i fetch (x # rounds) w))\<lparr>w_replica := d\<rparr>)"
      using p blindD [OF blind_cache(1) [OF assms(1)] p] IH assms(2)
      by (cases wk) (simp_all add: x g replica_blind_def split: sum.split option.split)
  qed
qed (use assms(2) in \<open>simp add: replica_blind_def\<close>)

lemma blind_GetProductOrSet:
  assumes "pc_client c = world_client" and "replica_blind fetch" and "others_blind rounds"
  shows "replica_blind (GetProductOrSet cenv c i token rounds fetch)"
proof (rule blindI)
  fix w d
  obtain x w1 where g: "pc_GetProduct c i w = (x, w1)" by fastforce
  obtain y w2 where n: "on_vk (vk_SetNX (lock_key i) (Bytes token) lock_ttl) w1 = (y, w2)" by fastforce
  note parts = blind_fetch_as_owner [OF assms(1,2)] blind_wait_loop [OF assms] assms(2)
  show "GetProductOrSet cenv c i token rounds fetch (w\<lparr>w_replica := d\<rparr>) =
      (fst (GetProductOrSet cenv c i token rounds fetch w),
       (snd (GetProductOrSet cenv c i token rounds fetch w))\<lparr>w_replica := d\<rparr>)"
    using g n blindD [OF blind_cache(1) [OF assms(1)] g] blindD [OF blind_on_vk n] parts
    by (simp add: GetProductOrSet_def assms(1) replica_blind_def split: sum.split option.split)
qed

subsection \<open>The service and its handlers\<close>

lemma blind_service:
  assumes "cache_wired sv" and "others_blind rounds"
  shows "replica_blind (sv_GetProduct env cenv sv token rounds i)"
    and "replica_blind (sv_ListProducts env cenv sv f)"
proof -
  show "replica_blind (sv_GetProduct env cenv sv token rounds i)"
    unfolding sv_GetProduct_def
    by (intro blind_on_err, cases "sv_cache sv")
       (use blind_GetProductOrSet [OF _ blind_on_db assms(2)] blind_on_db assms(1) in
         \<open>simp_all add: cache_wired_def\<close>)
  have q: "replica_blind (query_list env f)" unfolding query_list_def by (intro blind_intros)
  show "replica_blind (sv_ListProducts env cenv sv f)"
  proof (cases "sv_cache sv")
    case (Some c)
    then have c: "pc_client c = world_client" using assms(1) by (simp add: cache_wired_def)
    show ?thesis
    proof (rule blindI)
      fix w d
      obtain x w1 where g: "pc_GetProductList c f w = (x, w1)" by fastforce
      obtain y w2 where l: "query_list env f w1 = (y, w2)" by fastforce
      show "sv_ListProducts env cenv sv f (w\<lparr>w_replica := d\<rparr>) =
          (fst (sv_ListProducts env cenv sv f w), (snd (sv_ListProducts env cenv sv f w))\<lparr>w_replica := d\<rparr>)"
        using g l blindD [OF blind_cache(3) [OF c] g] blindD [OF q l] blind_cache(4) [OF c]
        by (simp add: sv_ListProducts_def Some replica_blind_def split: sum.split option.split prod.split)
    qed
  qed (simp add: sv_ListProducts_def q)
qed

lemma blind_public:
  assumes "cache_wired sv" and "others_blind rounds"
  shows "replica_blind (http_ListProducts env cenv sv rq)"
    and "replica_blind (http_GetProduct env cenv sv token rounds rq)"
proof -
  show "replica_blind (http_ListProducts env cenv sv rq)"
    unfolding http_ListProducts_def Let_def by (intro blind_intros blind_service(2) [OF assms])
  show "replica_blind (http_GetProduct env cenv sv token rounds rq)"
    unfolding http_GetProduct_def by (intro blind_intros blind_service(1) [OF assms])
qed

text \<open>The operator's handlers reach the database and the cache, never the replica.\<close>

definition cache_blind :: "world ProtectedHandler \<Rightarrow> bool" where
  "cache_blind h \<longleftrightarrow> (\<forall>x. ph_cache h = Some x \<longrightarrow>
     replica_blind (xc_InvalidateProductList x) \<and> (\<forall>i. replica_blind (xc_InvalidateProduct x i)))"

lemma blind_ignore_error [blind_intros]: "replica_blind f \<Longrightarrow> replica_blind (ignore_error f)"
  by (auto simp: replica_blind_def ignore_error_def split: prod.split option.split)

lemma blind_invalidate [blind_intros]:
  assumes "cache_blind h"
  shows "replica_blind (invalidateProduct h i)" and "replica_blind (invalidateList h)"
    and "replica_blind (invalidateAll h)"
proof -
  have parts: "replica_blind (ignore_error (xc_InvalidateProductList x))"
    "replica_blind (ignore_error (xc_InvalidateProduct x i))" if "ph_cache h = Some x" for x
    using assms that by (simp_all add: cache_blind_def blind_ignore_error)
  show "replica_blind (invalidateProduct h i)"
  proof (cases "ph_cache h")
    case (Some x)
    show ?thesis
    proof (rule blindI)
      fix w d
      obtain b w1 where p: "ignore_error (xc_InvalidateProduct x i) w = (b, w1)" by fastforce
      note q = blindD [OF parts(2) [OF Some] p, of d]
        and r = parts(1) [OF Some, unfolded replica_blind_def, rule_format, of d w1]
      show "invalidateProduct h i (w\<lparr>w_replica := d\<rparr>) =
          (fst (invalidateProduct h i w), (snd (invalidateProduct h i w))\<lparr>w_replica := d\<rparr>)"
        by (cases b) (simp_all add: invalidateProduct_def Some p q r)
    qed
  qed (simp add: invalidateProduct_def replica_blind_def)
  have "invalidateList h = (case ph_cache h of None \<Rightarrow> Pair True
      | Some x \<Rightarrow> ignore_error (xc_InvalidateProductList x))"
    by (rule ext) (simp add: invalidateList_def split: option.split)
  moreover have "invalidateAll h = invalidateList h"
    by (rule ext) (simp add: invalidateAll_def invalidateList_def)
  ultimately show "replica_blind (invalidateList h)" "replica_blind (invalidateAll h)"
    by (cases "ph_cache h"; simp add: blind_give parts)+
qed

lemma blind_finish [blind_intros]: "replica_blind g \<Longrightarrow> replica_blind (\<lambda>w. finish r (g w))"
  by (simp add: replica_blind_def finish_def)

lemma blind_repo [blind_intros]:
  "replica_blind (ca_ListProducts (repo_on_world env) st l k)" "replica_blind (ca_GetProduct (repo_on_world env) i)"
  "replica_blind (ca_CreateProduct (repo_on_world env) ci)" "replica_blind (ca_UpdateProduct (repo_on_world env) ui)"
  "replica_blind (ca_Transition (repo_on_world env) ti)" "replica_blind (ca_ListCategories (repo_on_world env) l k)"
  "replica_blind (ca_CreateCategory (repo_on_world env) n ds sub rid)"
  "replica_blind (ca_UpdateCategory (repo_on_world env) cid n ds sub rid)"
  "replica_blind (ca_ListAudit (repo_on_world env) tt tid l)"
  by (simp_all add: repo_on_world_def blind_on_db)

lemma blind_mounted:
  assumes "ph_repo h = repo_on_world env" and "cache_blind h" and "(m, pat, hnd) \<in> set (mount we h)"
  shows "replica_blind (hnd rq)"
proof -
  obtain sub rid where ac: "actor rq = (sub, rid)" by fastforce
  obtain page size where pp: "ParsePage we rq = (page, size)" by fastforce
  note i = blind_intros blind_invalidate [OF assms(2)] and u = assms(1) ac pp prod.case Let_def
  have "replica_blind (h_ListProducts we h rq)" unfolding h_ListProducts_def u by (intro i)
  moreover have "replica_blind (h_GetProduct h rq)" unfolding h_GetProduct_def u by (intro i)
  moreover have "replica_blind (ProductAudit h rq)" unfolding ProductAudit_def u by (intro i)
  moreover have "replica_blind (h_ListCategories we h rq)" unfolding h_ListCategories_def u by (intro i)
  moreover have "replica_blind (h_CreateProduct we h rq)" unfolding h_CreateProduct_def u by (intro i)
  moreover have "replica_blind (h_UpdateProduct we h rq)" unfolding h_UpdateProduct_def u by (intro i)
  moreover have "replica_blind (transition we h act rq)" for act unfolding transition_def u by (intro i)
  moreover have "replica_blind (h_CreateCategory we h rq)" unfolding h_CreateCategory_def u by (intro i)
  moreover have "replica_blind (h_UpdateCategory we h rq)" unfolding h_UpdateCategory_def u by (intro i)
  ultimately show ?thesis using assms(3) by (auto simp: mount_def)
qed

subsection \<open>The detail page\<close>

fun without_related :: "wire \<Rightarrow> wire" where
  "without_related (W_details parts) = W_details (filter (\<lambda>x. fst x \<noteq> ''related_products'') parts)"
| "without_related y = y"

lemma enriched_related:
  "add_reviews sv i (enrichAvailability sv i (x\<lparr>pd_RelatedProducts := rel\<rparr>)) =
     (add_reviews sv i (enrichAvailability sv i x))\<lparr>pd_RelatedProducts := rel\<rparr>"
  by (simp add: add_reviews_def enrichAvailability_def split: option.split sum.split)

lemma response_without_related:
  "without_related (W_details (details_response (x\<lparr>pd_RelatedProducts := rel\<rparr>))) =
     without_related (W_details (details_response x))"
  by (simp add: details_response_def split: option.split)

lemma related_confined:
  assumes "GetRelatedProducts env sv i l w = (r, w1)"
    and "GetRelatedProducts env sv i l (w\<lparr>w_replica := d\<rparr>) = (r', w2)"
  shows "w_db w2 = w_db w1" and "w_vk w2 = w_vk w1"
    and "rp_related (sv_repo sv) = Primary \<Longrightarrow> r' = r \<and> w2 = w1\<lparr>w_replica := d\<rparr>"
  using assms by (auto simp: GetRelatedProducts_def on_pool_def on_db_def on_replica_def
      split: db_pool.splits prod.splits)

lemma details_confined:
  assumes "cache_wired sv" and "others_blind rounds"
    and "http_GetProductDetails env cenv sv token rounds rq w = (r, w1)"
    and "http_GetProductDetails env cenv sv token rounds rq (w\<lparr>w_replica := d\<rparr>) = (r', w2)"
  shows "w_db w2 = w_db w1 \<and> w_vk w2 = w_vk w1 \<and>
      map_reply (without_related \<circ> W_details) r' = map_reply (without_related \<circ> W_details) r \<and>
      (rp_related (sv_repo sv) = Primary \<longrightarrow> r' = r \<and> w2 = w1\<lparr>w_replica := d\<rparr>)"
proof -
  obtain x w0 where p: "sv_GetProduct env cenv sv token rounds (rq_param rq) w = (x, w0)" by fastforce
  note p' = blindD [OF blind_service(1) [OF assms(1,2)] p, of d]
  show ?thesis
  proof (cases x)
    case (Inl e)
    with p p' assms(3,4) show ?thesis
      by (auto simp: http_GetProductDetails_def GetProductDetails_def seq_def product_failure_def internal_error_def)
  next
    case (Inr pr)
    obtain s v1 where g: "GetRelatedProducts env sv (rq_param rq) DefaultRelatedProductsLimit w0 = (s, v1)"
      by fastforce
    obtain s' v2 where g': "GetRelatedProducts env sv (rq_param rq) DefaultRelatedProductsLimit
        (w0\<lparr>w_replica := d\<rparr>) = (s', v2)" by fastforce
    define base where "base = add_reviews sv (rq_param rq) (enrichAvailability sv (rq_param rq)
      \<lparr>pd_Product = pr, pd_RelatedProducts = None, pd_Reviews = [], pd_ReviewsTotal = 0,
        pd_ReviewsAverage = 0, pd_Availability = None\<rparr>)"
    have page: "add_reviews sv (rq_param rq) (enrichAvailability sv (rq_param rq)
      \<lparr>pd_Product = pr, pd_RelatedProducts = rel, pd_Reviews = [], pd_ReviewsTotal = 0,
        pd_ReviewsAverage = 0, pd_Availability = None\<rparr>) = base\<lparr>pd_RelatedProducts := rel\<rparr>" for rel
      unfolding base_def enriched_related [symmetric] by simp
    define rel where "rel = (\<lambda>s :: err + product list. case s of Inl e \<Rightarrow> None | Inr ps \<Rightarrow> Some ps)"
    have "r = Answer 200 (details_response (base\<lparr>pd_RelatedProducts := rel s\<rparr>))" "w1 = v1"
      using assms(3) p Inr g by (simp_all add: http_GetProductDetails_def GetProductDetails_def seq_def
          Let_def page rel_def)
    moreover have "r' = Answer 200 (details_response (base\<lparr>pd_RelatedProducts := rel s'\<rparr>))" "w2 = v2"
      using assms(4) p' Inr g' by (simp_all add: http_GetProductDetails_def GetProductDetails_def seq_def
          Let_def page rel_def)
    ultimately show ?thesis
      using related_confined [OF g g'] by (simp add: response_without_related del: without_related.simps)
  qed
qed

subsection \<open>A request\<close>

lemma boot_pool:
  assumes "boot pf env cfg p = (Inr a, p1)"
  shows "rp_related (sv_repo (ap_service a)) = (if db_ReadReplica (Database cfg) then Replica else Primary)"
  using assms
  by (auto simp: boot_def seq_Inr_iff boot_parts Let_def NewProductService_def WithAvailability_def
      NewPostgresProductRepository_def WithRelatedReadPool_def split: if_splits)

lemma boot_cache_blind:
  assumes "boot pf env cfg p = (Inr a, p1)"
  shows "cache_blind (ap_protected a)"
proof -
  have ret: "replica_blind m \<Longrightarrow> replica_blind (returns m)" for m :: "(world, err, unit) action"
    by (simp add: replica_blind_def returns_def case_prod_unfold)
  show ?thesis
    using boot_wiring(1) [OF assms] ret blind_cache(5,6)
    by (simp add: cache_blind_def operator_handler_def cache_on_world_def nil_product_cache_def
        replica_blind_def [where m = "\<lambda>s. (None, s)"] split: if_splits)
qed

lemma blind_guarded: "(\<And>rq'. replica_blind (hnd rq')) \<Longrightarrow> replica_blind (guarded mws hnd rq)"
proof (induction mws arbitrary: rq)
  case (Cons m mws)
  have "guarded (m # mws) hnd rq = (case m rq of Inl reply \<Rightarrow> Pair reply | Inr rq' \<Rightarrow> guarded mws hnd rq')"
    by (rule ext) (simp split: sum.split)
  with Cons show ?case by (simp add: blind_cases(2) blind_give)
next
  case Nil
  have "guarded [] hnd rq = hnd rq" by (rule ext) simp
  with Nil show ?case by simp
qed

lemma blind_sends: "replica_blind (hnd rq) \<Longrightarrow> replica_blind (sends f hnd rq)"
  by (simp add: replica_blind_def sends_def case_prod_unfold)

definition details_pattern :: string where
  "details_pattern = ''/product/v1/public/products/:id/details''"

text \<open>Every route but the detail page is blind.\<close>

lemma blind_routes:
  assumes "app_wired env a" and "cache_blind (ap_protected a)" and "others_blind rounds"
    and "(m, pat, hnd) \<in> set (engine_routes we mws env cenv a down token rounds)"
  shows "replica_blind (hnd rq) \<or> (pat = details_pattern \<and>
    hnd = sends W_details (http_GetProductDetails env cenv (ap_service a) token rounds))"
proof -
  have w: "cache_wired (ap_service a)" "ph_repo (ap_protected a) = repo_on_world env"
    using assms(1) by (simp_all add: app_wired_def)
  have s: "replica_blind (status_page y rq)" for y
    by (cases y) (simp add: replica_blind_def status_page_def)
  note l = blind_sends [where f = W_page and hnd = "http_ListProducts env cenv (ap_service a)",
      OF blind_public(1) [OF w(1) assms(3)]]
    and g = blind_sends [where f = W_product and hnd = "http_GetProduct env cenv (ap_service a) token rounds",
      OF blind_public(2) [OF w(1) assms(3)]]
  have pr: "replica_blind (sends W_admin (guarded mws h) rq)" if "(m', p', h) \<in> set (mount we (ap_protected a))"
    for m' p' h
    by (intro blind_sends blind_guarded blind_mounted [OF w(2) assms(2) that])
  from assms(4) show ?thesis
    using s [of health_reply] s [of "ready_reply down"] pr l g
    unfolding engine_routes_def public_routes_def protected_routes_def details_pattern_def
    by auto
qed

text \<open>
  C12. The read replica is confined to the related products of the detail page: whatever request
  reaches a booted process, and whatever the replica holds, the database and the cache server end
  the same, so no stale read is ever cached; the reply is the same but for the related products;
  and it is the same throughout, with the replica not even asked, on every other route and
  everywhere when \<open>DB_READ_REPLICA\<close> is off.
\<close>

theorem replica_confined:
  assumes "boot pf env cfg p = (Inr a, p1)" and "others_blind (vi_rounds v)"
    and "ServeHTTP we mws env cenv a down v w = (r, w1)"
    and "ServeHTTP we mws env cenv a down v (w\<lparr>w_replica := d\<rparr>) = (r', w2)"
  shows "w_db w2 = w_db w1 \<and> w_vk w2 = w_vk w1 \<and>
     map_reply without_related r' = map_reply without_related r \<and>
     (vi_pattern v \<noteq> ''/product/v1/public/products/:id/details'' \<or> \<not> db_ReadReplica (Database cfg) \<longrightarrow>
       r' = r \<and> w2 = w1\<lparr>w_replica := d\<rparr>)"
proof (cases "find (\<lambda>r. fst r = vi_meth v \<and> fst (snd r) = vi_pattern v)
    (engine_routes we mws env cenv a down (newLockToken (vi_random v)) (vi_rounds v))")
  case None
  with assms(3,4) show ?thesis by (auto simp: ServeHTTP_def)
next
  case (Some x)
  obtain m pat hnd where x: "x = (m, pat, hnd)" by (cases x) auto
  have "x \<in> set (engine_routes we mws env cenv a down (newLockToken (vi_random v)) (vi_rounds v))"
    "fst (snd x) = vi_pattern v" using Some by (auto simp: find_Some_iff)
  then have mem: "(m, pat, hnd) \<in> set (engine_routes we mws env cenv a down
      (newLockToken (vi_random v)) (vi_rounds v))" and pat: "pat = vi_pattern v"
    by (simp_all add: x)
  have run: "hnd (vi_request v) w = (r, w1)" "hnd (vi_request v) (w\<lparr>w_replica := d\<rparr>) = (r', w2)"
    using assms(3,4) Some by (simp_all add: ServeHTTP_def x)
  from blind_routes [OF boot_app_wired [OF assms(1)] boot_cache_blind [OF assms(1)] assms(2) mem, of "vi_request v"]
  show ?thesis
  proof
    assume "replica_blind (hnd (vi_request v))"
    from blindD [OF this run(1), of d] run(2) show ?thesis by simp
  next
    assume d: "pat = details_pattern \<and> hnd = sends W_details (http_GetProductDetails env cenv (ap_service a)
      (newLockToken (vi_random v)) (vi_rounds v))"
    obtain s where s: "http_GetProductDetails env cenv (ap_service a) (newLockToken (vi_random v))
        (vi_rounds v) (vi_request v) w = (s, w1)" "r = map_reply W_details s"
      using run(1) d by (auto simp: sends_def split: prod.splits)
    obtain s' where s': "http_GetProductDetails env cenv (ap_service a) (newLockToken (vi_random v))
        (vi_rounds v) (vi_request v) (w\<lparr>w_replica := d\<rparr>) = (s', w2)" "r' = map_reply W_details s'"
      using run(2) d by (auto simp: sends_def split: prod.splits)
    have "cache_wired (ap_service a)" using boot_app_wired [OF assms(1)] by (simp add: app_wired_def)
    from details_confined [OF this assms(2) s(1) s'(1)] boot_pool [OF assms(1)] d pat show ?thesis
      by (auto simp: s(2) s'(2) details_pattern_def reply.map_comp)
  qed
qed

text \<open>At a concrete page: an empty replica costs the related products and nothing else.\<close>

definition replica_env :: getenv where
  "replica_env = (staging_env ''off'')(''DB_READ_REPLICA'' := ''true'')"

definition replica_app :: app where
  "replica_app = staging_app\<lparr>ap_service := (ap_service staging_app)\<lparr>
     sv_repo := \<lparr>rp_pool = Primary, rp_related = Replica\<rparr>\<rparr>\<rparr>"

lemma replica_boot:
  "\<exists>p. boot calm std_env (Load replica_env) fresh_proc = (Inr replica_app, p)"
proof -
  have "Validate (Load replica_env) = []" by code_simp
  moreover have "db_ReadReplica (Database (Load replica_env))"
    "fc_Enabled (Profiling (Load replica_env))" "\<not> cc_Enabled (Cache (Load replica_env))"
    by (simp_all add: Load_def replica_env_def staging_env_def getEnvBool_def to_lower_def
        ascii_lower_def Let_def)
  ultimately show ?thesis
    by (simp add: boot_def seq_def boot_parts calm_def Let_def NewProductService_def
        WithAvailability_def NewProtectedHandler_def as_catalogCache_def staging_app_def replica_app_def
        NewPostgresProductRepository_def WithRelatedReadPool_def)
qed

definition page_visit :: visit where
  "page_visit = \<lparr>vi_meth = GET, vi_pattern = ''/product/v1/public/products/:id/details'',
     vi_request = bare_request ''1'', vi_random = ''t'', vi_rounds = []\<rparr>"

lemma related_empty: "FindRelatedProducts std_env ''1'' 4 migrated_db = (Inr [], migrated_db)"
  by (simp add: FindRelatedProducts_def with_int4_def limit_offset_def related_to_def
      page_of_def scan_related_def migrated_db_def)

lemma enriched_keeps_related [simp]:
  "pd_RelatedProducts (add_reviews sv i x) = pd_RelatedProducts x"
  "pd_RelatedProducts (enrichAvailability sv i x) = pd_RelatedProducts x"
  by (simp_all add: add_reviews_def enrichAvailability_def split: option.split sum.split)

lemma page_visit_run:
  assumes "FindRelatedProducts std_env ''1'' 4 d = (Inr ps, d)"
  shows "\<exists>parts. fst (ServeHTTP sample_web [staff_guard] std_env sample_cenv replica_app False page_visit
       (sample_world\<lparr>w_replica := d\<rparr>)) = Answer 200 (W_details parts) \<and>
     map_of parts ''related_products'' = Some (P_related (Some ps))"
proof -
  have "fst (FindByID std_env ''1'' sample_db) =
      Inr (public_product sample_db (sample_row 1 ''Mouse'' 1999 (Some 1) StatusActive 2))"
    using FindByID_run [OF sample_db_inv std_scan_ok, of "''1''"] by simp
  then obtain p e where "FindByID std_env ''1'' sample_db = (Inr p, e)" by (metis prod.collapse)
  with assms show ?thesis
    by (simp add: ServeHTTP_def engine_routes_def public_routes_def protected_routes_def page_visit_def
        sends_def http_GetProductDetails_def GetProductDetails_def seq_def sv_GetProduct_def on_err_def
        on_db_def on_replica_def on_pool_def GetRelatedProducts_def DefaultRelatedProductsLimit_def
        replica_app_def staging_app_def bare_request_def Let_def details_response_def)
qed

theorem replica_confined_witness:
  "\<exists>p r r' w1 w2. boot calm std_env (Load replica_env) fresh_proc = (Inr replica_app, p) \<and>
     ServeHTTP sample_web [staff_guard] std_env sample_cenv replica_app False page_visit sample_world = (r, w1) \<and>
     ServeHTTP sample_web [staff_guard] std_env sample_cenv replica_app False page_visit
       (sample_world\<lparr>w_replica := migrated_db\<rparr>) = (r', w2) \<and>
     r \<noteq> r' \<and> map_reply without_related r' = map_reply without_related r \<and> w_vk w2 = w_vk w1"
proof -
  obtain p where b: "boot calm std_env (Load replica_env) fresh_proc = (Inr replica_app, p)"
    using replica_boot by blast
  let ?S = "ServeHTTP sample_web [staff_guard] std_env sample_cenv replica_app False page_visit"
  obtain r w1 where 1: "?S sample_world = (r, w1)" by fastforce
  obtain r' w2 where 2: "?S (sample_world\<lparr>w_replica := migrated_db\<rparr>) = (r', w2)" by fastforce
  have "sample_world\<lparr>w_replica := sample_db\<rparr> = sample_world" by (simp add: sample_world_def)
  with page_visit_run [OF related_example] page_visit_run [OF related_empty] 1 2 have "r \<noteq> r'" by auto
  moreover have "others_blind (vi_rounds page_visit)" by (simp add: others_blind_def page_visit_def)
  ultimately show ?thesis using replica_confined [OF b _ 1 2] b 1 2 by blast
qed

end
