(* ===== verification/Fair_Reads.thy ===== *)
theory Fair_Reads
  imports Engine_Spec
begin

section \<open>What the public is shown was once for sale\<close>

text \<open>
  The cache of details over the whole life of the service, by rely and guarantee: one relation
  between worlds bounds what any part of the service may do, a request as a whole and the
  other processes alike. The database moves along a history of commands, and a detail that
  is new in the cache is what the database answered at some moment of that move. The relation
  composes, so it bounds every run.
\<close>

subsection \<open>Following a relation\<close>

definition follows :: "('s \<Rightarrow> 's \<Rightarrow> bool) \<Rightarrow> ('s \<Rightarrow> 'a \<times> 's) \<Rightarrow> bool" where
  "follows R m \<longleftrightarrow> (\<forall>s. R s (snd (m s)))"

lemma followsI: "(\<And>s r t. m s = (r, t) \<Longrightarrow> R s t) \<Longrightarrow> follows R m"
  by (metis follows_def prod.collapse)

lemma followsD: "follows R m \<Longrightarrow> m s = (r, t) \<Longrightarrow> R s t"
  by (metis follows_def snd_conv)

locale guarantee =
  fixes R :: "'s \<Rightarrow> 's \<Rightarrow> bool"
  assumes R_refl: "R s s" and R_trans: "R s t \<Longrightarrow> R t u \<Longrightarrow> R s u"
begin

lemma follows_answer: "follows R (\<lambda>s. (y, s))" "follows R (Pair y)" "follows R (give x)" "follows R (raise e)"
  by (simp_all add: follows_def R_refl)

lemma follows_bind:
  assumes "follows R m" and "\<And>x. follows R (f x)"
  shows "follows R (\<lambda>s. case m s of (x, s1) \<Rightarrow> f x s1)"
proof (rule followsI)
  fix s r t assume run: "(case m s of (x, s1) \<Rightarrow> f x s1) = (r, t)"
  obtain x s1 where m: "m s = (x, s1)" by fastforce
  with run have "R s1 t" using followsD [OF assms(2)] by simp
  with followsD [OF assms(1) m] show "R s t" by (rule R_trans)
qed

lemma follows_cases:
  "follows R m \<Longrightarrow> follows R n \<Longrightarrow> follows R (\<lambda>s. if b then m s else n s)"
  "(\<And>e. follows R (f e)) \<Longrightarrow> (\<And>v. follows R (g v)) \<Longrightarrow>
     follows R (\<lambda>s. case r of Inl e \<Rightarrow> f e s | Inr v \<Rightarrow> g v s)"
  "follows R m \<Longrightarrow> (\<And>v. follows R (h v)) \<Longrightarrow>
     follows R (\<lambda>s. case opt of None \<Rightarrow> m s | Some v \<Rightarrow> h v s)"
  by (cases b; cases r; cases opt; simp)+

lemma follows_result:
  assumes "follows R m" and "\<And>v. follows R (g v)"
  shows "follows R (\<lambda>s. case m s of (Inl e, s1) \<Rightarrow> (f e, s1) | (Inr v, s1) \<Rightarrow> g v s1)"
proof -
  have "follows R (\<lambda>s. case m s of (r, s1) \<Rightarrow> (case r of Inl e \<Rightarrow> (f e, s1) | Inr v \<Rightarrow> g v s1))"
    by (intro follows_bind follows_cases follows_answer assms)
  moreover have "(\<lambda>s. case m s of (Inl e, s1) \<Rightarrow> (f e, s1) | (Inr v, s1) \<Rightarrow> g v s1) =
      (\<lambda>s. case m s of (r, s1) \<Rightarrow> (case r of Inl e \<Rightarrow> (f e, s1) | Inr v \<Rightarrow> g v s1))"
    by (rule ext) (simp split: prod.split sum.split)
  ultimately show ?thesis by simp
qed

lemma follows_seq:
  assumes "follows R m" and "\<And>v. follows R (f v)"
  shows "follows R (seq m f)"
proof -
  have "seq m f = (\<lambda>s. case m s of (Inl e, s1) \<Rightarrow> (Inl e, s1) | (Inr v, s1) \<Rightarrow> f v s1)"
    by (rule ext) (simp add: seq_def)
  then show ?thesis by (simp add: follows_result assms)
qed

lemma follows_on_err: "follows R m \<Longrightarrow> follows R (on_err g m)"
  by (simp add: follows_def)

lemma follows_ignore_error: "follows R f \<Longrightarrow> follows R (ignore_error f)"
  by (auto simp: follows_def ignore_error_def split: prod.split option.split) (metis snd_conv)+

lemma follows_finish: "follows R g \<Longrightarrow> follows R (\<lambda>s. finish r (g s))"
  by (simp add: follows_def finish_def)

lemmas follow = follows_answer follows_cases follows_result follows_seq follows_on_err
  follows_ignore_error follows_finish

text \<open>The operator's handlers do what their repository and their cache do.\<close>

lemma follows_invalidate:
  assumes "\<And>x. ph_cache h = Some x \<Longrightarrow>
    follows R (xc_InvalidateProductList x) \<and> (\<forall>i. follows R (xc_InvalidateProduct x i))"
  shows "follows R (invalidateProduct h i)" and "follows R (invalidateList h)" and "follows R (invalidateAll h)"
proof -
  have parts: "follows R (ignore_error (xc_InvalidateProductList x))"
    "follows R (ignore_error (xc_InvalidateProduct x i))" if "ph_cache h = Some x" for x
    using assms [OF that] by (simp_all add: follows_ignore_error)
  show "follows R (invalidateProduct h i)"
  proof (cases "ph_cache h")
    case (Some x)
    show ?thesis
    proof (rule followsI)
      fix s r t assume run: "invalidateProduct h i s = (r, t)"
      obtain b s1 where p: "ignore_error (xc_InvalidateProduct x i) s = (b, s1)" by fastforce
      with run followsD [OF parts(2) [OF Some] p] followsD [OF parts(1) [OF Some], of s1] show "R s t"
        by (cases b) (auto simp: invalidateProduct_def Some intro: R_trans)
    qed
  qed (simp add: invalidateProduct_def follows_def R_refl)
  show "follows R (invalidateList h)" "follows R (invalidateAll h)"
    by (cases "ph_cache h"; use parts in \<open>simp add: invalidateList_def invalidateAll_def follows_def R_refl\<close>)+
qed

lemma follows_reads:
  assumes "\<And>st l k. follows R (ca_ListProducts (ph_repo h) st l k)" and "\<And>i. follows R (ca_GetProduct (ph_repo h) i)"
    and "\<And>l k. follows R (ca_ListCategories (ph_repo h) l k)" and "\<And>t n l. follows R (ca_ListAudit (ph_repo h) t n l)"
  shows "follows R (h_ListProducts we h rq)" and "follows R (h_GetProduct h rq)"
    and "follows R (ProductAudit h rq)" and "follows R (h_ListCategories we h rq)"
proof -
  obtain page size where pp: "ParsePage we rq = (page, size)" by fastforce
  note u = pp prod.case Let_def
  show "follows R (h_ListProducts we h rq)" unfolding h_ListProducts_def u by (intro follow assms)
  show "follows R (h_GetProduct h rq)" unfolding h_GetProduct_def by (intro follow assms)
  show "follows R (ProductAudit h rq)" unfolding ProductAudit_def by (intro follow assms)
  show "follows R (h_ListCategories we h rq)" unfolding h_ListCategories_def u by (intro follow assms)
qed

lemma follows_writes:
  assumes "\<And>b. follows R (ca_CreateProduct (ph_repo h) (create_input b rq))"
    and "\<And>b. follows R (ca_UpdateProduct (ph_repo h) (update_input b rq))"
    and "\<And>act reason. follows R (ca_Transition (ph_repo h) (transition_input act reason rq))"
    and "\<And>n d. follows R (ca_CreateCategory (ph_repo h) n d (fst (actor rq)) (snd (actor rq)))"
    and "\<And>c n d. follows R (ca_UpdateCategory (ph_repo h) c n d (fst (actor rq)) (snd (actor rq)))"
    and "\<And>x. ph_cache h = Some x \<Longrightarrow>
      follows R (xc_InvalidateProductList x) \<and> (\<forall>i. follows R (xc_InvalidateProduct x i))"
  shows "follows R (h_CreateProduct we h rq)" and "follows R (h_UpdateProduct we h rq)"
    and "follows R (transition we h act rq)" and "follows R (h_CreateCategory we h rq)"
    and "follows R (h_UpdateCategory we h rq)"
proof -
  obtain sub rid where ac: "actor rq = (sub, rid)" by fastforce
  note c = assms(4,5) [unfolded ac fst_conv snd_conv]
    and i = follow follows_invalidate [OF assms(6)] assms(1-3)
  show "follows R (h_CreateProduct we h rq)" unfolding h_CreateProduct_def by (intro i)
  show "follows R (h_UpdateProduct we h rq)" unfolding h_UpdateProduct_def by (intro i)
  show "follows R (transition we h act rq)" unfolding transition_def by (intro i)
  show "follows R (h_CreateCategory we h rq)" unfolding h_CreateCategory_def ac prod.case by (intro i c)
  show "follows R (h_UpdateCategory we h rq)" unfolding h_UpdateCategory_def ac prod.case by (intro i c)
qed

lemma follows_guarded:
  assumes "\<And>rq'. admitted mws rq = Some rq' \<Longrightarrow> follows R (hnd rq')"
  shows "follows R (guarded mws hnd rq)"
proof -
  have "R s (snd (guarded mws hnd rq s))" for s
    using guarded_cases [of mws hnd rq s] assms
    by (cases "admitted mws rq") (auto simp: follows_def R_refl)
  then show ?thesis by (simp add: follows_def)
qed

end

lemma follows_sends: "follows R (hnd rq) \<Longrightarrow> follows R (sends f hnd rq)"
  by (simp add: follows_def sends_def case_prod_unfold)

subsection \<open>The relation\<close>

text \<open>What the public sees of a product in a database: its row, while it is ACTIVE.\<close>

definition shown :: "dbenv \<Rightarrow> string \<Rightarrow> db \<Rightarrow> product \<Rightarrow> bool" where
  "shown env i d p \<longleftrightarrow> (\<exists>r \<in> set (products d). int4in env i = Some (pr_id r) \<and>
     pr_status r = StatusActive \<and> p = public_product d r)"

text \<open>So between two databases: at some moment of a history from the one to the other.\<close>

definition shown_between :: "dbenv \<Rightarrow> admin_cmd set \<Rightarrow> string \<Rightarrow> db \<Rightarrow> db \<Rightarrow> product \<Rightarrow> bool" where
  "shown_between env A i d d' p \<longleftrightarrow> (\<exists>e. evolves env A d e \<and> evolves env A e d' \<and> shown env i e p)"

text \<open>The keys of details, apart from those that collide with the keys of listings.\<close>

definition detail_id :: "string \<Rightarrow> bool" where
  "detail_id i \<longleftrightarrow> take 5 i \<noteq> ''list:''"

definition fair_step :: "dbenv \<Rightarrow> admin_cmd set \<Rightarrow> world \<Rightarrow> world \<Rightarrow> bool" where
  "fair_step env A w w' \<longleftrightarrow> evolves env A (w_db w) (w_db w') \<and>
     (\<forall>i v. detail_id i \<longrightarrow> cached w' (generateProductKey i) = Some v \<longrightarrow>
        cached w (generateProductKey i) = Some v \<or>
        (\<exists>p. v = Doc (marshal_product p) \<and> shown_between env A i (w_db w) (w_db w') p))"

lemma shown_between_extend:
  "shown_between env A i e f p \<Longrightarrow> evolves env A d e \<Longrightarrow> shown_between env A i d f p"
  "shown_between env A i d e p \<Longrightarrow> evolves env A e f \<Longrightarrow> shown_between env A i d f p"
  unfolding shown_between_def using evolves_trans by blast+

lemma shown_clear: "shown env i d p \<Longrightarrow> p\<lparr>p_Status := [], p_Version := 0\<rparr> = p"
  by (auto simp: shown_def)

interpretation fair: guarantee "fair_step env A" for env A
proof
  show "fair_step env A s s" for s by (simp add: fair_step_def)
  fix s t u assume st: "fair_step env A s t" and tu: "fair_step env A t u"
  have "evolves env A (w_db s) (w_db u)" using st tu evolves_trans by (auto simp: fair_step_def)
  moreover have "cached s (generateProductKey i) = Some v \<or>
      (\<exists>p. v = Doc (marshal_product p) \<and> shown_between env A i (w_db s) (w_db u) p)"
    if i: "detail_id i" and u: "cached u (generateProductKey i) = Some v" for i v
  proof -
    have "evolves env A (w_db s) (w_db t)" "evolves env A (w_db t) (w_db u)"
      using st tu by (simp_all add: fair_step_def)
    note ext = shown_between_extend(1) [OF _ this(1)] shown_between_extend(2) [OF _ this(2)]
    from tu i u consider "cached t (generateProductKey i) = Some v"
      | p where "v = Doc (marshal_product p)" "shown_between env A i (w_db t) (w_db u) p"
      unfolding fair_step_def by blast
    then show ?thesis
    proof cases
      case 1
      with st i consider "cached s (generateProductKey i) = Some v"
        | p where "v = Doc (marshal_product p)" "shown_between env A i (w_db s) (w_db t) p"
        unfolding fair_step_def by blast
      then show ?thesis using ext(2) by cases blast+
    qed (use ext(1) in blast)
  qed
  ultimately show "fair_step env A s u" by (simp add: fair_step_def)
qed

text \<open>Steps that add no detail.\<close>

lemma fair_losing:
  assumes "evolves env A (w_db w) (w_db w')"
    and "\<And>i v. detail_id i \<Longrightarrow> cached w' (generateProductKey i) = Some v \<Longrightarrow> cached w (generateProductKey i) = Some v"
  shows "fair_step env A w w'"
  using assms by (simp add: fair_step_def)

lemma fair_reads:
  assumes "\<And>d. preserves (evolves env A d) m"
  shows "follows (fair_step env A) (on_db m)"
  using assms [THEN preserves_snd, OF evolves_refl] by (simp add: follows_def fair_step_def)

lemma detail_key_list_key:
  "detail_id i \<Longrightarrow> generateProductKey i \<noteq> generateProductListKey f"
  by (auto simp: detail_id_def generateProductKey_def generateProductListKey_def)

lemma fair_cache:
  assumes "pc_client c = world_client"
  shows "follows (fair_step env A) (pc_GetProduct c i)"
    and "follows (fair_step env A) (pc_GetProductList c f)"
    and "follows (fair_step env A) (pc_SetProductList cenv c f ps n)"
    and "follows (fair_step env A) (on_vk (vk_SetNX (lock_key i) (Bytes token) ttl))"
    and "follows (fair_step env A) (on_vk (vk_DeleteIfEqual (lock_key i) (Bytes token)))"
    and "follows (fair_step env A) (InvalidateProduct c i)"
    and "follows (fair_step env A) (InvalidateProductList c)"
proof -
  show "follows (fair_step env A) (pc_GetProduct c i)" "follows (fair_step env A) (pc_GetProductList c f)"
    using served.GetProduct_run(1) [OF assms] served.GetProductList_run(1) [OF assms]
      cache_keeps_db(1,3) [OF assms]
    by (auto intro!: followsI fair_losing) (metis evolves_refl snd_conv)+
  have "cached (snd (pc_SetProductList cenv c f ps n w)) (generateProductKey j) = cached w (generateProductKey j)"
    if "detail_id j" for j w
    using served.SetProductList_view(1) [OF assms, of cenv f ps n w] detail_key_list_key [OF that, of f] by auto
  then show "follows (fair_step env A) (pc_SetProductList cenv c f ps n)"
    using cache_keeps_db(4) [OF assms] by (auto simp: follows_def intro!: fair_losing)
  have "cached (snd (on_vk (vk_SetNX (lock_key i) (Bytes token) ttl) w)) (generateProductKey j) =
      cached w (generateProductKey j)"
    "cached (snd (on_vk (vk_DeleteIfEqual (lock_key i) (Bytes token)) w)) (generateProductKey j) =
      cached w (generateProductKey j)" for j w
    using served.other_key_setnx [of "lock_key i" "generateProductKey j" "Bytes token" ttl w]
      served.other_key_deleq [of "lock_key i" "generateProductKey j" "Bytes token" w] by simp_all
  then show "follows (fair_step env A) (on_vk (vk_SetNX (lock_key i) (Bytes token) ttl))"
    "follows (fair_step env A) (on_vk (vk_DeleteIfEqual (lock_key i) (Bytes token)))"
    by (auto simp: follows_def simp del: on_vk_simps(4) intro!: fair_losing)
  have "cached (snd (InvalidateProduct c i w)) k = Some v \<Longrightarrow> cached w k = Some v"
    "cached (snd (InvalidateProductList c w)) k = Some v \<Longrightarrow> cached w k = Some v" for k v w
    using served.delete_err [of "generateProductKey i" w] served.delpat_err [of "''product:list:*''" w k]
    by (auto simp: InvalidateProduct_def InvalidateProductList_def assms split: if_splits)
  then show "follows (fair_step env A) (InvalidateProduct c i)" "follows (fair_step env A) (InvalidateProductList c)"
    using on_vk_simps(3) by (auto simp: follows_def InvalidateProduct_def InvalidateProductList_def assms
        intro!: fair_losing)
qed

subsection \<open>Reading a detail\<close>

text \<open>A product told by a read: what the cache held before it, or what was shown during it.\<close>

definition told :: "dbenv \<Rightarrow> admin_cmd set \<Rightarrow> string \<Rightarrow> world \<Rightarrow> world \<Rightarrow> product \<Rightarrow> bool" where
  "told env A i w w' p \<longleftrightarrow> (\<exists>j. cached w (generateProductKey i) = Some (Doc j) \<and> unmarshal_product j = Inr p) \<or>
     shown_between env A i (w_db w) (w_db w') p"

definition telling :: "dbenv \<Rightarrow> admin_cmd set \<Rightarrow> string \<Rightarrow> (world, err, product) action \<Rightarrow> bool" where
  "telling env A i m \<longleftrightarrow> (\<forall>w r w'. m w = (r, w') \<longrightarrow> fair_step env A w w' \<and>
     (\<forall>p. r = Inr p \<longrightarrow> detail_id i \<longrightarrow> told env A i w w' p))"

lemma tellingI:
  "(\<And>w r w'. m w = (r, w') \<Longrightarrow> fair_step env A w w' \<and> (\<forall>p. r = Inr p \<longrightarrow> detail_id i \<longrightarrow> told env A i w w' p)) \<Longrightarrow>
     telling env A i m"
  by (simp add: telling_def)

lemma tellingD:
  assumes "telling env A i m" and "m w = (r, w')"
  shows "fair_step env A w w'" and "r = Inr p \<Longrightarrow> detail_id i \<Longrightarrow> told env A i w w' p"
  using assms by (auto simp: telling_def)

lemma told_after:
  assumes "fair_step env A w w1" and "fair_step env A w1 w2" and "told env A i w1 w2 p" and "detail_id i"
  shows "told env A i w w2 p"
proof -
  have e: "evolves env A (w_db w) (w_db w1)" "evolves env A (w_db w1) (w_db w2)"
    using assms(1,2) by (simp_all add: fair_step_def)
  from assms(3) consider j where "cached w1 (generateProductKey i) = Some (Doc j)" "unmarshal_product j = Inr p"
    | "shown_between env A i (w_db w1) (w_db w2) p" unfolding told_def by blast
  then show ?thesis
  proof cases
    case 1
    with assms(1,4) consider "cached w (generateProductKey i) = Some (Doc j)"
      | q where "j = marshal_product q" "shown_between env A i (w_db w) (w_db w1) q"
      unfolding fair_step_def by blast
    then show ?thesis
    proof cases
      case 2
      then have "p = q" using 1(2) shown_clear by (auto simp: shown_between_def)
      with 2 show ?thesis using shown_between_extend(2) [OF _ e(2)] by (simp add: told_def)
    qed (use 1 in \<open>auto simp: told_def\<close>)
  qed (use shown_between_extend(1) [OF _ e(1)] in \<open>simp add: told_def\<close>)
qed

lemma told_before:
  "told env A i w w1 p \<Longrightarrow> fair_step env A w1 w2 \<Longrightarrow> told env A i w w2 p"
  using shown_between_extend(2) by (auto simp: told_def fair_step_def)

text \<open>What a read does before it asks, and what it does with the answer, is in the relation.\<close>

lemma telling_after:
  assumes "fair_step env A w w1" and "telling env A i m" and "m w1 = (r, w')"
  shows "fair_step env A w w' \<and> (\<forall>p. r = Inr p \<longrightarrow> detail_id i \<longrightarrow> told env A i w w' p)"
  using tellingD [OF assms(2,3)] told_after [OF assms(1)] fair.R_trans [OF assms(1)] by blast

lemma FindByID_shown:
  assumes "scan_ok env" and "FindByID env i d = (Inr p, d')"
  shows "shown env i d p" and "\<exists>fs. d' = d\<lparr>faults := fs\<rparr>"
proof -
  from assms(2) obtain fs where d': "d' = d\<lparr>faults := fs\<rparr>"
    and q: "with_int4 env i (\<lambda>n. first_row (scan_product d') (filter (\<lambda>r. pr_id r = n \<and> pr_status r = StatusActive)
      (scan_order env (products d')))) = Inr p"
    unfolding FindByID_def on_err_def by (auto split: prod.splits sum.splits dest!: query_InrD)
  then obtain n r rs where n: "int4in env i = Some n" "filter (\<lambda>r. pr_id r = n \<and> pr_status r = StatusActive)
      (scan_order env (products d')) = r # rs" "scan_product d' r = Inr p"
    by (auto simp: with_int4_def first_row_def split: option.splits list.splits)
  from n(2) have "r \<in> set (filter (\<lambda>r. pr_id r = n \<and> pr_status r = StatusActive) (scan_order env (products d')))"
    by simp
  then have "r \<in> set (scan_order env (products d'))" and a: "pr_id r = n" "pr_status r = StatusActive"
    by simp_all
  then have "r \<in> set (products d)" using assms(1) d' by (simp add: scan_ok_def flip: set_mset_mset)
  moreover have "p = public_product d r"
    using n(3) by (auto simp: scan_product_def public_product_def coalesce_def d' category_name_def split: option.splits)
  ultimately show "shown env i d p" using a n(1) unfolding shown_def by blast
  show "\<exists>fs. d' = d\<lparr>faults := fs\<rparr>" using d' by blast
qed

lemma fetch_telling:
  assumes "scan_ok env"
  shows "telling env A i (on_db (FindByID env i))"
proof (rule tellingI)
  fix w r w' assume run: "on_db (FindByID env i) w = (r, w')"
  have f: "fair_step env A w w'"
    using fair_reads [OF reads_evolve(1)] run by (rule followsD)
  moreover have "told env A i w w' p" if "r = Inr p" for p
  proof -
    from run that obtain d' where "FindByID env i (w_db w) = (Inr p, d')"
      by (auto simp: on_db_def split: prod.splits)
    from FindByID_shown(1) [OF assms this] have "shown_between env A i (w_db w) (w_db w) p"
      unfolding shown_between_def by (intro exI [of _ "w_db w"]) simp
    with f shown_between_extend(2) show ?thesis by (auto simp: told_def fair_step_def)
  qed
  ultimately show "fair_step env A w w' \<and> (\<forall>p. r = Inr p \<longrightarrow> detail_id i \<longrightarrow> told env A i w w' p)" by blast
qed

lemma fetch_as_owner_telling:
  assumes "scan_ok env" and "pc_client c = world_client"
  shows "telling env A i (fetch_as_owner cenv c i token (on_db (FindByID env i)))"
proof (rule tellingI)
  fix w r w' assume run: "fetch_as_owner cenv c i token (on_db (FindByID env i)) w = (r, w')"
  let ?rel = "on_vk (vk_DeleteIfEqual (lock_key i) (Bytes token))"
  obtain x w1 where f: "on_db (FindByID env i) w = (x, w1)" by fastforce
  note t = tellingD [OF fetch_telling [OF assms(1)] f]
  have rel: "fair_step env A s (snd (?rel s))" for s
    using fair_cache(5) [OF assms(2)] by (simp add: follows_def)
  show "fair_step env A w w' \<and> (\<forall>p. r = Inr p \<longrightarrow> detail_id i \<longrightarrow> told env A i w w' p)"
  proof (cases x)
    case (Inl e)
    with run f assms(2) have "r = Inl e" "w' = snd (?rel w1)" by (auto simp: fetch_as_owner_def)
    with t(1) rel fair.R_trans show ?thesis by blast
  next
    case (Inr p)
    let ?w2 = "snd (pc_SetProduct cenv c i p w1)"
    from run f Inr assms(2) have r: "r = Inr p" "w' = snd (?rel ?w2)"
      by (auto simp: fetch_as_owner_def Let_def)
    obtain d' where d': "FindByID env i (w_db w) = (Inr p, d')" "w1 = w\<lparr>w_db := d'\<rparr>"
      using f Inr by (auto simp: on_db_def split: prod.splits)
    have e: "evolves env A (w_db w) (w_db ?w2)"
      using t(1) cache_keeps_db(2) [OF assms(2)] by (simp add: fair_step_def)
    have s: "shown_between env A i (w_db w) (w_db ?w2) p"
      using FindByID_shown(1) [OF assms(1) d'(1)] e unfolding shown_between_def
      by (intro exI [of _ "w_db w"]) simp
    have "cached ?w2 (generateProductKey j) = Some v \<Longrightarrow> cached w (generateProductKey j) = Some v \<or>
        (j = i \<and> v = Doc (marshal_product p))" for j v
      using served.SetProduct_view(1) [OF assms(2), of cenv i p w1] by (auto simp: d'(2) cached_def split: if_splits)
    then have w2: "fair_step env A w ?w2" using e s unfolding fair_step_def by blast
    moreover have "told env A i w ?w2 p" using s by (simp add: told_def)
    ultimately show ?thesis using rel [of ?w2] told_before fair.R_trans by (auto simp: r)
  qed
qed

text \<open>The other workers, while this one waits, stay within the relation.\<close>

definition others_fair :: "dbenv \<Rightarrow> admin_cmd set \<Rightarrow> world rounds \<Rightarrow> bool" where
  "others_fair env A rounds \<longleftrightarrow> (\<forall>x \<in> set rounds. \<forall>w. fair_step env A w (fst x w))"

lemma hit_told:
  assumes "pc_client c = world_client" and "pc_GetProduct c i w = (Inr (Some p), w1)"
  shows "told env A i w w2 p"
  using served.GetProduct_run(2) [OF assms, OF refl] by (auto simp: told_def split: option.splits)

lemma wait_loop_telling:
  assumes "scan_ok env" and "pc_client c = world_client" and "others_fair env A rounds"
  shows "telling env A i (wait_loop c i (on_db (FindByID env i)) rounds)"
  using assms(3)
proof (induction rounds)
  case Nil
  then show ?case using fetch_telling [OF assms(1)] by (simp add: telling_def)
next
  case (Cons x rounds)
  obtain g wk where x: "x = (g, wk)" by fastforce
  from Cons have IH: "telling env A i (wait_loop c i (on_db (FindByID env i)) rounds)"
    by (simp add: others_fair_def)
  show ?case
  proof (rule tellingI)
    fix w r w' assume run: "wait_loop c i (on_db (FindByID env i)) (x # rounds) w = (r, w')"
    have g: "fair_step env A w (g w)" using Cons.prems by (simp add: others_fair_def x)
    obtain y w1 where p: "pc_GetProduct c i (g w) = (y, w1)" by fastforce
    have w1: "fair_step env A (g w) w1" using followsD [OF fair_cache(1) [OF assms(2)] p] .
    note w2 = fair.R_trans [OF g w1]
    show "fair_step env A w w' \<and> (\<forall>p. r = Inr p \<longrightarrow> detail_id i \<longrightarrow> told env A i w w' p)"
    proof (cases wk)
      case Ctx_done
      with run x g show ?thesis by (auto simp: Let_def)
    next
      case Timer_fired
      with run x have "on_db (FindByID env i) (g w) = (r, w')" by (simp add: Let_def)
      with telling_after [OF g fetch_telling [OF assms(1)]] show ?thesis by blast
    next
      case Ticked
      show ?thesis
      proof (cases "\<exists>q. y = Inr (Some q)")
        case True
        then obtain q where y: "y = Inr (Some q)" by blast
        with run x Ticked p have r: "r = Inr q" "w' = w1" by (auto simp: Let_def)
        have "told env A i (g w) w1 q" using hit_told [OF assms(2)] p y by blast
        with told_after [OF g w1] w2 show ?thesis by (auto simp: r)
      next
        case False
        with run x Ticked p have "wait_loop c i (on_db (FindByID env i)) rounds w1 = (r, w')"
          by (auto simp: Let_def split: sum.splits option.splits)
        with telling_after [OF w2 IH] show ?thesis by blast
      qed
    qed
  qed
qed

lemma GetProductOrSet_telling:
  assumes "scan_ok env" and "pc_client c = world_client" and "others_fair env A rounds"
  shows "telling env A i (GetProductOrSet cenv c i token rounds (on_db (FindByID env i)))"
proof (rule tellingI)
  fix w r w'
  assume run: "GetProductOrSet cenv c i token rounds (on_db (FindByID env i)) w = (r, w')"
  obtain y w1 where p: "pc_GetProduct c i w = (y, w1)" by fastforce
  obtain z w2 where n: "on_vk (vk_SetNX (lock_key i) (Bytes token) lock_ttl) w1 = (z, w2)" by fastforce
  have w1: "fair_step env A w w1" using followsD [OF fair_cache(1) [OF assms(2)] p] .
  have w2: "fair_step env A w w2"
    using fair.R_trans [OF w1] followsD [OF fair_cache(4) [OF assms(2)] n] by blast
  show "fair_step env A w w' \<and> (\<forall>p. r = Inr p \<longrightarrow> detail_id i \<longrightarrow> told env A i w w' p)"
  proof (cases "\<exists>q. y = Inr (Some q)")
    case True
    then obtain q where y: "y = Inr (Some q)" by blast
    with run p have r: "r = Inr q" "w' = w1" by (auto simp: GetProductOrSet_def)
    with hit_told [OF assms(2)] p y w1 show ?thesis by blast
  next
    case False
    with run p n have R: "(case z of Inl e \<Rightarrow> on_db (FindByID env i) w2
        | Inr acquired \<Rightarrow> if acquired then fetch_as_owner cenv c i token (on_db (FindByID env i)) w2
            else wait_loop c i (on_db (FindByID env i)) rounds w2) = (r, w')"
      by (auto simp: GetProductOrSet_def assms(2) split: sum.splits option.splits)
    note after = telling_after [OF w2]
    from R show ?thesis
      using after [OF fetch_telling [OF assms(1)]] after [OF fetch_as_owner_telling [OF assms(1,2)]]
        after [OF wait_loop_telling [OF assms]]
      by (cases z) (simp_all split: if_splits)
  qed
qed

lemma sv_GetProduct_telling:
  assumes "scan_ok env" and "cache_wired sv" and "others_fair env A rounds"
  shows "telling env A i (sv_GetProduct env cenv sv token rounds i)"
proof (rule tellingI)
  fix w r w' assume run: "sv_GetProduct env cenv sv token rounds i w = (r, w')"
  let ?m = "case sv_cache sv of None \<Rightarrow> on_db (FindByID env i)
    | Some c \<Rightarrow> GetProductOrSet cenv c i token rounds (on_db (FindByID env i))"
  obtain x w1 where m: "?m w = (x, w1)" by fastforce
  with run have "w' = w1" and x: "\<And>p. r = Inr p \<Longrightarrow> x = Inr p"
    by (auto simp: sv_GetProduct_def on_err_def split: sum.splits)
  moreover have "telling env A i ?m"
    using fetch_telling [OF assms(1)] GetProductOrSet_telling [OF assms(1) _ assms(3)] assms(2)
    by (simp add: cache_wired_def split: option.split)
  ultimately show "fair_step env A w w' \<and> (\<forall>p. r = Inr p \<longrightarrow> detail_id i \<longrightarrow> told env A i w w' p)"
    using m by (auto simp: telling_def)
qed

lemma telling_follows: "telling env A i m \<Longrightarrow> follows (fair_step env A) m"
  by (rule followsI) (rule tellingD)

lemma fair_service:
  assumes "scan_ok env" and "cache_wired sv" and "others_fair env A rounds"
  shows "follows (fair_step env A) (GetProductDetails env cenv sv token rounds i)"
    and "follows (fair_step env A) (sv_ListProducts env cenv sv f)"
proof -
  note g = telling_follows [OF sv_GetProduct_telling [OF assms]]
  have "follows (fair_step env A) (GetRelatedProducts env sv i l)" for l
  proof (cases "rp_related (sv_repo sv)")
    case Primary
    then show ?thesis by (simp add: GetRelatedProducts_def on_pool_def fair_reads reads_evolve)
  next
    case Replica
    have "fair_step env A w (snd (on_replica (FindRelatedProducts env i l) w))" for w
      by (rule fair_losing) simp_all
    with Replica show ?thesis by (simp add: GetRelatedProducts_def on_pool_def follows_def)
  qed
  then show "follows (fair_step env A) (GetProductDetails env cenv sv token rounds i)"
    unfolding GetProductDetails_def Let_def
    by (intro fair.follows_seq g fair.follows_bind fair.follows_answer)
  have q: "follows (fair_step env A) (query_list env f)"
    unfolding query_list_def by (intro fair.follow fair_reads reads_evolve)
  show "follows (fair_step env A) (sv_ListProducts env cenv sv f)"
  proof (cases "sv_cache sv")
    case (Some c)
    then have c: "pc_client c = world_client" using assms(2) by (simp add: cache_wired_def)
    show ?thesis
    proof (rule followsI)
      fix w r w' assume run: "sv_ListProducts env cenv sv f w = (r, w')"
      obtain x w1 where l: "pc_GetProductList c f w = (x, w1)" by fastforce
      obtain y w2 where q2: "query_list env f w1 = (y, w2)" by fastforce
      have w1: "fair_step env A w w1" using followsD [OF fair_cache(2) [OF c] l] .
      have w2: "fair_step env A w w2" using fair.R_trans [OF w1 followsD [OF q q2]] .
      have "fair_step env A w (snd (pc_SetProductList cenv c f ps n w2))" for ps n
        using fair.R_trans [OF w2] fair_cache(3) [OF c] by (auto simp: follows_def)
      with run w1 w2 l q2 show "fair_step env A w w'"
        by (auto simp: sv_ListProducts_def Some split: sum.splits option.splits)
    qed
  qed (simp add: sv_ListProducts_def q)
qed

subsection \<open>Requests\<close>

lemma fair_public:
  assumes "scan_ok env" and "cache_wired sv" and "others_fair env A rounds"
  shows "follows (fair_step env A) (http_ListProducts env cenv sv rq)"
    and "follows (fair_step env A) (http_GetProduct env cenv sv token rounds rq)"
    and "follows (fair_step env A) (http_GetProductDetails env cenv sv token rounds rq)"
  unfolding http_ListProducts_def http_GetProduct_def http_GetProductDetails_def Let_def
  by (intro fair.follow fair_service [OF assms] telling_follows [OF sv_GetProduct_telling [OF assms]])+

lemma fair_writes:
  assumes "\<And>d. evolves env A d (snd (m d))"
  shows "follows (fair_step env A) (on_db m)"
  unfolding follows_def by (auto intro!: fair_losing simp: assms)

definition cache_fair :: "dbenv \<Rightarrow> admin_cmd set \<Rightarrow> world ProtectedHandler \<Rightarrow> bool" where
  "cache_fair env A h \<longleftrightarrow> (\<forall>x. ph_cache h = Some x \<longrightarrow>
     follows (fair_step env A) (xc_InvalidateProductList x) \<and>
     (\<forall>i. follows (fair_step env A) (xc_InvalidateProduct x i)))"

lemma fair_mounted:
  assumes "ph_repo h = repo_on_world env" and "cache_fair env A h" and "(m, pat, hnd) \<in> set (mount we h)"
    and "m \<noteq> GET \<Longrightarrow> issued rq \<subseteq> A"
  shows "follows (fair_step env A) (hnd rq)"
proof (cases "m = GET")
  case True
  have r: "follows (fair_step env A) (h_ListProducts we h rq)" "follows (fair_step env A) (h_GetProduct h rq)"
    "follows (fair_step env A) (ProductAudit h rq)" "follows (fair_step env A) (h_ListCategories we h rq)"
    by (rule fair.follows_reads; simp add: assms(1) repo_on_world_def fair_reads reads_evolve)+
  with True assms(3) show ?thesis by (auto simp: mount_def)
next
  case False
  obtain sub rid where ac: "actor rq = (sub, rid)" by fastforce
  have e: "evolves env A d (snd (CreateProduct env (create_input cb rq) d))"
    "evolves env A d (snd (UpdateProduct env (update_input ub rq) d))"
    "evolves env A d (snd (Transition env (transition_input act b rq) d))"
    "evolves env A d (snd (CreateCategory n ds sub rid d))"
    "evolves env A d (snd (UpdateCategory env cid n ds sub rid d))" for d cb ub act b n ds cid
    using evolves_cmd [of "Do_create (create_input cb rq)" A env d]
      evolves_cmd [of "Do_update (update_input ub rq)" A env d]
      evolves_cmd [of "Do_transition (transition_input act b rq)" A env d]
      evolves_cmd [of "Do_create_category n ds sub rid" A env d]
      evolves_cmd [of "Do_update_category cid n ds sub rid" A env d] assms(4) [OF False]
    by (simp_all add: issued_def ac subset_iff)
  have c: "follows (fair_step env A) (xc_InvalidateProductList x) \<and>
      (\<forall>i. follows (fair_step env A) (xc_InvalidateProduct x i))" if "ph_cache h = Some x" for x
    using assms(2) that by (simp add: cache_fair_def)
  have w: "follows (fair_step env A) (h_CreateProduct we h rq)" "follows (fair_step env A) (h_UpdateProduct we h rq)"
    "follows (fair_step env A) (transition we h act rq)" "follows (fair_step env A) (h_CreateCategory we h rq)"
    "follows (fair_step env A) (h_UpdateCategory we h rq)" for act
    by (rule fair.follows_writes [OF _ _ _ _ _ c]; simp add: assms(1) repo_on_world_def fair_writes e ac)+
  with False assms(3) show ?thesis by (auto simp: mount_def)
qed

lemma boot_cache_fair:
  assumes "boot pf env cfg p = (Inr a, p1)"
  shows "cache_fair env A (ap_protected a)"
proof -
  have ret: "follows (fair_step env A) m \<Longrightarrow> follows (fair_step env A) (returns m)" for m :: "(world, err, unit) action"
    by (simp add: follows_def)
  show ?thesis
    using boot_wiring(1) [OF assms] ret fair_cache(6,7)
    by (simp add: cache_fair_def cache_on_world_def nil_product_cache_def follows_def [where m = "\<lambda>s. (None, s)"]
        fair.R_refl split: if_splits)
qed

lemma fair_ServeHTTP:
  assumes "scan_ok env" and "boot pf env cfg p = (Inr a, p1)"
    and "others_fair env A (vi_rounds v)" and "sent_by mws v \<subseteq> A"
  shows "follows (fair_step env A) (ServeHTTP we mws env cenv a down v)"
proof -
  let ?R = "fair_step env A"
  let ?routes = "engine_routes we mws env cenv a down (newLockToken (vi_random v)) (vi_rounds v)"
  have w: "cache_wired (ap_service a)" "ph_repo (ap_protected a) = repo_on_world env"
    using boot_app_wired [OF assms(2)] by (simp_all add: app_wired_def)
  have "?R s (snd (ServeHTTP we mws env cenv a down v s))" for s
  proof (cases "find (\<lambda>r. fst r = vi_meth v \<and> fst (snd r) = vi_pattern v) ?routes")
    case (Some r)
    then have r: "r \<in> set ?routes" "fst r = vi_meth v" by (auto dest: find_Some_set simp: find_Some_iff)
    have "follows ?R (snd (snd r) (vi_request v))"
    proof (cases "r \<in> set (protected_routes we mws (ap_protected a))")
      case True
      then obtain m pat hnd where h: "(m, pat, hnd) \<in> set (mount we (ap_protected a))"
        and re: "r = (m, protected_group @ pat, sends W_admin (guarded mws hnd))"
        by (auto simp: protected_routes_def)
      have "follows ?R (hnd rq')" if "admitted mws (vi_request v) = Some rq'" for rq'
        by (rule fair_mounted [OF w(2) boot_cache_fair [OF assms(2)] h])
           (use assms(4) r(2) that in \<open>simp add: sent_by_def re\<close>)
      then show ?thesis by (simp add: re follows_sends fair.follows_guarded)
    next
      case False
      have s: "follows ?R (status_page y rq)" for y rq
        by (cases y) (simp add: follows_def status_page_def fair.R_refl)
      note p = fair_public [OF assms(1) w(1) assms(3)] and sd = follows_sends [where R = ?R and rq = "vi_request v"]
      from False r(1) show ?thesis
        unfolding engine_routes_def public_routes_def
        by (auto intro!: s sd p)
    qed
    with Some show ?thesis by (simp add: ServeHTTP_def follows_def)
  qed (simp add: ServeHTTP_def fair.R_refl)
  then show ?thesis by (simp add: follows_def)
qed

subsection \<open>A run\<close>

text \<open>Between requests the cache server may lose entries and start to fail, but it makes nothing up.\<close>

fun server_loses :: "web_env \<Rightarrow> middleware list \<Rightarrow> dbenv \<Rightarrow> cache_env \<Rightarrow> app \<Rightarrow> act list \<Rightarrow>
    stage \<times> world \<Rightarrow> bool" where
  "server_loses we mws env cenv a [] x \<longleftrightarrow> True"
| "server_loses we mws env cenv a (e # acts) x \<longleftrightarrow>
     (\<forall>k. e = Cache_server k \<longrightarrow> vk_view k \<subseteq>\<^sub>m cached (snd x)) \<and>
     server_loses we mws env cenv a acts (snd (node_step we mws env cenv a e x))"

lemma fair_run:
  assumes "scan_ok env" and "boot pf env cfg p = (Inr a, p1)"
    and "\<forall>v. Arrives v \<in> set acts \<longrightarrow> others_fair env A (vi_rounds v) \<and> sent_by mws v \<subseteq> A"
    and "server_loses we mws env cenv a acts x"
  shows "fair_step env A (snd x) (snd (run_node we mws env cenv a acts x))"
  using assms(3,4)
proof (induction acts arbitrary: x)
  case (Cons e acts)
  let ?y = "snd (node_step we mws env cenv a e x)"
  have "fair_step env A (snd x) (snd ?y)"
  proof (cases e)
    case (Arrives v)
    with Cons.prems(1) have "others_fair env A (vi_rounds v)" "sent_by mws v \<subseteq> A" by auto
    from fair_ServeHTTP [OF assms(1,2) this] show ?thesis
      by (cases x) (simp add: Arrives case_prod_unfold follows_def fair.R_refl)
  next
    case (Cache_server k)
    with Cons.prems(2) have "vk_view k \<subseteq>\<^sub>m cached (snd x)" by simp
    then show ?thesis
      by (cases x) (auto simp: Cache_server map_le_def cached_def dom_def intro!: fair_losing)
  qed (cases x; auto intro!: fair_losing simp: cached_def)+
  moreover have "fair_step env A (snd ?y) (snd (run_node we mws env cenv a acts ?y))"
    using Cons.prems by (intro Cons.IH) auto
  ultimately show ?case unfolding run_node_Cons by (rule fair.R_trans)
qed (simp add: run_node_def fair.R_refl)

subsection \<open>What a detail answered\<close>

text \<open>A read that comes after a run.\<close>

lemma answered_detail:
  assumes "scan_ok env" and "boot pf env cfg p = (Inr a, p1)"
    and "\<forall>v. Arrives v \<in> set acts \<longrightarrow> others_fair env A (vi_rounds v) \<and> sent_by mws v \<subseteq> A"
    and "others_fair env A (vi_rounds u)"
    and "server_loses we mws env cenv a acts (st, w)"
    and "run_node we mws env cenv a acts (st, w) = (st', w')"
    and "vi_meth u = GET" and "vi_pattern u = ''/product/v1/public/products/:id''"
    and "rq_param (vi_request u) = i" and "detail_id i" and "cached w (generateProductKey i) = None"
    and "ServeHTTP we mws env cenv a down u w' = (Answer 200 (W_product q), w'')"
  shows "shown_between env A i (w_db w) (w_db w'') q"
proof -
  let ?get = "sv_GetProduct env cenv (ap_service a) (newLockToken (vi_random u)) (vi_rounds u) i"
  have "cache_wired (ap_service a)" using boot_app_wired [OF assms(2)] by (simp add: app_wired_def)
  note g = sv_GetProduct_telling [OF assms(1) this assms(4), of i cenv "newLockToken (vi_random u)"]
  have "fair_step env A w w'" using fair_run [OF assms(1-3,5)] assms(6) by simp
  moreover have "?get w' = (Inr q, w'')"
    using assms(7-9,12)
    by (auto simp: ServeHTTP_def engine_routes_def public_routes_def sends_def http_GetProduct_def
        product_failure_def internal_error_def split: prod.splits sum.splits if_splits)
  ultimately have "told env A i w w'' q"
    using told_after [OF _ _ _ assms(10)] tellingD [OF g] assms(10) by blast
  with assms(11) show ?thesis by (simp add: told_def)
qed

text \<open>
  C8. What the public is shown was for sale: whatever a booted process has served, with any
  faults of either server and any moves of other processes that keep to the same rules, a
  detail read that is answered answers a product as its row was, and ACTIVE, at some moment
  between the start and the answer (or before the start, if the cache held it then).
\<close>

theorem details_shown_were_active:
  assumes "scan_ok env" and "boot pf env cfg p = (Inr a, p1)"
    and "\<forall>v. Arrives v \<in> set acts \<longrightarrow> others_fair env A (vi_rounds v) \<and> sent_by mws v \<subseteq> A"
    and "others_fair env A (vi_rounds u)"
    and "server_loses we mws env cenv a acts (st, w)"
    and "run_node we mws env cenv a acts (st, w) = (st', w')"
    and "vi_meth u = GET" and "vi_pattern u = ''/product/v1/public/products/:id''"
    and "rq_param (vi_request u) = i" and "take 5 i \<noteq> ''list:''"
    and "cached w (generateProductKey i) = None"
    and "ServeHTTP we mws env cenv a down u w' = (Answer 200 (W_product q), w'')"
  shows "\<exists>d r. evolves env A (w_db w) d \<and> evolves env A d (w_db w'') \<and> r \<in> set (products d) \<and>
     int4in env i = Some (pr_id r) \<and> pr_status r = StatusActive \<and> q = public_product d r"
  using answered_detail [OF assms(1-9) assms(10) [folded detail_id_def] assms(11,12)]
  by (auto simp: shown_between_def shown_def)

text \<open>Commands only add to the audit trail.\<close>

lemma step_audits: "catalog_step d n a d' \<Longrightarrow> set (t_audits d) \<subseteq> set (t_audits d')"
  by (erule catalog_step.cases) auto

lemma evolves_audits:
  assumes "evolves env A d d'" and "scan_ok env" and "numeric2_ok env" and "db_inv d"
  shows "db_inv d' \<and> set (audits d) \<subseteq> set (audits d')"
proof -
  from assms(1) obtain es where es: "d' = run_events env es d" by (auto simp: evolves_def)
  have "db_inv d' \<and> set (audits d) \<subseteq> set (t_audits (tables_of d'))"
    unfolding es
    by (rule run_events_induct [where I = "\<lambda>t. set (audits d) \<subseteq> set (t_audits t)", OF assms(2-4)])
       (use step_audits in \<open>fastforce simp: tables_of_def\<close>)+
  then show ?thesis by (simp add: tables_of_def)
qed

lemma active_was_moved:
  assumes "lifecycle_run s acts StatusActive" and "s \<noteq> StatusActive"
  shows "ActionPublish \<in> set acts \<or> ActionRestore \<in> set acts"
  using assms by (induction s acts StatusActive rule: lifecycle_run.induct) (auto simp: lifecycle_edge_iff)


subsection \<open>A product created, released and looked at\<close>

definition release_visit :: visit where
  "release_visit = form_visit POST ''/products/:id/publish'' ''1'' []"

definition look_visit :: visit where
  "look_visit = \<lparr>vi_meth = GET, vi_pattern = ''/product/v1/public/products/:id'',
     vi_request = bare_request ''1'', vi_random = ''t'', vi_rounds = []\<rparr>"

definition blank_world :: world where
  "blank_world = sample_world\<lparr>w_db := migrated_db\<rparr>"

definition detail_cache :: "world ProductCache" where
  "detail_cache = configured_cache (Cache (Load (staging_env ''true'')))"

definition cached_app :: app where
  "cached_app = staging_app\<lparr>ap_service := (ap_service staging_app)\<lparr>sv_cache := Some detail_cache\<rparr>,
     ap_protected := operator_handler std_env (Some detail_cache)\<rparr>"

lemma detail_client [simp]: "pc_client detail_cache = world_client"
  by (simp add: detail_cache_def)

lemma cached_boot:
  "\<exists>p. boot calm std_env (Load (staging_env ''true'')) fresh_proc = (Inr cached_app, p)"
  by (simp add: boot_def seq_def staging_valid boot_parts staging_parts calm_def Let_def
      NewProductService_def WithAvailability_def NewProtectedHandler_def as_catalogCache_def
      staging_app_def cached_app_def operator_handler_def configured_cache_def detail_cache_def)

definition released :: "request \<Rightarrow> db" where
  "released rq = snd (Transition std_env (transition_input ActionPublish [] rq)
     (snd (CreateProduct std_env sample_create migrated_db)))"

definition release_request :: request where
  "release_request = (vi_request release_visit)\<lparr>rq_user := Some ''alice''\<rparr>"

lemma launch_runs:
  "\<exists>x. CreateProduct std_env sample_create migrated_db =
    (Inr x, snd (CreateProduct std_env sample_create migrated_db))"
  "\<exists>x. Transition std_env (transition_input ActionPublish [] release_request)
    (snd (CreateProduct std_env sample_create migrated_db)) = (Inr x, released release_request)"
  "\<exists>q d. FindByID std_env ''1'' (released release_request) = (Inr q, d)"
proof -
  have inr: "\<exists>x. z = (Inr x, snd z)" if "case fst z of Inl _ \<Rightarrow> False | Inr _ \<Rightarrow> True"
    for z :: "(err + 'x) \<times> db"
    using that by (cases z) (auto split: sum.splits)
  show "\<exists>x. CreateProduct std_env sample_create migrated_db =
      (Inr x, snd (CreateProduct std_env sample_create migrated_db))" by (rule inr) code_simp
  show "\<exists>x. Transition std_env (transition_input ActionPublish [] release_request)
    (snd (CreateProduct std_env sample_create migrated_db)) = (Inr x, released release_request)"
    unfolding released_def by (rule inr) code_simp
  have "\<exists>q. FindByID std_env ''1'' (released release_request) =
      (Inr q, snd (FindByID std_env ''1'' (released release_request)))" by (rule inr) code_simp
  then show "\<exists>q d. FindByID std_env ''1'' (released release_request) = (Inr q, d)" by blast
qed

abbreviation launch_serve :: "visit \<Rightarrow> world \<Rightarrow> wire reply \<times> world" where
  "launch_serve \<equiv> ServeHTTP sample_web [staff_guard] std_env sample_cenv cached_app False"

lemma launch_routes:
  "launch_serve create_visit w = sends W_admin (guarded [staff_guard] (h_CreateProduct sample_web
     (operator_handler std_env (Some detail_cache)))) (vi_request create_visit) w"
  "launch_serve release_visit w = sends W_admin (guarded [staff_guard] (transition sample_web
     (operator_handler std_env (Some detail_cache)) ActionPublish)) (vi_request release_visit) w"
  "launch_serve look_visit w = sends W_product (http_GetProduct std_env sample_cenv (ap_service cached_app)
     (newLockToken ''t'') []) (bare_request ''1'') w"
  by (simp_all add: ServeHTTP_def create_visit_def release_visit_def form_visit_def look_visit_def
      engine_routes_def public_routes_def protected_routes_def protected_group_def mount_def cached_app_def)

lemma create_served:
  "\<exists>r w. launch_serve create_visit blank_world = (r, w) \<and>
     w_db w = snd (CreateProduct std_env sample_create migrated_db) \<and> vk_faults (w_vk w) = []"
proof -
  obtain x d where x: "CreateProduct std_env sample_create migrated_db = (Inr x, d)"
    using launch_runs(1) by blast
  let ?w = "blank_world\<lparr>w_db := d\<rparr>"
  have "vk_faults (w_vk ?w) = []" by (simp add: blank_world_def sample_world_def empty_vk_def)
  from InvalidateProductList_healthy [OF detail_client this] obtain w' where
    w': "InvalidateProductList detail_cache ?w = (Inr (), w')" "w_db w' = w_db ?w" "vk_faults (w_vk w') = []"
    by blast
  have ad: "guarded [staff_guard] h (vi_request create_visit) w = h ((vi_request create_visit)\<lparr>rq_user := Some ''alice''\<rparr>) w"
    for h :: "world handler" and w by (simp add: create_visit_def)
  have "launch_serve create_visit blank_world = (Answer 201 (W_admin (Product_body x)), w')"
    using x w'(1)
    by (simp add: launch_routes sends_def ad h_CreateProduct_def create_visit_bind repo_on_world_def on_db_def
        blank_world_def invalidateList_def ignore_error_def cache_on_world_def returns_def finish_def)
  with w' x show ?thesis by simp
qed

lemma release_served:
  assumes "w_db w = snd (CreateProduct std_env sample_create migrated_db)" and "vk_faults (w_vk w) = []"
  shows "\<exists>r w'. launch_serve release_visit w = (r, w') \<and> w_db w' = released release_request \<and>
    cached w' (generateProductKey ''1'') = None"
proof -
  obtain x where x: "Transition std_env (transition_input ActionPublish [] release_request) (w_db w) =
      (Inr x, released release_request)" using launch_runs(2) assms(1) by auto
  let ?w = "w\<lparr>w_db := released release_request\<rparr>"
  from invalidateProduct_clears [OF detail_client, of ?w std_env "''1''"] assms(2) obtain w' where
    w': "invalidateProduct (operator_handler std_env (Some detail_cache)) ''1'' ?w = (True, w')"
      "w_db w' = w_db ?w" "cached w' (generateProductKey ''1'') = None" by auto
  have ad: "guarded [staff_guard] h (vi_request release_visit) w = h release_request w" for h :: "world handler"
    by (simp add: release_visit_def release_request_def)
  have rq: "rq_param release_request = ''1''" "0 < rq_length release_request"
    "ShouldBindJSON transition_fields (valid_transition_body sample_web) [] (rq_body release_request) = Inr []"
    by (simp_all add: release_request_def release_visit_def form_visit_def bare_request_def ShouldBindJSON_def
        valid_transition_body_def sample_web_def rune_count_def)
  have "launch_serve release_visit w = (Answer 200 (W_admin (Product_body x)), w')"
    using x w'(1)
    by (simp add: launch_routes sends_def ad transition_def rq repo_on_world_def on_db_def finish_def
        del: guarded.simps)
  with w' show ?thesis by simp
qed

lemma look_served:
  assumes "w_db w = released release_request" and "cached w (generateProductKey ''1'') = None"
  shows "\<exists>q w'. launch_serve look_visit w = (Answer 200 (W_product q), w')"
proof -
  let ?sv = "ap_service cached_app" and ?f = "on_db (FindByID std_env ''1'') :: (world, err, product) action"
  obtain q d where q: "FindByID std_env ''1'' (released release_request) = (Inr q, d)" using launch_runs(3) by blast
  obtain y w1 where g: "pc_GetProduct detail_cache ''1'' w = (y, w1)" by fastforce
  obtain z w2 where n: "on_vk (vk_SetNX (lock_key ''1'') (Bytes (newLockToken ''t'')) lock_ttl) w1 = (z, w2)"
    by fastforce
  have "y \<noteq> Inr (Some p)" for p
    using served.GetProduct_miss [OF detail_client assms(2) g] by auto
  moreover have "w_db w2 = released release_request"
    using cache_keeps_db(1) [OF detail_client, of "''1''" w] on_vk_simps(3) assms(1) g n by (metis snd_conv)
  then have f: "?f w2 = (Inr q, w2\<lparr>w_db := d\<rparr>)" by (simp add: on_db_def q)
  ultimately have "fst (GetProductOrSet sample_cenv detail_cache ''1'' (newLockToken ''t'') [] ?f w) = Inr q"
    using g n by (auto simp: GetProductOrSet_def fetch_as_owner_def Let_def split: sum.split option.split)
  moreover have "sv_cache ?sv = Some detail_cache" by (simp add: cached_app_def)
  ultimately have "fst (sv_GetProduct std_env sample_cenv ?sv (newLockToken ''t'') [] ''1'' w) = Inr q"
    by (simp add: sv_GetProduct_def on_err_def case_prod_unfold split: sum.split)
  then show ?thesis
    by (cases "sv_GetProduct std_env sample_cenv ?sv (newLockToken ''t'') [] ''1'' w")
       (simp add: launch_routes sends_def http_GetProduct_def bare_request_def)
qed

text \<open>The whole run, and the read at its end.\<close>

definition launch :: "act list" where
  "launch = [Arrives create_visit, Arrives release_visit]"

lemma launch_run:
  obtains w q w' where "run_node sample_web [staff_guard] std_env sample_cenv cached_app launch
      (Serving, blank_world) = (Serving, w)"
    and "launch_serve look_visit w = (Answer 200 (W_product q), w')"
proof -
  obtain r1 w1 where 1: "launch_serve create_visit blank_world = (r1, w1)"
    "w_db w1 = snd (CreateProduct std_env sample_create migrated_db)" "vk_faults (w_vk w1) = []"
    using create_served by blast
  from release_served [OF this(2,3)] obtain r2 w2 where 2: "launch_serve release_visit w1 = (r2, w2)"
    "w_db w2 = released release_request" "cached w2 (generateProductKey ''1'') = None" by blast
  from look_served [OF this(2,3)] obtain q w3 where "launch_serve look_visit w2 = (Answer 200 (W_product q), w3)"
    by blast
  moreover have "run_node sample_web [staff_guard] std_env sample_cenv cached_app launch (Serving, blank_world) =
      (Serving, w2)" using 1(1) 2(1) by (simp add: run_node_def launch_def)
  ultimately show ?thesis by (rule that [rotated])
qed

lemma launch_visits:
  "Arrives v \<in> set launch \<Longrightarrow> others_fair std_env A (vi_rounds v)"
  "others_fair std_env A (vi_rounds look_visit)"
  "server_loses we mws env cenv a launch x"
  "cached blank_world = Map.empty" "w_db blank_world = migrated_db"
  "vi_meth look_visit = GET" "vi_pattern look_visit = ''/product/v1/public/products/:id''"
  "rq_param (vi_request look_visit) = ''1''"
  by (auto simp: launch_def others_fair_def look_visit_def create_visit_def release_visit_def bare_request_def
      blank_world_def sample_world_def cached_def vk_view_def lookup_def lookup_in_def empty_vk_def fun_eq_iff)

theorem details_shown_were_active_witness:
  "\<exists>w q w' d r. run_node sample_web [staff_guard] std_env sample_cenv cached_app launch (Serving, blank_world) =
       (Serving, w) \<and>
     ServeHTTP sample_web [staff_guard] std_env sample_cenv cached_app False look_visit w =
       (Answer 200 (W_product q), w') \<and>
     r \<in> set (products d) \<and> pr_status r = StatusActive \<and> q = public_product d r"
proof -
  obtain p where b: "boot calm std_env (Load (staging_env ''true'')) fresh_proc = (Inr cached_app, p)"
    using cached_boot by blast
  obtain w q w' where run: "run_node sample_web [staff_guard] std_env sample_cenv cached_app launch
      (Serving, blank_world) = (Serving, w)" and look: "launch_serve look_visit w = (Answer 200 (W_product q), w')"
    by (rule launch_run)
  have v: "\<forall>v. Arrives v \<in> set launch \<longrightarrow> others_fair std_env UNIV (vi_rounds v) \<and> sent_by [staff_guard] v \<subseteq> UNIV"
    using launch_visits(1) by blast
  from details_shown_were_active [OF std_scan_ok b v launch_visits(2,3) run launch_visits(6-8) _ _ look]
    launch_visits(4) run look
  show ?thesis by simp blast
qed


end
