(* ===== verification/Spec2Isabelle.thy ===== *)
theory Spec2Isabelle
  imports Price_Server Downstream_Clients Public_Spec Stale_Fill Single_Flight Serial_Order
    Engine_Spec Reply_Types Replica_Reads Fair_Reads
begin

text \<open>
  A model of the product service, and what makes it correct.

  \<^bold>\<open>The program.\<close> The service keeps a catalog of products and categories in Postgres and
  serves it three ways: public reads over HTTP (\<open>internal/web/v1/handler.go\<close>), privileged
  commands of operators over HTTP behind a staff guard (\<open>internal/web/v1/protected.go\<close>), and
  price reads for the checkout over gRPC (\<open>internal/grpc/v1/server.go\<close>). Public reads pass
  through a service layer (\<open>internal/logic/v1\<close>) that keeps a cache in Valkey
  (\<open>internal/core/cache\<close>) and asks two other services for reviews and availability. Operators
  write through a repository of their own (\<open>internal/core/repository\<close>) that appends an audit
  row in the transaction of every command; the handlers then invalidate the cache. The process
  (\<open>cmd/main.go\<close>, \<open>config/config.go\<close>, \<open>internal/core/database.go\<close>) wires all of this.

  \<^bold>\<open>The theories.\<close>
    \<^item> \<open>Prelude\<close>: actions (a result or an error, and the new state), preservation rules, 64-bit
      arithmetic, ASCII texts, windows of lists, a stable sort.
    \<^item> \<open>GoNum\<close>: decimal integers (\<open>strconv\<close>), \<open>float64\<close> as exact rationals rounded to the
      nearest double, prices in cents.
    \<^item> \<open>Domain\<close>: \<open>internal/core/domain\<close>; products, error values with their wrap chains, the
      lifecycle and its diagram.
    \<^item> \<open>Catalog_DB\<close>, \<open>Catalog_Inv\<close>: the tables of the migrations, statements under connection
      faults (a statement runs, is lost, or runs with its answer lost), transactions, and the
      invariant of the database (keys, ranges of the columns, references).
    \<^item> \<open>Product_Repo\<close>, \<open>Admin_Repo\<close>: the two repositories, operation by operation. \<open>Audit_Trail\<close>
      and \<open>Operator_Spec\<close>: the abstract catalog, whose steps are a change with its audit row;
      every command refines it; histories of commands, clock ticks and faults.
    \<^item> \<open>Row_Locks\<close>, \<open>Row_Locks_Inv\<close>, \<open>Row_Locks_Spec\<close>, \<open>Serial_Order\<close>: operators at work at the
      same time. The product writers are cut at their round trips to the server, and a step
      relation interleaves any number of them under the row locks of Postgres, with
      connections that break; the stages of one command, run one after the other, are its
      transaction in \<open>Admin_Repo\<close>. No schedule is stuck or endless, the audit trail stays
      complete, one of several edits with the same version wins, and the whole is as good as
      some order of the transactions, but for a race with the rename of a category, which is
      shown to be none.
    \<^item> \<open>Cache_Client\<close>: the interface \<open>CacheClient\<close> as a record and as a locale, and the client of
      Valkey over a store with deadlines. \<open>Sha256\<close>: the digest in the keys of listings.
      \<open>Product_Cache\<close>: keys, documents, jitter, the stampede
      lock with its polling loop. The environment of a run gives the lock token and, for each
      turn of the loop, what other workers did meanwhile and what woke the loop up.
    \<^item> \<open>Product_Service\<close>, \<open>Service_Spec\<close>, \<open>Single_Flight\<close>: the service over a world of a database,
      its read replica and a cache server; when cached listings are transparent, what a detail read may answer,
      how long a stale one lives, how a waiting reader is served by the holder of the lock.
    \<^item> \<open>Price_Server\<close>, \<open>Downstream_Clients\<close>: the gRPC server and the two clients.
    \<^item> \<open>Http_Public\<close>, \<open>Http_Protected\<close>, \<open>Http_Spec\<close>: the handlers. A reply is an answer, a
      failure, or a panic. The locale \<open>catalog_admin\<close> is the contract of the repository interface.
      \<open>Public_Spec\<close>: the envelope of a public listing, down to the rows. \<open>Stale_Fill\<close>: a read in
      flight during a command.
    \<^item> \<open>Go_Floats\<close>: \<open>strconv.ParseFloat\<close>. \<open>Config\<close>, \<open>Config_Spec\<close>, \<open>Dsn\<close>: the configuration from the
      environment, its validation, the connection strings and a reader that takes them apart.
    \<^item> \<open>Startup\<close>, \<open>Startup_Spec\<close>: subcommands, wiring (the repository with the pool its related
      products are read from, the cache, the clients), serving and shutdown as a trace of events
      with a stack of deferred calls. The HTTP listener may fail beside the main line, at any
      point until the servers are stopped.
    \<^item> \<open>Engine\<close>, \<open>Engine_Spec\<close>, \<open>Reply_Types\<close>: the table of routes of a booted process and the
      process in service, a machine whose acts are requests, changes of the servers around it,
      the signal and the closing of the HTTP server. Composed over all layers: requests write
      only as histories of commands in the name of admitted subjects, so the audit trail of
      the running service is complete and a stale form answers 409; readiness fails first;
      each route answers in its own shape. \<open>Replica_Reads\<close>: what a lagging replica can reach, by a
      non-interference argument over all routes. \<open>Fair_Reads\<close>: what public detail reads can show over
      a whole run, through the cache and the waits of its lock, by rely and guarantee: only what was
      ACTIVE at some moment, and only after an operator released it.

  \<^bold>\<open>Contracts.\<close> Locales state the interfaces: the cache client (\<open>Cache_Client\<close>), the reader of
  the catalog behind the price server (\<open>Price_Server\<close>), the operator's repository
  (\<open>Http_Spec\<close>), a relation that the parts of a handler keep to (\<open>Fair_Reads\<close>); each is
  interpreted on the model of the code that provides it.

  \<^bold>\<open>Bounds.\<close> No operation runs on fuel. The polling loop takes one element of the
  environment's list per turn and asks the database when the list is at its end, as it does
  when its timer fires; \<open>ParseDuration\<close> ends because each segment consumes its unit; all other
  recursion is on lists.

  \<^bold>\<open>Assumptions.\<close> Go's \<open>int\<close> has 64 bits. Texts are byte sequences; changes of case and
  trimming are modelled on ASCII. The jitter draws, the validator of request bodies, Postgres'
  reading of integers and its rounding to cents are parameters, with what is used of them as
  named hypotheses (\<open>scan_ok\<close>, \<open>numeric2_ok\<close>, \<open>draw_ok\<close>, \<open>validator_ok\<close>), each with an instance. At start-up, what other systems answer is the record
  \<open>platform\<close>. Between interleaved transactions Postgres behaves as documented for
  \<open>READ COMMITTED\<close>: row locks and unique names in flight are held until a transaction ends, a
  statement that has to wait is a step that is not enabled, a lost connection undoes its
  transaction or loses the answer of its \<open>COMMIT\<close>; the read-back before \<open>COMMIT\<close> is part of
  it, and a command on a category is one step. What other processes do while a request waits
  for the lock of the cache is a list of changes of the world, which must themselves be
  histories of commands where the audit trail is at stake.

  \<^bold>\<open>Not modelled.\<close> Telemetry (spans, metrics but for the cache counters, log records but for
  the two process markers), the pool settings beyond the request that carries them, how far
  the replica lags (it may hold any tables at any time), the HTTP and gRPC frameworks (a
  request comes with the pattern it matched, and the route is looked up by method and pattern;
  recovery from a panic is theirs), TLS and token verification (the guard chain is a
  parameter), the contents of the migration files beyond the final tables, requests that
  overlap otherwise than in the transactions of \<open>Row_Locks\<close> and the waits of the cache lock,
  and a gRPC listener that fails after it has started, which only stops the price reads.
\<close>

end
